(* ===== verification/Prelude.thy ===== *)
theory Prelude
  imports Main "HOL-Library.Finite_Map" "HOL-Library.Char_ord" "HOL-Library.List_Lexorder"
begin

text \<open>
  Vocabulary shared by every component: the collection of weakest-precondition rules, Go strings
  as byte lists (ordered bytewise, as Go orders them), Go maps as finite maps, and generic facts
  about sorting and finite maps.
\<close>

named_theorems wp_rules \<open>rules that push a postcondition through one effectful operation\<close>

section \<open>Byte strings\<close>

type_synonym bytes = string

abbreviation byte :: "char \<Rightarrow> nat" where
  "byte c \<equiv> of_char c"

text \<open>The NUL separator the code writes between the parts of a hashed name.\<close>

definition NUL :: "string" where
  "NUL = [char_of (0::nat)]"

lemma NUL_not_Nil [simp]: "NUL \<noteq> []" "length NUL = 1"
  by (simp_all add: NUL_def)

lemma byte_less_256 [simp]: "byte c < 256"
  by (simp add: of_char_def horner_sum_eq_sum)

text \<open>\<open>strings.Join\<close>.\<close>

fun join_strings :: "string \<Rightarrow> string list \<Rightarrow> string" where
  "join_strings sep [] = []"
| "join_strings sep [x] = x"
| "join_strings sep (x # y # xs) = x @ sep @ join_strings sep (y # xs)"

text \<open>
  Joining with a separator byte that occurs in none of the parts loses nothing, except that no
  part at all and one empty part both give the empty string.
\<close>

lemma append_sep_cancel:
  assumes "x @ c # a = y @ c # b" and "c \<notin> set x" and "c \<notin> set y"
  shows "x = y \<and> a = b"
  using assms
proof (induction x arbitrary: y)
  case Nil
  then show ?case by (cases y) auto
next
  case (Cons d x)
  then show ?case by (cases y) auto
qed

lemma join_strings_Cons:
  "xs \<noteq> [] \<Longrightarrow> join_strings sep (x # xs) = x @ sep @ join_strings sep xs"
  by (cases xs) auto

lemma join_strings_has_sep:
  "xs \<noteq> [] \<Longrightarrow> c \<in> set (join_strings [c] (x # xs))"
  by (simp add: join_strings_Cons)

lemma join_strings_inj:
  assumes "join_strings [c] xs = join_strings [c] ys"
    and "\<forall>x \<in> set xs. c \<notin> set x" and "\<forall>y \<in> set ys. c \<notin> set y"
    and "xs \<noteq> []" and "ys \<noteq> []"
  shows "xs = ys"
  using assms
proof (induction xs arbitrary: ys)
  case Nil
  then show ?case by simp
next
  case (Cons x xs)
  obtain y ys' where ys: "ys = y # ys'" using Cons.prems(5) by (cases ys) auto
  consider "xs = []" "ys' = []" | "xs = []" "ys' \<noteq> []" | "xs \<noteq> []" "ys' = []"
    | "xs \<noteq> []" "ys' \<noteq> []" by blast
  then show ?case
  proof cases
    case 1
    with Cons.prems ys show ?thesis by simp
  next
    case 2
    with Cons.prems ys join_strings_has_sep [of ys' c y] show ?thesis by auto
  next
    case 3
    with Cons.prems ys join_strings_has_sep [of xs c x] show ?thesis by auto
  next
    case 4
    with Cons.prems ys have "x = y \<and> join_strings [c] xs = join_strings [c] ys'"
      by (intro append_sep_cancel) (auto simp: join_strings_Cons)
    with Cons.IH [of ys'] Cons.prems ys 4 show ?thesis by auto
  qed
qed

section \<open>Sorting and deduplication\<close>

text \<open>\<open>slices.Compact\<close>: drop each element equal to its predecessor.\<close>

fun compact :: "'a list \<Rightarrow> 'a list" where
  "compact [] = []"
| "compact [x] = [x]"
| "compact (x # y # xs) = (if x = y then compact (y # xs) else x # compact (y # xs))"

lemma set_compact [simp]: "set (compact xs) = set xs"
  by (induction xs rule: compact.induct) auto

lemma compact_Nil_iff [simp]: "compact xs = [] \<longleftrightarrow> xs = []"
  by (induction xs rule: compact.induct) auto

lemma sorted_compact: "sorted (xs :: 'a::linorder list) \<Longrightarrow> sorted (compact xs)"
  by (induction xs rule: compact.induct) auto

lemma distinct_compact: "sorted (xs :: 'a::linorder list) \<Longrightarrow> distinct (compact xs)"
  by (induction xs rule: compact.induct) fastforce+

lemma compact_sort_eq: "compact (sort xs) = sorted_list_of_set (set xs)"
  using sorted_compact [of "sort xs"] distinct_compact [of "sort xs"]
  by (metis set_compact set_sort sorted_list_of_set.idem_if_sorted_distinct sorted_sort)

section \<open>Go maps\<close>

text \<open>
  A Go map that may be nil: \<open>None\<close> is the nil map. Reading a nil map finds nothing, deleting from
  it does nothing, and writing to it panics (\<open>gomap_put\<close> then returns \<open>None\<close>).
\<close>

type_synonym ('k, 'v) gomap = "('k, 'v) fmap option"

definition gomap_get :: "('k, 'v) gomap \<Rightarrow> 'k \<Rightarrow> 'v option" where
  "gomap_get m k = (case m of None \<Rightarrow> None | Some f \<Rightarrow> fmlookup f k)"

definition gomap_delete :: "'k \<Rightarrow> ('k, 'v) gomap \<Rightarrow> ('k, 'v) gomap" where
  "gomap_delete k m = map_option (fmdrop k) m"

definition gomap_put :: "'k \<Rightarrow> 'v \<Rightarrow> ('k, 'v) gomap \<Rightarrow> ('k, 'v) gomap option" where
  "gomap_put k v m = (case m of None \<Rightarrow> None | Some f \<Rightarrow> Some (Some (fmupd k v f)))"

text \<open>\<open>m[k]\<close> of a \<open>map[string]string\<close>: the zero value where the key is absent.\<close>

definition gomap_str :: "(string, string) gomap \<Rightarrow> string \<Rightarrow> string" where
  "gomap_str m k = (case gomap_get m k of None \<Rightarrow> [] | Some v \<Rightarrow> v)"

lemma gomap_get_simps [simp]:
  "gomap_get None k = None"
  "gomap_get (Some f) k = fmlookup f k"
  by (simp_all add: gomap_get_def)

lemma gomap_get_delete [simp]:
  "gomap_get (gomap_delete k m) j = (if j = k then None else gomap_get m j)"
  by (cases m) (auto simp: gomap_delete_def)

lemma gomap_delete_None_iff [simp]: "gomap_delete k m = None \<longleftrightarrow> m = None"
  by (simp add: gomap_delete_def)

lemma gomap_get_fold_delete [simp]:
  "gomap_get (fold gomap_delete ks m) j = (if j \<in> set ks then None else gomap_get m j)"
  by (induction ks arbitrary: m) auto

text \<open>\<open>slices.Sorted(maps.Keys(m))\<close>.\<close>

definition sorted_keys :: "('k::linorder, 'v) fmap \<Rightarrow> 'k list" where
  "sorted_keys m = sorted_list_of_fset (fmdom m)"

lemma set_sorted_keys [simp]: "set (sorted_keys m) = fset (fmdom m)"
  by (simp add: sorted_keys_def)

lemma sorted_keys_sorted: "sorted (sorted_keys m)" "distinct (sorted_keys m)"
  by (simp_all add: sorted_keys_def sorted_list_of_fset.rep_eq)

lemma sorted_keys_empty [simp]: "sorted_keys fmempty = []"
  by (simp add: sorted_keys_def sorted_list_of_fset.rep_eq)

lemma sorted_keys_upd [simp]:
  "sorted_keys (fmupd k v m) = insort k (remove1 k (sorted_keys m))"
proof -
  have "sorted_list_of_set (insert k (fset (fmdom m))) =
      insort k (sorted_list_of_set (fset (fmdom m) - {k}))"
    by (rule sorted_list_of_set_insert_remove) simp
  then show ?thesis
    by (simp add: sorted_keys_def sorted_list_of_fset.rep_eq sorted_list_of_set_remove)
qed

end
