(* ===== verification/Sha256.thy ===== *)
theory Sha256
  imports Prelude "HOL-Library.Word"
begin

text \<open>
  The standard library's \<open>crypto/sha256.Sum256\<close> and \<open>encoding/hex.EncodeToString\<close>, which
  \<open>core.Hash\<close> composes: FIPS 180-4 on 32-bit words whose addition wraps around. The definitions
  compute: the one-block test vector of the standard checks them.
\<close>

unbundle bit_operations_syntax

type_synonym w32 = "32 word"

section \<open>Padding\<close>

text \<open>The message, a one bit, zeros, and the bit length as eight big-endian bytes.\<close>

definition be64 :: "nat \<Rightarrow> string" where
  "be64 n = map (\<lambda>i. char_of (int n div 256 ^ i mod 256)) [7, 6, 5, 4, 3, 2, 1, 0]"

definition zero_count :: "nat \<Rightarrow> nat" where
  "zero_count n = (119 - n mod 64) mod 64"

definition pad :: "string \<Rightarrow> string" where
  "pad m = m @ char_of (128::nat) # replicate (zero_count (length m)) (char_of (0::nat))
     @ be64 (8 * length m)"

fun words_of :: "string \<Rightarrow> w32 list" where
  "words_of (a # b # c # d # bs) =
     (push_bit 24 (of_char a) OR push_bit 16 (of_char b) OR push_bit 8 (of_char c) OR of_char d)
       # words_of bs"
| "words_of _ = []"

fun blocks :: "nat \<Rightarrow> 'a list \<Rightarrow> 'a list list" where
  "blocks 0 xs = []"
| "blocks (Suc n) xs = take 16 xs # blocks n (drop 16 xs)"

section \<open>Compression\<close>

definition round_constants :: "w32 list" where
  "round_constants =
    [1116352408, 1899447441, 3049323471, 3921009573, 961987163, 1508970993, 2453635748, 2870763221,
     3624381080, 310598401, 607225278, 1426881987, 1925078388, 2162078206, 2614888103, 3248222580,
     3835390401, 4022224774, 264347078, 604807628, 770255983, 1249150122, 1555081692, 1996064986,
     2554220882, 2821834349, 2952996808, 3210313671, 3336571891, 3584528711, 113926993, 338241895,
     666307205, 773529912, 1294757372, 1396182291, 1695183700, 1986661051, 2177026350, 2456956037,
     2730485921, 2820302411, 3259730800, 3345764771, 3516065817, 3600352804, 4094571909, 275423344,
     430227734, 506948616, 659060556, 883997877, 958139571, 1322822218, 1537002063, 1747873779,
     1955562222, 2024104815, 2227730452, 2361852424, 2428436474, 2756734187, 3204031479, 3329325298]"

definition rotr32 :: "nat \<Rightarrow> w32 \<Rightarrow> w32" where
  "rotr32 n x = drop_bit n x OR push_bit (32 - n) x"

definition small_sigma0 :: "w32 \<Rightarrow> w32" where
  "small_sigma0 x = rotr32 7 x XOR rotr32 18 x XOR drop_bit 3 x"

definition small_sigma1 :: "w32 \<Rightarrow> w32" where
  "small_sigma1 x = rotr32 17 x XOR rotr32 19 x XOR drop_bit 10 x"

definition big_sigma0 :: "w32 \<Rightarrow> w32" where
  "big_sigma0 x = rotr32 2 x XOR rotr32 13 x XOR rotr32 22 x"

definition big_sigma1 :: "w32 \<Rightarrow> w32" where
  "big_sigma1 x = rotr32 6 x XOR rotr32 11 x XOR rotr32 25 x"

text \<open>The message schedule, kept newest word first while it grows.\<close>

fun schedule :: "nat \<Rightarrow> w32 list \<Rightarrow> w32 list" where
  "schedule 0 ws = rev ws"
| "schedule (Suc n) ws =
     schedule n ((small_sigma1 (ws ! 1) + ws ! 6 + small_sigma0 (ws ! 14) + ws ! 15) # ws)"

type_synonym hash_state = "w32 \<times> w32 \<times> w32 \<times> w32 \<times> w32 \<times> w32 \<times> w32 \<times> w32"

fun round :: "w32 \<times> w32 \<Rightarrow> hash_state \<Rightarrow> hash_state" where
  "round (k, w) (a, b, c, d, e, f, g, h) =
     (let t1 = h + big_sigma1 e + ((e AND f) XOR (NOT e AND g)) + k + w;
          t2 = big_sigma0 a + ((a AND b) XOR (a AND c) XOR (b AND c))
      in (t1 + t2, a, b, c, d + t1, e, f, g))"

fun add_state :: "hash_state \<Rightarrow> hash_state \<Rightarrow> hash_state" where
  "add_state (a, b, c, d, e, f, g, h) (a', b', c', d', e', f', g', h') =
     (a + a', b + b', c + c', d + d', e + e', f + f', g + g', h + h')"

definition process_block :: "w32 list \<Rightarrow> hash_state \<Rightarrow> hash_state" where
  "process_block ws st =
     add_state st (fold round (zip round_constants (schedule 48 (rev ws))) st)"

definition initial_state :: hash_state where
  "initial_state = (1779033703, 3144134277, 1013904242, 2773480762,
                    1359893119, 2600822924, 528734635, 1541459225)"

definition be32 :: "w32 \<Rightarrow> string" where
  "be32 w = map (\<lambda>i. char_of (uint (drop_bit i w) mod 256)) [24, 16, 8, 0]"

fun state_bytes :: "hash_state \<Rightarrow> string" where
  "state_bytes (a, b, c, d, e, f, g, h) = concat (map be32 [a, b, c, d, e, f, g, h])"

definition sum256 :: "string \<Rightarrow> string" where
  "sum256 m = state_bytes
     (fold process_block (blocks (length (pad m) div 64) (words_of (pad m))) initial_state)"

section \<open>Hexadecimal\<close>

definition hex_digit :: "nat \<Rightarrow> char" where
  "hex_digit n = (if n < 10 then char_of (48 + n) else char_of (87 + n))"

definition hex_encode :: "string \<Rightarrow> string" where
  "hex_encode bs = concat (map (\<lambda>c. [hex_digit (byte c div 16), hex_digit (byte c mod 16)]) bs)"

section \<open>Lengths and alphabet\<close>

lemma length_be64 [simp]: "length (be64 n) = 8"
  by (simp add: be64_def)

lemma length_pad: "length (pad m) mod 64 = 0"
proof -
  obtain q r where q: "length m = 64 * q + r" and r: "r < 64"
    by (metis mod_less_divisor mult_div_mod_eq zero_less_numeral)
  have "length (pad m) = 64 * q + (r + 9 + (119 - r) mod 64)"
    using q r by (simp add: pad_def zero_count_def)
  also have "\<dots> = 64 * (q + (if r \<le> 55 then 1 else 2))"
    using r by (auto simp: mod_if)
  finally show ?thesis by simp
qed

lemma length_be32 [simp]: "length (be32 w) = 4"
  by (simp add: be32_def)

lemma length_sum256 [simp]: "length (sum256 m) = 32"
proof -
  have "length (state_bytes st) = 32" for st
    by (cases st rule: state_bytes.cases) simp
  then show ?thesis by (simp add: sum256_def)
qed

lemma length_hex_encode [simp]: "length (hex_encode bs) = 2 * length bs"
  by (induction bs) (simp_all add: hex_encode_def)

abbreviation hex_alphabet :: "char set" where
  "hex_alphabet \<equiv> set ''0123456789abcdef''"

lemma hex_digit_alphabet: "n < 16 \<Longrightarrow> hex_digit n \<in> hex_alphabet"
proof -
  assume "n < 16"
  moreover have "\<forall>n \<in> {..<16}. hex_digit n \<in> hex_alphabet"
    by code_simp
  ultimately show ?thesis by blast
qed

lemma hex_encode_alphabet: "set (hex_encode bs) \<subseteq> hex_alphabet"
proof -
  have "byte c div 16 < 16" "byte c mod 16 < 16" for c
    using byte_less_256 [of c] by (simp_all add: div_less_iff_less_mult)
  then have "{hex_digit (byte c div 16), hex_digit (byte c mod 16)} \<subseteq> hex_alphabet" for c
    using hex_digit_alphabet by blast
  then show ?thesis
    unfolding hex_encode_def set_concat set_map by fastforce
qed

section \<open>Test vector\<close>

lemma sha256_abc:
  "hex_encode (sum256 ''abc'') = ''ba7816bf8f01cfea414140de5dae2223b00361a396177a9cb410ff61f20015ad''"
  by code_simp

end
