(* ===== verification/Core.thy ===== *)
theory Core
  imports Sha256
begin

text \<open>
  \<open>internal/core\<close>: the label, annotation and finalizer names, and the deterministic name of a
  generated binding. \<open>Hash\<close> is computed, not assumed: it is the SHA-256 of \<open>Sha256\<close>. What the
  code needs beyond that (distinct keys get distinct names) is stated on the keys it hashes.
\<close>

definition ManagedBy :: string where "ManagedBy = ''k8s-controller''"
definition LabelManagedBy :: string where "LabelManagedBy = ''app.kubernetes.io/managed-by''"
definition LabelOwnerName :: string where "LabelOwnerName = ''k8s.pliu.dev/owner-name''"

definition AnnotationManagedMetadata :: string where
  "AnnotationManagedMetadata = ''k8s.pliu.dev/managed-metadata''"

definition Finalizer :: string where "Finalizer = ''k8s.pliu.dev/binding-cleanup''"

lemma labels_distinct [simp]:
  "LabelManagedBy \<noteq> LabelOwnerName" "LabelOwnerName \<noteq> LabelManagedBy"
  by (simp_all add: LabelManagedBy_def LabelOwnerName_def)

lemma ManagedBy_not_Nil [simp]: "ManagedBy \<noteq> []" "[] \<noteq> ManagedBy"
  by (simp_all add: ManagedBy_def)

definition Hash :: "string \<Rightarrow> string" where
  "Hash v = hex_encode (sum256 v)"

text \<open>
  A Go slice expression \<open>s[:n]\<close> panics where the string is shorter than \<open>n\<close>; \<open>slice_to\<close> makes
  that a \<open>None\<close>.
\<close>

definition slice_to :: "nat \<Rightarrow> string \<Rightarrow> string option" where
  "slice_to n s = (if n \<le> length s then Some (take n s) else None)"

text \<open>The bytes that are hashed into a binding's name.\<close>

definition name_preimage :: "string \<Rightarrow> string \<Rightarrow> string \<Rightarrow> string" where
  "name_preimage owner subject role = owner @ NUL @ subject @ NUL @ role"

definition BindingName_opt :: "string \<Rightarrow> string \<Rightarrow> string \<Rightarrow> string option" where
  "BindingName_opt owner subject role =
     map_option ((@) ''k8sc-'') (slice_to 20 (Hash (name_preimage owner subject role)))"

definition BindingName :: "string \<Rightarrow> string \<Rightarrow> string \<Rightarrow> string" where
  "BindingName owner subject role =
     ''k8sc-'' @ take 20 (Hash (name_preimage owner subject role))"

section \<open>Properties\<close>

lemma length_Hash [simp]: "length (Hash v) = 64"
  by (simp add: Hash_def)

lemma set_Hash: "set (Hash v) \<subseteq> hex_alphabet"
  unfolding Hash_def by (rule hex_encode_alphabet)

text \<open>The slice in \<open>BindingName\<close> is always in range, so the total definition is the code's.\<close>

lemma BindingName_no_panic:
  "BindingName_opt owner subject role = Some (BindingName owner subject role)"
  by (simp add: BindingName_opt_def BindingName_def slice_to_def)

lemma length_BindingName: "length (BindingName owner subject role) = 25"
  by (simp add: BindingName_def)

lemma set_BindingName: "set (BindingName owner subject role) \<subseteq> set ''k8sc-'' \<union> hex_alphabet"
proof -
  have "set (take 20 (Hash v)) \<subseteq> hex_alphabet" for v
    using set_Hash [of v] set_take_subset by fast
  then show ?thesis
    unfolding BindingName_def set_append by blast
qed

lemma name_preimage_inj:
  assumes "name_preimage o1 s1 r1 = name_preimage o2 s2 r2"
    and "NUL ! 0 \<notin> set o1" "NUL ! 0 \<notin> set o2"
    and "NUL ! 0 \<notin> set s1" "NUL ! 0 \<notin> set s2"
  shows "o1 = o2 \<and> s1 = s2 \<and> r1 = r2"
proof -
  let ?c = "char_of (0::nat)"
  from assms(1) have "o1 @ ?c # (s1 @ ?c # r1) = o2 @ ?c # (s2 @ ?c # r2)"
    by (simp add: name_preimage_def NUL_def)
  with assms(2,3) have "o1 = o2" and "s1 @ ?c # r1 = s2 @ ?c # r2"
    using append_sep_cancel [of o1 ?c] by (auto simp: NUL_def)
  with assms(4,5) show ?thesis
    using append_sep_cancel [of s1 ?c] by (auto simp: NUL_def)
qed

end
