(* ===== verification/Api_Types.thy ===== *)
theory Api_Types
  imports Core
begin

text \<open>
  The data: the custom resources of \<open>api/v1alpha1/types.go\<close>, the fields of the Kubernetes objects
  the controller reads or writes, and the admission rules the types carry as kubebuilder markers.
\<close>

section \<open>Kubernetes objects\<close>

text \<open>
  \<open>metav1.ObjectMeta\<close>, the fields the program uses. A label or annotation map may be nil; the
  deletion timestamp is a pointer to a time, of which 0 is the zero time.
\<close>

record object_meta =
  om_name :: string
  om_namespace :: string
  om_labels :: "(string, string) gomap"
  om_annotations :: "(string, string) gomap"
  om_finalizers :: "string list"
  om_deletionTimestamp :: "int option"
  om_generation :: int
  om_resourceVersion :: string

definition empty_meta :: object_meta where
  "empty_meta = \<lparr>om_name = [], om_namespace = [], om_labels = None, om_annotations = None,
     om_finalizers = [], om_deletionTimestamp = None, om_generation = 0, om_resourceVersion = []\<rparr>"

text \<open>\<open>DeletionTimestamp.IsZero()\<close>: true of a nil pointer and of the zero time.\<close>

fun ts_is_zero :: "int option \<Rightarrow> bool" where
  "ts_is_zero None = True"
| "ts_is_zero (Some t) = (t = 0)"

definition terminating :: "object_meta \<Rightarrow> bool" where
  "terminating m \<longleftrightarrow> \<not> ts_is_zero (om_deletionTimestamp m)"

text \<open>\<open>types.NamespacedName\<close>; \<open>client.ObjectKeyFromObject\<close> reads it off the metadata.\<close>

type_synonym objkey = "string \<times> string"

definition meta_key :: "object_meta \<Rightarrow> objkey" where
  "meta_key m = (om_namespace m, om_name m)"

record namespace_obj =
  ns_meta :: object_meta

text \<open>\<open>corev1.ResourceQuotaSpec\<close>: hard limits, scopes, and a scope selector.\<close>

record quota_spec =
  qs_hard :: "(string, string) fmap"
  qs_scopes :: "string list"
  qs_scopeSelector :: "(string \<times> string \<times> string list) list option"

record quota_obj =
  q_meta :: object_meta
  q_spec :: quota_spec

record role_ref =
  rr_apiGroup :: string
  rr_kind :: string
  rr_name :: string

record subject =
  sub_kind :: string
  sub_apiGroup :: string
  sub_name :: string
  sub_namespace :: string

text \<open>\<open>rbacv1.RoleBinding\<close> and \<open>rbacv1.ClusterRoleBinding\<close> have the same fields.\<close>

record binding =
  b_meta :: object_meta
  b_roleRef :: role_ref
  b_subjects :: "subject list"

record cluster_role =
  cr_meta :: object_meta

record condition =
  c_type :: string
  c_status :: string
  c_reason :: string
  c_message :: string
  c_observedGeneration :: int
  c_lastTransitionTime :: int

abbreviation b_key :: "binding \<Rightarrow> objkey" where
  "b_key b \<equiv> meta_key (b_meta b)"

section \<open>Custom resources\<close>

record access_mapping =
  am_group :: string
  am_users :: "string list"
  am_clusterRoles :: "string list"

record resource_quota =
  rq_name :: string
  rq_spec :: quota_spec

record mns_spec =
  sp_labels :: "(string, string) fmap"
  sp_annotations :: "(string, string) fmap"
  sp_resourceQuotas :: "resource_quota list"
  sp_accessMappings :: "access_mapping list"

record invalid_reference =
  ir_clusterRole :: string
  ir_reason :: string

record mns_status =
  ms_observedGeneration :: int
  ms_conditions :: "condition list"
  ms_invalidReferences :: "invalid_reference list"

record managed_namespace =
  mn_meta :: object_meta
  mn_spec :: mns_spec
  mn_status :: mns_status

record cam_status =
  cs_observedGeneration :: int
  cs_conditions :: "condition list"
  cs_invalidReferences :: "invalid_reference list"

record cluster_access_mapping =
  ca_meta :: object_meta
  ca_spec :: access_mapping
  ca_status :: cam_status

abbreviation mn_name :: "managed_namespace \<Rightarrow> string" where
  "mn_name m \<equiv> om_name (mn_meta m)"

abbreviation ca_name :: "cluster_access_mapping \<Rightarrow> string" where
  "ca_name c \<equiv> om_name (ca_meta c)"

section \<open>Admission\<close>

text \<open>The CEL rule and the item markers of \<open>AccessMapping\<close>.\<close>

definition valid_access_mapping :: "access_mapping \<Rightarrow> bool" where
  "valid_access_mapping am \<longleftrightarrow>
     (am_group am \<noteq> [] \<longleftrightarrow> am_users am = []) \<and>
     [] \<notin> set (am_users am) \<and>
     am_clusterRoles am \<noteq> [] \<and> [] \<notin> set (am_clusterRoles am)"

text \<open>The pattern and length markers of \<open>ResourceQuota.Name\<close>.\<close>

definition lower_alnum :: "char \<Rightarrow> bool" where
  "lower_alnum c \<longleftrightarrow> (CHR ''a'' \<le> c \<and> c \<le> CHR ''z'') \<or> (CHR ''0'' \<le> c \<and> c \<le> CHR ''9'')"

definition valid_quota_name :: "string \<Rightarrow> bool" where
  "valid_quota_name n \<longleftrightarrow> n \<noteq> [] \<and> length n \<le> 63 \<and> lower_alnum (hd n) \<and> lower_alnum (last n) \<and>
     list_all (\<lambda>c. lower_alnum c \<or> c = CHR ''-'') n"

text \<open>Names must be unique in \<open>spec.resourceQuotas\<close> (\<open>listMapKey\<close>).\<close>

definition valid_mns_spec :: "mns_spec \<Rightarrow> bool" where
  "valid_mns_spec sp \<longleftrightarrow>
     list_all (\<lambda>q. valid_quota_name (rq_name q)) (sp_resourceQuotas sp) \<and>
     distinct (map rq_name (sp_resourceQuotas sp)) \<and>
     list_all valid_access_mapping (sp_accessMappings sp)"

text \<open>The CEL rule on \<open>metadata.name\<close> of both custom resources.\<close>

definition valid_owner_name :: "string \<Rightarrow> bool" where
  "valid_owner_name n \<longleftrightarrow> length n \<le> 63"

end
