(* ===== verification/Effects.thy ===== *)
theory Effects
  imports Prelude
begin

text \<open>
  The effect layer. A Go function that talks to the API server, writes log lines or moves a metric
  becomes a function of a world: the state of everything outside the program (\<open>ext\<close>, of an
  arbitrary type, changed only by the library functions the program calls) and the trace of what
  the program has done so far. Errors are values, as in Go.
\<close>

section \<open>Errors\<close>

text \<open>
  \<open>ApiError reason text\<close> is an error value made by the client libraries; the program sees it only
  through their classifiers and through its text. \<open>JsonError doc\<close> is the error of
  \<open>json.Unmarshal\<close> on the document \<open>doc\<close>, \<open>WrappedError\<close> the result of \<open>fmt.Errorf\<close> with a
  \<open>%w\<close> verb, \<open>JoinedError\<close> that of \<open>errors.Join\<close>, and \<open>Panic\<close> a run-time panic.
\<close>

datatype error =
    ApiError string string
  | JsonError string
  | WrappedError string error
  | JoinedError "error list"
  | Panic string

text \<open>\<open>errors.Join\<close>: nil errors are dropped, and nothing at all joins to nil.\<close>

definition errors_join :: "error option list \<Rightarrow> error option" where
  "errors_join es = (case List.map_filter id es of [] \<Rightarrow> None | xs \<Rightarrow> Some (JoinedError xs))"

text \<open>
  \<open>e.Error()\<close>. The wording of a JSON error belongs to the standard library's scanner and is left
  to the argument.
\<close>

fun error_text :: "(string \<Rightarrow> string) \<Rightarrow> error \<Rightarrow> string" where
  "error_text jt (ApiError r m) = m"
| "error_text jt (JsonError d) = jt d"
| "error_text jt (WrappedError p e) = p @ '': '' @ error_text jt e"
| "error_text jt (JoinedError es) = join_strings [CHR 0x0A] (map (error_text jt) es)"
| "error_text jt (Panic m) = m"

section \<open>What the program does to the outside\<close>

datatype kind = KNamespace | KResourceQuota | KRoleBinding | KClusterRoleBinding | KClusterRole
  | KManagedNamespace | KClusterAccessMapping

text \<open>
  One API request: reads through the informer cache, reads past it, and the mutations. The key is
  the namespace and name it is about (the namespace and the empty name for a list).
\<close>

datatype verb = VGet | VList | VLiveList | VCreateOrUpdate | VDelete | VPatch | VStatusPatch

datatype event =
    Api verb kind string string bool
  | LogInfo "string list"
  | LogError "string list" "nat option"
  | GaugeSet string string nat
  | GaugeDelete string string

text \<open>The events that leave the gauge as it is.\<close>

fun gaugeless :: "event \<Rightarrow> bool" where
  "gaugeless (GaugeSet c n v) = False"
| "gaugeless (GaugeDelete c n) = False"
| "gaugeless ev = True"

record 's world =
  ext :: 's
  trace :: "event list"

type_synonym ('s, 'a) io = "'s world \<Rightarrow> (error + 'a) \<times> 's world"

section \<open>Combinators\<close>

definition ret :: "'a \<Rightarrow> ('s, 'a) io" where
  "ret x w = (Inr x, w)"

definition throw :: "error \<Rightarrow> ('s, 'a) io" where
  "throw e w = (Inl e, w)"

text \<open>\<open>if e := m; e != nil { return e }\<close>, then the rest.\<close>

definition bindE :: "('s, 'a) io \<Rightarrow> ('a \<Rightarrow> ('s, 'b) io) \<Rightarrow> ('s, 'b) io" where
  "bindE m f w = (case m w of (Inl e, w') \<Rightarrow> (Inl e, w') | (Inr x, w') \<Rightarrow> f x w')"

text \<open>Run \<open>m\<close> and hand its outcome, error or value, to the code that follows.\<close>

definition attempt :: "('s, 'a) io \<Rightarrow> ('s, error + 'a) io" where
  "attempt m w = (case m w of (r, w') \<Rightarrow> (Inr r, w'))"

definition emit :: "event \<Rightarrow> ('s, unit) io" where
  "emit ev w = (Inr (), w\<lparr>trace := trace w @ [ev]\<rparr>)"

text \<open>Read the outside (a clock) without a request.\<close>

definition gets :: "('s \<Rightarrow> 'a) \<Rightarrow> ('s, 'a) io" where
  "gets f w = (Inr (f (ext w)), w)"

text \<open>A call of a library function on the outside state, recorded in the trace with its outcome.\<close>

definition api :: "verb \<Rightarrow> kind \<Rightarrow> string \<times> string \<Rightarrow> ('s \<Rightarrow> (error + 'a) \<times> 's) \<Rightarrow> ('s, 'a) io" where
  "api v k key op w =
     (case op (ext w) of (r, s') \<Rightarrow>
        (r, w\<lparr>ext := s', trace := trace w @ [Api v k (fst key) (snd key) (\<not> isl r)]\<rparr>))"

text \<open>A \<open>for range\<close> loop whose body may return early with an error; \<open>acc\<close> holds the locals.\<close>

fun fold_io :: "('b \<Rightarrow> 'a \<Rightarrow> ('s, 'b) io) \<Rightarrow> 'b \<Rightarrow> 'a list \<Rightarrow> ('s, 'b) io" where
  "fold_io f acc [] = ret acc"
| "fold_io f acc (x # xs) = bindE (f acc x) (\<lambda>acc'. fold_io f acc' xs)"

definition for_each :: "('a \<Rightarrow> ('s, unit) io) \<Rightarrow> 'a list \<Rightarrow> ('s, unit) io" where
  "for_each f = fold_io (\<lambda>_. f) ()"

text \<open>The monad laws the proofs use.\<close>

lemma bindE_ret [simp]: "bindE (ret x) f = f x"
  by (simp add: fun_eq_iff bindE_def ret_def)

lemma bindE_assoc: "bindE (bindE m f) g = bindE m (\<lambda>x. bindE (f x) g)"
  by (auto simp: fun_eq_iff bindE_def split: prod.split sum.split)

lemma bindE_result: "bindE m f w = (Inr y, w') \<Longrightarrow> \<exists>x w1. m w = (Inr x, w1) \<and> f x w1 = (Inr y, w')"
  by (auto simp: bindE_def split: prod.splits sum.splits)

section \<open>Weakest preconditions\<close>

text \<open>
  \<open>wp m Q w\<close>: running \<open>m\<close> from \<open>w\<close> ends in an outcome and a world that satisfy \<open>Q\<close>. Every
  operation here returns, so this is total correctness. The equations below let the simplifier
  compute it through straight-line code; loops take an invariant.
\<close>

definition wp :: "('s, 'a) io \<Rightarrow> (error + 'a \<Rightarrow> 's world \<Rightarrow> bool) \<Rightarrow> 's world \<Rightarrow> bool" where
  "wp m Q w \<longleftrightarrow> (case m w of (r, w') \<Rightarrow> Q r w')"

lemma wpD: "wp m Q w \<Longrightarrow> m w = (r, w') \<Longrightarrow> Q r w'"
  by (simp add: wp_def)

lemma wpI: "(\<And>r w'. m w = (r, w') \<Longrightarrow> Q r w') \<Longrightarrow> wp m Q w"
  by (simp add: wp_def split: prod.split)

lemma wp_conseq: "wp m P w \<Longrightarrow> (\<And>r w'. P r w' \<Longrightarrow> Q r w') \<Longrightarrow> wp m Q w"
  by (auto simp: wp_def)

lemma wp_conj: "wp m P w \<Longrightarrow> wp m Q w \<Longrightarrow> wp m (\<lambda>r w'. P r w' \<and> Q r w') w"
  by (auto simp: wp_def)

lemma wp_ret [wp_rules, simp]: "wp (ret x) Q w = Q (Inr x) w"
  by (simp add: wp_def ret_def)

lemma wp_throw [wp_rules, simp]: "wp (throw e) Q w = Q (Inl e) w"
  by (simp add: wp_def throw_def)

lemma wp_bindE [wp_rules, simp]:
  "wp (bindE m f) Q w =
     wp m (\<lambda>r w'. case r of Inl e \<Rightarrow> Q (Inl e) w' | Inr x \<Rightarrow> wp (f x) Q w') w"
  by (auto simp: wp_def bindE_def split: prod.splits sum.splits)

lemma wp_attempt [wp_rules, simp]: "wp (attempt m) Q w = wp m (\<lambda>r. Q (Inr r)) w"
  by (auto simp: wp_def attempt_def split: prod.splits)

lemma wp_emit [wp_rules, simp]: "wp (emit ev) Q w = Q (Inr ()) (w\<lparr>trace := trace w @ [ev]\<rparr>)"
  by (simp add: wp_def emit_def)

lemma wp_gets [wp_rules, simp]: "wp (gets f) Q w = Q (Inr (f (ext w))) w"
  by (simp add: wp_def gets_def)

lemma wp_api [wp_rules]:
  "wp (api v k key op) Q w =
     (case op (ext w) of (r, s') \<Rightarrow>
        Q r (w\<lparr>ext := s', trace := trace w @ [Api v k (fst key) (snd key) (\<not> isl r)]\<rparr>))"
  by (auto simp: wp_def api_def split: prod.splits)

lemma wp_if [wp_rules, simp]: "wp (if b then m else n) Q w = (if b then wp m Q w else wp n Q w)"
  by simp

text \<open>
  Loops. The invariant speaks of the elements done so far; an early return must establish the
  postcondition itself.
\<close>

lemma wp_fold_io:
  assumes "I [] acc w"
    and "\<And>done x todo acc w. xs = done @ x # todo \<Longrightarrow> I done acc w \<Longrightarrow>
      wp (f acc x) (\<lambda>r w'. case r of Inl e \<Rightarrow> Q (Inl e) w' | Inr acc' \<Rightarrow> I (done @ [x]) acc' w') w"
    and "\<And>acc w. I xs acc w \<Longrightarrow> Q (Inr acc) w"
  shows "wp (fold_io f acc xs) Q w"
proof -
  have "wp (fold_io f acc todo) Q w" if "xs = done @ todo" and "I done acc w" for "done" todo acc w
    using that
  proof (induction todo arbitrary: "done" acc w)
    case Nil
    then show ?case using assms(3) by simp
  next
    case (Cons x todo)
    from Cons.prems have "wp (f acc x)
        (\<lambda>r w'. case r of Inl e \<Rightarrow> Q (Inl e) w' | Inr acc' \<Rightarrow> I (done @ [x]) acc' w') w"
      by (intro assms(2)) auto
    then show ?case
      unfolding fold_io.simps wp_bindE
      by (rule wp_conseq) (auto simp: Cons.prems intro!: Cons.IH split: sum.splits)
  qed
  from this [of "[]" xs acc w] assms(1) show ?thesis by simp
qed

lemma wp_for_each:
  assumes "I [] w"
    and "\<And>done x todo w. xs = done @ x # todo \<Longrightarrow> I done w \<Longrightarrow>
      wp (f x) (\<lambda>r w'. case r of Inl e \<Rightarrow> Q (Inl e) w' | Inr _ \<Rightarrow> I (done @ [x]) w') w"
    and "\<And>w. I xs w \<Longrightarrow> Q (Inr ()) w"
  shows "wp (for_each f xs) Q w"
  unfolding for_each_def
  by (rule wp_fold_io [where I = "\<lambda>done _ w. I done w"]) (auto intro: assms)

section \<open>Traces\<close>

text \<open>\<open>emits P w w'\<close>: between \<open>w\<close> and \<open>w'\<close> the trace only grew, by events that satisfy \<open>P\<close>.\<close>

definition emits :: "(event \<Rightarrow> bool) \<Rightarrow> 's world \<Rightarrow> 's world \<Rightarrow> bool" where
  "emits P w w' \<longleftrightarrow> (\<exists>evs. trace w' = trace w @ evs \<and> list_all P evs)"

lemma emits_refl [simp]: "emits P w w"
  by (simp add: emits_def)

lemma emits_step [simp, intro]:
  "emits P w w' \<Longrightarrow> P ev \<Longrightarrow> emits P w (w'\<lparr>trace := trace w' @ [ev]\<rparr>)"
  by (auto simp: emits_def)

lemma emits_step_ext [simp, intro]:
  "emits P w w' \<Longrightarrow> P ev \<Longrightarrow> emits P w (w'\<lparr>ext := s, trace := trace w' @ [ev]\<rparr>)"
  by (auto simp: emits_def)

lemma emits_trans [trans]: "emits P w w' \<Longrightarrow> emits P w' w'' \<Longrightarrow> emits P w w''"
  by (auto simp: emits_def)

lemma emits_mono: "emits P w w' \<Longrightarrow> (\<And>ev. P ev \<Longrightarrow> Q ev) \<Longrightarrow> emits Q w w'"
  by (auto simp: emits_def list_all_iff)

lemma emitsD: "emits P w w' \<Longrightarrow> ev \<in> set (trace w') \<Longrightarrow> ev \<in> set (trace w) \<or> P ev"
  by (auto simp: emits_def list_all_iff)

text \<open>\<open>emitting P m\<close>: whatever happens, \<open>m\<close> only adds events that satisfy \<open>P\<close>.\<close>

definition emitting :: "(event \<Rightarrow> bool) \<Rightarrow> ('s, 'a) io \<Rightarrow> bool" where
  "emitting P m \<longleftrightarrow> (\<forall>w. emits P w (snd (m w)))"

lemma emittingD: "emitting P m \<Longrightarrow> m w = (x, w') \<Longrightarrow> emits P w w'"
  unfolding emitting_def by (metis snd_conv)

lemma emitting_ret [simp, intro!]: "emitting P (ret x)"
  by (simp add: emitting_def ret_def)

lemma emitting_throw [simp, intro!]: "emitting P (throw e)"
  by (simp add: emitting_def throw_def)

lemma emitting_gets [simp, intro!]: "emitting P (gets f)"
  by (simp add: emitting_def gets_def)

lemma emitting_emit [simp, intro!]: "P ev \<Longrightarrow> emitting P (emit ev)"
  by (auto simp: emitting_def emit_def)

lemma emitting_api [intro!]:
  "(\<And>ok. P (Api v kd (fst key) (snd key) ok)) \<Longrightarrow> emitting P (api v kd key op)"
  by (auto simp: emitting_def api_def split: prod.split)

lemma emitting_attempt [intro!]: "emitting P m \<Longrightarrow> emitting P (attempt m)"
  by (auto simp: emitting_def attempt_def split: prod.split) (metis snd_conv)

lemma emitting_bindE:
  assumes "emitting P m" and "\<And>x w w'. m w = (Inr x, w') \<Longrightarrow> emitting P (f x)"
  shows "emitting P (bindE m f)"
  unfolding emitting_def
proof
  fix w
  obtain x w' where m: "m w = (x, w')" by (cases "m w")
  then have "emits P w w'" using assms(1) emittingD by blast
  moreover have "emits P w' (snd (f y w'))" if "x = Inr y" for y
    using assms(2) m that unfolding emitting_def by blast
  ultimately show "emits P w (snd (bindE m f w))"
    using m by (auto simp: bindE_def split: sum.split intro: emits_trans)
qed

lemma emitting_fold_io:
  assumes "\<And>acc x. x \<in> set xs \<Longrightarrow> emitting P (f acc x)"
  shows "emitting P (fold_io f acc xs)"
  using assms by (induction xs arbitrary: acc) (auto intro!: emitting_bindE)

lemma emitting_for_each:
  "(\<And>x. x \<in> set xs \<Longrightarrow> emitting P (f x)) \<Longrightarrow> emitting P (for_each f xs)"
  unfolding for_each_def by (rule emitting_fold_io)

lemma emitting_mono: "emitting P m \<Longrightarrow> (\<And>ev. P ev \<Longrightarrow> Q ev) \<Longrightarrow> emitting Q m"
  unfolding emitting_def using emits_mono by blast

lemma api_result: "api v kd key op w = (x, w') \<Longrightarrow> \<exists>s'. op (ext w) = (x, s') \<and> ext w' = s'"
  by (auto simp: api_def split: prod.splits)

lemma attempt_result: "attempt m w = (x, w') \<Longrightarrow> \<exists>y. x = Inr y \<and> m w = (y, w')"
  by (auto simp: attempt_def split: prod.splits)

section \<open>Invariants\<close>

text \<open>
  \<open>keeps I m\<close>: \<open>m\<close> preserves \<open>I\<close>, whatever its outcome. Unlike \<open>wp\<close> this composes without
  mentioning the code that follows.
\<close>

definition keeps :: "('s world \<Rightarrow> bool) \<Rightarrow> ('s, 'a) io \<Rightarrow> bool" where
  "keeps I m \<longleftrightarrow> (\<forall>w. I w \<longrightarrow> I (snd (m w)))"

lemma keepsD: "keeps I m \<Longrightarrow> I w \<Longrightarrow> m w = (x, w') \<Longrightarrow> I w'"
  unfolding keeps_def by (metis snd_conv)

lemma keeps_wp: "keeps I m \<Longrightarrow> I w \<Longrightarrow> wp m (\<lambda>_. I) w"
  unfolding keeps_def wp_def by (auto split: prod.split dest: spec [of _ w])

lemma keepsI: "(\<And>w. I w \<Longrightarrow> wp m (\<lambda>_. I) w) \<Longrightarrow> keeps I m"
  unfolding keeps_def wp_def by (fastforce split: prod.splits)

lemma keeps_ret [simp, intro!]: "keeps I (ret x)"
  by (simp add: keeps_def ret_def)

lemma keeps_throw [simp, intro!]: "keeps I (throw e)"
  by (simp add: keeps_def throw_def)

lemma keeps_gets [simp, intro!]: "keeps I (gets f)"
  by (simp add: keeps_def gets_def)

lemma keeps_emit: "(\<And>w. I w \<Longrightarrow> I (w\<lparr>trace := trace w @ [ev]\<rparr>)) \<Longrightarrow> keeps I (emit ev)"
  by (auto simp: keeps_def emit_def)

lemma keeps_api:
  assumes "\<And>w x s'. I w \<Longrightarrow> op (ext w) = (x, s') \<Longrightarrow>
    I (w\<lparr>ext := s', trace := trace w @ [Api v kd (fst key) (snd key) (\<not> isl x)]\<rparr>)"
  shows "keeps I (api v kd key op)"
  using assms by (auto simp: keeps_def api_def split: prod.split)

lemma keeps_attempt [intro!]: "keeps I m \<Longrightarrow> keeps I (attempt m)"
  by (auto simp: keeps_def attempt_def split: prod.split)

lemma keeps_bindE:
  assumes "keeps I m" and "\<And>x w w'. I w \<Longrightarrow> m w = (Inr x, w') \<Longrightarrow> keeps I (f x)"
  shows "keeps I (bindE m f)"
  unfolding keeps_def
proof (intro allI impI)
  fix w
  assume I: "I w"
  obtain x w' where m: "m w = (x, w')" by (cases "m w")
  then have "I w'" using assms(1) I keepsD by blast
  then have "I (snd (f y w'))" if "x = Inr y" for y
    using assms(2) m that I unfolding keeps_def by blast
  with \<open>I w'\<close> m show "I (snd (bindE m f w))"
    by (auto simp: bindE_def split: sum.split)
qed

lemma keeps_fold_io:
  assumes "\<And>acc x. x \<in> set xs \<Longrightarrow> keeps I (f acc x)"
  shows "keeps I (fold_io f acc xs)"
  using assms by (induction xs arbitrary: acc) (auto intro!: keeps_bindE)

lemma keeps_for_each: "(\<And>x. x \<in> set xs \<Longrightarrow> keeps I (f x)) \<Longrightarrow> keeps I (for_each f xs)"
  unfolding for_each_def by (rule keeps_fold_io)

lemma emitting_iff_keeps: "emitting P m \<longleftrightarrow> (\<forall>w0. keeps (emits P w0) m)"
  unfolding emitting_def keeps_def by (blast intro: emits_trans emits_refl)

section \<open>Results whatever happens outside\<close>

text \<open>
  \<open>returns P m\<close>: \<open>m\<close> returns a value, never an error, and the value satisfies \<open>P\<close>. Attempts and log
  lines do not raise, so they can come before.
\<close>

definition returns :: "('a \<Rightarrow> bool) \<Rightarrow> ('s, 'a) io \<Rightarrow> bool" where
  "returns P m \<longleftrightarrow> (\<forall>w. \<exists>x. fst (m w) = Inr x \<and> P x)"

lemma returnsD: "returns P m \<Longrightarrow> \<exists>x. fst (m w) = Inr x \<and> P x"
  by (simp add: returns_def)

lemma returns_ret [simp]: "returns P (ret x) \<longleftrightarrow> P x"
  by (simp add: returns_def ret_def)

lemma returns_attempt: "(\<And>x. returns P (f x)) \<Longrightarrow> returns P (bindE (attempt m) f)"
  by (auto simp: returns_def bindE_def attempt_def split: prod.split)

lemma returns_emit: "returns P (f ()) \<Longrightarrow> returns P (bindE (emit ev) f)"
  by (simp add: returns_def bindE_def emit_def)

end
