(* ===== verification/Kube_Client.thy ===== *)
theory Kube_Client
  imports Api_Types Effects
begin

text \<open>
  The libraries the controller calls, as parameters. Nothing here says what they do: a client is a
  record of functions on an outside state of arbitrary type. What the code relies on is stated
  later, as the assumptions of the locales of \<open>Kube_Api\<close>.
\<close>

text \<open>\<open>client.ListOption\<close>: the two the code uses.\<close>

datatype list_option = InNamespace string | MatchingLabels "(string, string) fmap"

datatype op_result = OperationResultNone | OperationResultCreated | OperationResultUpdated

text \<open>
  \<open>client.Client\<close> and \<open>controllerutil.CreateOrUpdate\<close> at one type of object. A patch takes whether
  it carries the optimistic lock, the base it is computed against, and the new object.
\<close>

record ('s, 'o) kind_client =
  k_get :: "objkey \<Rightarrow> 's \<Rightarrow> (error + 'o) \<times> 's"
  k_list :: "list_option list \<Rightarrow> 's \<Rightarrow> (error + 'o list) \<times> 's"
  k_delete :: "'o \<Rightarrow> 's \<Rightarrow> (error + unit) \<times> 's"
  k_createOrUpdate :: "('o \<Rightarrow> error + 'o) \<Rightarrow> 'o \<Rightarrow> 's \<Rightarrow> (error + op_result \<times> 'o) \<times> 's"
  k_patch :: "bool \<Rightarrow> 'o \<Rightarrow> 'o \<Rightarrow> 's \<Rightarrow> (error + unit) \<times> 's"
  k_statusPatch :: "'o \<Rightarrow> 'o \<Rightarrow> 's \<Rightarrow> (error + unit) \<times> 's"

text \<open>
  Everything a reconciler is built with: the manager's cached client at each kind, the live reader
  at the two kinds it lists, the error classifiers, the finalizer helpers of \<open>controllerutil\<close>,
  \<open>meta.SetStatusCondition\<close> (which may read the clock, a part of the outside), and the wording of
  a JSON error.
\<close>

record 's env =
  e_mns :: "('s, managed_namespace) kind_client"
  e_cam :: "('s, cluster_access_mapping) kind_client"
  e_ns :: "('s, namespace_obj) kind_client"
  e_quota :: "('s, quota_obj) kind_client"
  e_rb :: "('s, binding) kind_client"
  e_crb :: "('s, binding) kind_client"
  e_role :: "('s, cluster_role) kind_client"
  e_live_rb :: "list_option list \<Rightarrow> 's \<Rightarrow> (error + binding list) \<times> 's"
  e_live_crb :: "list_option list \<Rightarrow> 's \<Rightarrow> (error + binding list) \<times> 's"
  isNotFound :: "error \<Rightarrow> bool"
  isInvalid :: "error \<Rightarrow> bool"
  containsFinalizer :: "object_meta \<Rightarrow> string \<Rightarrow> bool"
  addFinalizer :: "object_meta \<Rightarrow> string \<Rightarrow> object_meta"
  removeFinalizer :: "object_meta \<Rightarrow> string \<Rightarrow> object_meta"
  setStatusCondition :: "'s \<Rightarrow> condition list \<Rightarrow> condition \<Rightarrow> condition list"
  jsonErrorText :: "string \<Rightarrow> string"

section \<open>Results of a reconcile\<close>

text \<open>\<open>ctrl.Result\<close>; durations are nanoseconds, as \<open>time.Duration\<close> counts them.\<close>

record result =
  r_requeue :: bool
  r_requeueAfter :: int

definition empty_result :: result where
  "empty_result = \<lparr>r_requeue = False, r_requeueAfter = 0\<rparr>"

text \<open>The error a reconcile returns; \<open>Terminal\<close> is \<open>reconcile.TerminalError\<close>.\<close>

datatype reconcile_error = Retry error | Terminal error

end
