(* ===== verification/Utf8.thy ===== *)
theory Utf8
  imports Prelude
begin

text \<open>
  UTF-8 as Go's standard library reads it: \<open>utf8.DecodeRune\<close> (only the width of the rune at the head
  matters here) and \<open>strings.ToValidUTF8\<close>.
\<close>

definition cont_byte :: "char \<Rightarrow> bool" where
  "cont_byte c \<longleftrightarrow> 128 \<le> byte c \<and> byte c < 192"

definition second_of_3 :: "nat \<Rightarrow> char \<Rightarrow> bool" where
  "second_of_3 x c \<longleftrightarrow>
     (if x = 224 then 160 else 128) \<le> byte c \<and> byte c < (if x = 237 then 160 else 192)"

definition second_of_4 :: "nat \<Rightarrow> char \<Rightarrow> bool" where
  "second_of_4 x c \<longleftrightarrow>
     (if x = 240 then 144 else 128) \<le> byte c \<and> byte c < (if x = 244 then 144 else 192)"

text \<open>
  The width of the well-formed rune at the head of the string: 0 where the head is not well formed
  (Go then reports width 1 and \<open>RuneError\<close>). Overlong forms, surrogates and values above
  \<open>U+10FFFF\<close> are not well formed.
\<close>

fun rune_len :: "string \<Rightarrow> nat" where
  "rune_len [] = 0"
| "rune_len (a # s) =
     (let x = byte a in
      if x < 128 then 1
      else if 194 \<le> x \<and> x < 224 then
        (case s of b # _ \<Rightarrow> if cont_byte b then 2 else 0 | _ \<Rightarrow> 0)
      else if 224 \<le> x \<and> x < 240 then
        (case s of b # c # _ \<Rightarrow> if second_of_3 x b \<and> cont_byte c then 3 else 0 | _ \<Rightarrow> 0)
      else if 240 \<le> x \<and> x < 245 then
        (case s of b # c # d # _ \<Rightarrow>
           if second_of_4 x b \<and> cont_byte c \<and> cont_byte d then 4 else 0 | _ \<Rightarrow> 0)
      else 0)"

lemma rune_len_le: "rune_len s \<le> length s"
  by (cases s) (auto simp: Let_def split: list.splits)

lemma rune_len_le_4: "rune_len s \<le> 4"
  by (cases s) (auto simp: Let_def split: list.splits)

lemma rune_len_take [simp]:
  "0 < rune_len s \<Longrightarrow> rune_len (take (rune_len s) s @ t) = rune_len s"
  by (cases s) (auto simp: Let_def split: list.splits if_splits)

lemma rune_len_take_ge:
  assumes "0 < rune_len s" and "rune_len s \<le> k"
  shows "rune_len (take k s) = rune_len s"
proof -
  have "take k s = take (rune_len s) s @ take (k - rune_len s) (drop (rune_len s) s)"
    using assms(2) by (metis le_add_diff_inverse take_add)
  then show ?thesis using assms(1) by simp
qed

text \<open>Cutting inside a rune leaves a head that is not well formed and a tail of continuation bytes.\<close>

lemma rune_len_cut: "k < rune_len s \<Longrightarrow> rune_len (take k s) = 0"
  by (cases s; cases k; cases "k - 1"; cases "k - 2"; cases "k - 3")
    (auto simp: Let_def take_Cons' split: list.splits if_splits)

lemma rune_tail_cont: "list_all cont_byte (tl (take (rune_len s) s))"
  by (cases s)
    (auto simp: Let_def second_of_3_def second_of_4_def cont_byte_def split: list.splits if_splits)

lemma rune_len_cont: "cont_byte c \<Longrightarrow> rune_len (c # s) = 0"
  by (auto simp: cont_byte_def Let_def)

function valid_utf8 :: "string \<Rightarrow> bool" where
  "valid_utf8 s =
     (if s = [] then True
      else if rune_len s = 0 then False
      else valid_utf8 (drop (rune_len s) s))"
  by pat_completeness auto
termination
  by (relation "measure length") auto

declare valid_utf8.simps [simp del]

lemma valid_utf8_Nil [simp]: "valid_utf8 []"
  by (simp add: valid_utf8.simps)

lemma valid_utf8_step:
  "s \<noteq> [] \<Longrightarrow> valid_utf8 s \<longleftrightarrow> 0 < rune_len s \<and> valid_utf8 (drop (rune_len s) s)"
  by (subst valid_utf8.simps) simp

lemma valid_utf8_rune: "0 < rune_len s \<Longrightarrow> valid_utf8 t \<Longrightarrow> valid_utf8 (take (rune_len s) s @ t)"
  by (subst valid_utf8_step) (use rune_len_le [of s] in \<open>auto simp: min_def\<close>)

lemma valid_utf8_append: "valid_utf8 s \<Longrightarrow> valid_utf8 t \<Longrightarrow> valid_utf8 (s @ t)"
proof (induction s rule: valid_utf8.induct)
  case (1 s)
  show ?case
  proof (cases "s = []")
    case False
    with 1 have pos: "0 < rune_len s" and "valid_utf8 (drop (rune_len s) s @ t)"
      using valid_utf8_step by auto
    from valid_utf8_rune [OF this] show ?thesis
      by (simp flip: append_assoc)
  qed (use 1 in simp)
qed

text \<open>\<open>strings.ToValidUTF8\<close>: each maximal run of bad bytes becomes one copy of the replacement.\<close>

function to_valid :: "string \<Rightarrow> bool \<Rightarrow> string \<Rightarrow> string" where
  "to_valid repl bad s =
     (if s = [] then []
      else if rune_len s = 0 then (if bad then [] else repl) @ to_valid repl True (tl s)
      else take (rune_len s) s @ to_valid repl False (drop (rune_len s) s))"
  by pat_completeness auto
termination
  by (relation "measure (\<lambda>(_, _, s). length s)") auto

declare to_valid.simps [simp del]

definition ToValidUTF8 :: "string \<Rightarrow> string \<Rightarrow> string" where
  "ToValidUTF8 s repl = to_valid repl False s"

lemma to_valid_Nil [simp]: "to_valid repl bad [] = []"
  by (simp add: to_valid.simps)

lemma to_valid_bad:
  "s \<noteq> [] \<Longrightarrow> rune_len s = 0 \<Longrightarrow>
     to_valid repl bad s = (if bad then [] else repl) @ to_valid repl True (tl s)"
  by (subst to_valid.simps) simp

lemma to_valid_good:
  "0 < rune_len s \<Longrightarrow>
     to_valid repl bad s = take (rune_len s) s @ to_valid repl False (drop (rune_len s) s)"
  by (subst to_valid.simps) auto

lemma to_valid_valid: "valid_utf8 repl \<Longrightarrow> valid_utf8 (to_valid repl bad s)"
proof (induction repl bad s rule: to_valid.induct)
  case (1 repl bad s)
  consider "s = []" | "s \<noteq> []" "rune_len s = 0" | "0 < rune_len s" by blast
  then show ?case
  proof cases
    case 2
    with 1 show ?thesis by (auto simp: to_valid_bad intro: valid_utf8_append)
  next
    case 3
    then have "s \<noteq> []" by auto
    with 1 3 show ?thesis by (auto simp: to_valid_good intro: valid_utf8_rune)
  qed simp
qed

lemma to_valid_id: "valid_utf8 s \<Longrightarrow> to_valid repl bad s = s"
proof (induction s arbitrary: bad rule: valid_utf8.induct)
  case (1 s)
  show ?case
  proof (cases "s = []")
    case False
    with 1 show ?thesis using valid_utf8_step [of s] by (simp add: to_valid_good)
  qed simp
qed

lemma to_valid_length: "length (to_valid [] bad s) \<le> length s"
proof (induction "[] :: string" bad s rule: to_valid.induct)
  case (1 bad s)
  consider "s = []" | "s \<noteq> []" "rune_len s = 0" | "0 < rune_len s" by blast
  then show ?case
  proof cases
    case 2
    then have "length (to_valid [] True (tl s)) \<le> length (tl s)" using 1(1) by simp
    with 2 show ?thesis by (simp add: to_valid_bad)
  next
    case 3
    then have "s \<noteq> []" by auto
    with 1(2) 3 have "length (to_valid [] False (drop (rune_len s) s)) \<le> length (drop (rune_len s) s)"
      by simp
    with 3 rune_len_le [of s] show ?thesis by (simp add: to_valid_good)
  qed simp
qed

lemma to_valid_cont: "list_all cont_byte s \<Longrightarrow> to_valid [] bad s = []"
  by (induction s arbitrary: bad) (auto simp: to_valid_bad rune_len_cont simp del: rune_len.simps)

lemma to_valid_cut:
  assumes "k < rune_len s"
  shows "to_valid [] bad (take k s) = []"
proof (cases "take k s = []")
  case False
  have "list_all cont_byte (tl (take k s))"
  proof -
    have "tl (take k s) = take (k - 1) (tl (take (rune_len s) s))"
      using assms by (cases k; cases s) (auto simp: min_def take_Cons' tl_take simp del: rune_len.simps)
    then show ?thesis
      using rune_tail_cont [of s] by (auto simp: list_all_iff dest: in_set_takeD)
  qed
  with False show ?thesis
    using rune_len_cut [OF assms] by (simp add: to_valid_bad to_valid_cont)
qed auto

text \<open>
  Cutting a well-formed string at any byte and cleaning the cut keeps a prefix of it, at most three
  bytes shorter than the cut.
\<close>

lemma to_valid_take:
  assumes "valid_utf8 s"
  shows "\<exists>j \<le> k. k \<le> j + 3 \<and> to_valid [] bad (take k s) = take j s"
  using assms
proof (induction s arbitrary: k bad rule: valid_utf8.induct)
  case (1 s)
  show ?case
  proof (cases "s = []")
    case True
    then show ?thesis by auto
  next
    case False
    let ?n = "rune_len s"
    from False 1 have pos: "0 < ?n" and rest: "valid_utf8 (drop ?n s)"
      using valid_utf8_step by auto
    show ?thesis
    proof (cases "?n \<le> k")
      case True
      from 1(1) [OF False less_imp_neq [OF pos, symmetric] rest, of "k - ?n" False] pos obtain j where
        j: "j \<le> k - ?n" "k - ?n \<le> j + 3"
          "to_valid [] False (take (k - ?n) (drop ?n s)) = take j (drop ?n s)"
        by auto
      have "to_valid [] bad (take k s) = take ?n s @ to_valid [] False (take (k - ?n) (drop ?n s))"
        using pos True rune_len_take_ge [OF pos True]
        by (simp add: to_valid_good drop_take min_def)
      also have "\<dots> = take (?n + j) s"
        using j(3) by (simp add: take_add)
      finally show ?thesis
        using j True by (intro exI [of _ "?n + j"]) auto
    next
      case False
      with to_valid_cut [of k s bad] rune_len_le_4 [of s] show ?thesis
        by (intro exI [of _ 0]) auto
    qed
  qed
qed

end
