(* ===== verification/Shared.thy ===== *)
theory Shared
  imports Kube_Client Utf8
begin

text \<open>
  \<open>internal/controller/shared.go\<close> and \<open>metrics.go\<close>: the helpers both reconcilers use to turn an
  access mapping into named bindings, to stamp and recognise owned objects, and to report errors.
\<close>

section \<open>Definitions\<close>

text \<open>\<open>time.Second\<close> in nanoseconds.\<close>

definition finalizerRetryAfter :: int where
  "finalizerRetryAfter = 1000000000"

definition logResourceChange ::
  "op_result \<Rightarrow> string \<Rightarrow> string \<Rightarrow> string \<Rightarrow> string \<Rightarrow> string \<Rightarrow> ('s, unit) io" where
  "logResourceChange res kd namespace name ownerKind ownerName =
     (case res of
        OperationResultCreated \<Rightarrow>
          emit (LogInfo [''Created resource'', kd, namespace, name, ownerKind, ownerName])
      | OperationResultUpdated \<Rightarrow>
          emit (LogInfo [''Updated resource'', kd, namespace, name, ownerKind, ownerName])
      | OperationResultNone \<Rightarrow> ret ())"

definition logResourceDeleted ::
  "string \<Rightarrow> string \<Rightarrow> string \<Rightarrow> string \<Rightarrow> string \<Rightarrow> ('s, unit) io" where
  "logResourceDeleted kd namespace name ownerKind ownerName =
     emit (LogInfo [''Deleted resource'', kd, namespace, name, ownerKind, ownerName])"

definition normalizedUsers :: "string list \<Rightarrow> string list" where
  "normalizedUsers users = compact (sort users)"

text \<open>\<open>rbacv1.GroupName\<close>.\<close>

definition rbac_GroupName :: string where
  "rbac_GroupName = ''rbac.authorization.k8s.io''"

definition mk_subject :: "string \<Rightarrow> string \<Rightarrow> subject" where
  "mk_subject kd n =
     \<lparr>sub_kind = kd, sub_apiGroup = rbac_GroupName, sub_name = n, sub_namespace = []\<rparr>"

definition subjectsFor :: "access_mapping \<Rightarrow> subject list" where
  "subjectsFor am =
     (if am_group am \<noteq> [] then [mk_subject ''Group'' (am_group am)]
      else map (mk_subject ''User'') (normalizedUsers (am_users am)))"

definition subjectKey :: "access_mapping \<Rightarrow> string" where
  "subjectKey am =
     (if am_group am \<noteq> [] then ''g:'' @ am_group am
      else ''u:'' @ Hash (join_strings NUL (normalizedUsers (am_users am))))"

definition ownerLabelMap :: "string \<Rightarrow> (string, string) fmap" where
  "ownerLabelMap name = fmupd LabelOwnerName name (fmupd LabelManagedBy ManagedBy fmempty)"

definition ownerLabels :: "string \<Rightarrow> (string, string) gomap" where
  "ownerLabels name = Some (ownerLabelMap name)"

definition terminal :: "'s env \<Rightarrow> error option \<Rightarrow> reconcile_error option" where
  "terminal r e =
     (case e of None \<Rightarrow> None
      | Some e' \<Rightarrow> Some (if isInvalid r e' then Terminal e' else Retry e'))"

text \<open>The ellipsis character, three bytes in UTF-8.\<close>

definition ellipsis :: string where
  "ellipsis = [char_of (226::nat), char_of (128::nat), char_of (166::nat)]"

definition bound_message :: "string \<Rightarrow> string" where
  "bound_message m =
     (if length m > 1024 then ToValidUTF8 (take 1024 m) [] @ ellipsis else m)"

definition conditionMessage :: "'s env \<Rightarrow> error \<Rightarrow> string" where
  "conditionMessage r e = bound_message (error_text (jsonErrorText r) e)"

text \<open>The requests a watch event on an object enqueues: at most its owner, cluster-scoped.\<close>

definition ownerRequests :: "object_meta \<Rightarrow> objkey list" where
  "ownerRequests m =
     (if gomap_str (om_labels m) LabelManagedBy \<noteq> ManagedBy then []
      else if gomap_str (om_labels m) LabelOwnerName = [] then []
      else [([], gomap_str (om_labels m) LabelOwnerName)])"

section \<open>Users, subjects and keys\<close>

lemma normalizedUsers_set: "normalizedUsers us = sorted_list_of_set (set us)"
  by (simp add: normalizedUsers_def compact_sort_eq)

lemma set_normalizedUsers [simp]: "set (normalizedUsers us) = set us"
  by (simp add: normalizedUsers_def)

lemma normalizedUsers_Nil_iff [simp]: "normalizedUsers us = [] \<longleftrightarrow> us = []"
  by (metis set_empty set_normalizedUsers)

lemma normalizedUsers_idem [simp]: "normalizedUsers (normalizedUsers us) = normalizedUsers us"
  by (simp add: normalizedUsers_set)

text \<open>\<open>sync\<close> skips on the raw fields and \<open>reconcileBindings\<close> on the subject list: the same test.\<close>

lemma subjectsFor_Nil_iff [simp]: "subjectsFor am = [] \<longleftrightarrow> am_group am = [] \<and> am_users am = []"
  by (simp add: subjectsFor_def)

lemma mk_subject_inj [simp]: "mk_subject k n = mk_subject k' n' \<longleftrightarrow> k = k' \<and> n = n'"
  by (auto simp: mk_subject_def)

lemma map_mk_subject_inj [simp]: "map (mk_subject k) xs = map (mk_subject k) ys \<longleftrightarrow> xs = ys"
  by (rule inj_map_eq_map) (simp add: inj_on_def)

lemma subjectKey_group_vs_users:
  "am_group a \<noteq> [] \<Longrightarrow> am_group b = [] \<Longrightarrow> subjectKey a \<noteq> subjectKey b"
  by (simp add: subjectKey_def)

text \<open>The key is free of NUL bytes when the group is, so the hashed name can be taken apart.\<close>

lemma hex_no_NUL: "set s \<subseteq> hex_alphabet \<Longrightarrow> NUL ! 0 \<notin> set s"
  by (auto simp: NUL_def char_of_def)

lemma subjectKey_no_NUL: "NUL ! 0 \<notin> set (am_group am) \<Longrightarrow> NUL ! 0 \<notin> set (subjectKey am)"
  using hex_no_NUL [OF set_Hash]
  by (auto simp: subjectKey_def) (simp_all add: NUL_def char_of_def)

lemma subjectKey_inj:
  assumes "subjectKey a = subjectKey b"
    and "\<forall>u \<in> set (am_users a) \<union> set (am_users b). NUL ! 0 \<notin> set u"
    and "am_group a = [] \<Longrightarrow> am_users a \<noteq> []" and "am_group b = [] \<Longrightarrow> am_users b \<noteq> []"
    and "\<And>x y. x = join_strings NUL (normalizedUsers (am_users a)) \<Longrightarrow>
           y = join_strings NUL (normalizedUsers (am_users b)) \<Longrightarrow> Hash x = Hash y \<Longrightarrow> x = y"
  shows "subjectsFor a = subjectsFor b"
proof (cases "am_group a = []")
  case True
  with assms(1) subjectKey_group_vs_users [of b a] have b: "am_group b = []" by auto
  with True assms(1) have "Hash (join_strings NUL (normalizedUsers (am_users a))) =
      Hash (join_strings NUL (normalizedUsers (am_users b)))"
    by (simp add: subjectKey_def)
  then have "join_strings NUL (normalizedUsers (am_users a)) =
      join_strings NUL (normalizedUsers (am_users b))"
    using assms(5) by blast
  then have "normalizedUsers (am_users a) = normalizedUsers (am_users b)"
    using True b assms(2,3,4) by (intro join_strings_inj) (auto simp: NUL_def)
  with True b show ?thesis by (simp add: subjectsFor_def)
next
  case False
  with assms(1) subjectKey_group_vs_users [of a b] have "am_group b \<noteq> []" by auto
  with False assms(1) show ?thesis by (simp add: subjectKey_def subjectsFor_def)
qed

section \<open>Owner labels\<close>

lemma fmlookup_ownerLabelMap [simp]:
  "fmlookup (ownerLabelMap n) LabelOwnerName = Some n"
  "fmlookup (ownerLabelMap n) LabelManagedBy = Some ManagedBy"
  by (simp_all add: ownerLabelMap_def)

lemma gomap_get_ownerLabels [simp]:
  "gomap_get (ownerLabels n) LabelOwnerName = Some n"
  "gomap_get (ownerLabels n) LabelManagedBy = Some ManagedBy"
  by (simp_all add: ownerLabels_def)

text \<open>An object is owned by \<open>name\<close> when its labels match the selector the prunes use.\<close>

definition labels_match :: "(string, string) fmap \<Rightarrow> (string, string) gomap \<Rightarrow> bool" where
  "labels_match sel ls \<longleftrightarrow> (\<forall>k \<in> fset (fmdom sel). gomap_get ls k = fmlookup sel k)"

definition owned_by :: "string \<Rightarrow> object_meta \<Rightarrow> bool" where
  "owned_by name m \<longleftrightarrow> labels_match (ownerLabelMap name) (om_labels m)"

lemma owned_by_iff:
  "owned_by name m \<longleftrightarrow>
     gomap_get (om_labels m) LabelManagedBy = Some ManagedBy \<and>
     gomap_get (om_labels m) LabelOwnerName = Some name"
  by (auto simp: owned_by_def labels_match_def ownerLabelMap_def)

lemma owned_by_ownerLabels: "om_labels m = ownerLabels name \<Longrightarrow> owned_by name m"
  by (simp add: owned_by_iff)

lemma owned_by_unique: "owned_by n m \<Longrightarrow> owned_by n' m \<Longrightarrow> n = n'"
  by (simp add: owned_by_iff)

lemma ownerRequests_owned: "owned_by name m \<Longrightarrow> name \<noteq> [] \<Longrightarrow> ownerRequests m = [([], name)]"
  by (simp add: ownerRequests_def owned_by_iff gomap_str_def)

lemma ownerRequests_sound: "q \<in> set (ownerRequests m) \<Longrightarrow> fst q = [] \<and> owned_by (snd q) m"
  by (auto simp: ownerRequests_def owned_by_iff gomap_str_def split: if_splits option.splits)

section \<open>Condition messages\<close>

lemma valid_utf8_ellipsis [simp]: "valid_utf8 ellipsis"
  by code_simp

lemma length_ellipsis [simp]: "length ellipsis = 3"
  by (simp add: ellipsis_def)

lemma bound_message_length: "length (bound_message m) \<le> 1027"
  using to_valid_length [of False "take 1024 m"]
  by (auto simp: bound_message_def ToValidUTF8_def)

lemma bound_message_valid: "valid_utf8 m \<or> 1024 < length m \<Longrightarrow> valid_utf8 (bound_message m)"
  using valid_utf8_append [OF to_valid_valid [OF valid_utf8_Nil] valid_utf8_ellipsis]
  by (auto simp: bound_message_def ToValidUTF8_def)

lemma bound_message_prefix:
  assumes "valid_utf8 m" and "1024 < length m"
  shows "\<exists>j. 1021 \<le> j \<and> j \<le> 1024 \<and> bound_message m = take j m @ ellipsis"
  using to_valid_take [OF assms(1), of 1024 False] assms(2)
  by (auto simp: bound_message_def ToValidUTF8_def)

end
