(* ===== verification/Kube_Api.thy ===== *)
theory Kube_Api
  imports Shared
begin

text \<open>
  The contract of the API server and of the client that reads it through an informer cache. A state
  of the outside is observed as two tables: \<open>live\<close>, what the server holds, and \<open>cache\<close>, what the
  informers have seen of it. The laws are those of the documentation: reads are served from the
  cache, a mutation changes at most the object it names, and after any call each cached entry is
  either as stale as before or has caught up with the server.
\<close>

section \<open>Tables\<close>

datatype obj =
    ONamespace namespace_obj
  | OQuota quota_obj
  | OBinding binding
  | OClusterRole cluster_role
  | OManagedNamespace managed_namespace
  | OClusterAccess cluster_access_mapping

fun obj_meta :: "obj \<Rightarrow> object_meta" where
  "obj_meta (ONamespace x) = ns_meta x"
| "obj_meta (OQuota x) = q_meta x"
| "obj_meta (OBinding x) = b_meta x"
| "obj_meta (OClusterRole x) = cr_meta x"
| "obj_meta (OManagedNamespace x) = mn_meta x"
| "obj_meta (OClusterAccess x) = ca_meta x"

type_synonym table = "kind \<times> objkey \<Rightarrow> obj option"

text \<open>A call that touched only the objects \<open>X\<close> on the server.\<close>

definition touches :: "('s \<Rightarrow> table) \<Rightarrow> ('s \<Rightarrow> table) \<Rightarrow> (kind \<times> objkey) set \<Rightarrow> 's \<Rightarrow> 's \<Rightarrow> bool" where
  "touches live cache X s s' \<longleftrightarrow>
     (\<forall>x. x \<notin> X \<longrightarrow> live s' x = live s x) \<and>
     (\<forall>x. cache s' x = cache s x \<or> cache s' x = live s' x)"

lemma touches_live: "touches live cache X s s' \<Longrightarrow> x \<notin> X \<Longrightarrow> live s' x = live s x"
  unfolding touches_def by blast

lemma touches_cache: "touches live cache X s s' \<Longrightarrow> cache s' x = cache s x \<or> cache s' x = live s' x"
  unfolding touches_def by blast

lemma touches_mono: "touches live cache X s s' \<Longrightarrow> X \<subseteq> Y \<Longrightarrow> touches live cache Y s s'"
  unfolding touches_def by blast

text \<open>What the options of a \<open>List\<close> select.\<close>

fun option_selects :: "list_option \<Rightarrow> object_meta \<Rightarrow> bool" where
  "option_selects (InNamespace n) m = (om_namespace m = n)"
| "option_selects (MatchingLabels sel) m = labels_match sel (om_labels m)"

definition selects :: "list_option list \<Rightarrow> object_meta \<Rightarrow> bool" where
  "selects opts m = list_all (\<lambda>opt. option_selects opt m) opts"

lemma selects_owner [simp]: "selects [MatchingLabels (ownerLabelMap n)] m \<longleftrightarrow> owned_by n m"
  by (simp add: selects_def owned_by_def)

text \<open>
  The server manages the resource version and the generation of an object; two objects that agree
  but for those have the same \<open>strip_meta\<close>.
\<close>

definition strip_meta :: "object_meta \<Rightarrow> object_meta" where
  "strip_meta m = m\<lparr>om_resourceVersion := [], om_generation := 0\<rparr>"

lemma strip_meta_eqD:
  assumes "strip_meta m = strip_meta m'"
  shows "om_labels m = om_labels m'" "om_annotations m = om_annotations m'"
    "om_name m = om_name m'" "om_namespace m = om_namespace m'"
    "om_deletionTimestamp m = om_deletionTimestamp m'" "om_finalizers m = om_finalizers m'"
  using assms by (cases m; cases m'; simp add: strip_meta_def)+

text \<open>
  What a successful \<open>CreateOrUpdate\<close> of the object \<open>ob\<close> at \<open>x\<close> establishes: the server holds the
  mutated object, or nothing was sent because the cached object already was what the mutation wants.
\<close>

definition cou_done :: "('s \<Rightarrow> table) \<Rightarrow> ('s \<Rightarrow> table) \<Rightarrow> kind \<times> objkey \<Rightarrow> ('o \<Rightarrow> obj) \<Rightarrow> ('o \<Rightarrow> 'o) \<Rightarrow>
    ('o \<Rightarrow> error + 'o) \<Rightarrow> 'o \<Rightarrow> 's \<Rightarrow> 's \<Rightarrow> op_result \<Rightarrow> 'o \<Rightarrow> bool" where
  "cou_done live cache x wrap strip f ob s s' res ob' \<longleftrightarrow>
     (if res = OperationResultNone then
        cache s x = Some (wrap ob') \<and> f ob' = Inr ob' \<and> live s' x = live s x
      else
        live s' x = Some (wrap ob') \<and>
        (\<exists>base sent. f base = Inr sent \<and> strip ob' = strip sent \<and>
           (if res = OperationResultCreated then base = ob \<and> cache s x = None
            else cache s x = Some (wrap base) \<and> live s x = Some (wrap base) \<and> sent \<noteq> base)))"

section \<open>The contract of a client at one kind\<close>

text \<open>
  \<open>wrap\<close> embeds the kind's objects in the tables, \<open>meta\<close> reads their metadata, \<open>strip\<close> forgets what
  the server manages, and \<open>nf\<close> recognises the NotFound error. \<open>CreateOrUpdate\<close> reads through the
  cache; where it creates, the object was not there, where it updates it sends the mutated cached
  object, and where the mutation changes nothing it sends nothing. A write that succeeds was not
  based on a stale read, because the server checks the resource version.
\<close>

locale kind_laws =
  fixes live cache :: "'s \<Rightarrow> table"
    and kd :: kind
    and wrap :: "'o \<Rightarrow> obj"
    and meta :: "'o \<Rightarrow> object_meta"
    and strip :: "'o \<Rightarrow> 'o"
    and nf :: "error \<Rightarrow> bool"
    and cl :: "('s, 'o) kind_client"
  assumes wrap_eq [simp]: "wrap o1 = wrap o2 \<longleftrightarrow> o1 = o2"
    and obj_meta_wrap [simp]: "obj_meta (wrap ob) = meta ob"
    and live_typed: "live s (kd, k) = Some x \<Longrightarrow> \<exists>ob. x = wrap ob"
    and cache_typed: "cache s (kd, k) = Some x \<Longrightarrow> \<exists>ob. x = wrap ob"
    and live_key: "live s (kd, k) = Some (wrap ob) \<Longrightarrow> meta_key (meta ob) = k"
    and cache_key: "cache s (kd, k) = Some (wrap ob) \<Longrightarrow> meta_key (meta ob) = k"
    and get_frame: "k_get cl k s = (gr, s') \<Longrightarrow> touches live cache {} s s'"
    and get_found: "k_get cl k s = (Inr ob, s') \<Longrightarrow> cache s (kd, k) = Some (wrap ob)"
    and get_missing: "k_get cl k s = (Inl e, s') \<Longrightarrow> nf e \<Longrightarrow> cache s (kd, k) = None"
    and list_frame: "k_list cl opts s = (lr, s') \<Longrightarrow> touches live cache {} s s'"
    and list_items: "k_list cl opts s = (Inr obs, s') \<Longrightarrow>
      ob \<in> set obs \<longleftrightarrow> cache s (kd, meta_key (meta ob)) = Some (wrap ob) \<and> selects opts (meta ob)"
    and delete_frame: "k_delete cl ob s = (dr, s') \<Longrightarrow>
      touches live cache {(kd, meta_key (meta ob))} s s'"
    and delete_done: "k_delete cl ob s = (Inr u, s') \<Longrightarrow>
      live s' (kd, meta_key (meta ob)) = Some (wrap ob') \<Longrightarrow> terminating (meta ob')"
    and delete_effect: "k_delete cl ob s = (er, s') \<Longrightarrow>
      live s' (kd, meta_key (meta ob)) = live s (kd, meta_key (meta ob)) \<or>
      (\<forall>ob''. live s' (kd, meta_key (meta ob)) = Some (wrap ob'') \<longrightarrow> terminating (meta ob''))"
    and delete_missing: "k_delete cl ob s = (Inl e, s') \<Longrightarrow> nf e \<Longrightarrow>
      live s' (kd, meta_key (meta ob)) = None"
    and cou_frame: "k_createOrUpdate cl f ob s = (cr, s') \<Longrightarrow>
      touches live cache {(kd, meta_key (meta ob))} s s'"
    and cou_result: "k_createOrUpdate cl f ob s = (Inr (res, ob'), s') \<Longrightarrow>
      cou_done live cache (kd, meta_key (meta ob)) wrap strip f ob s s' res ob'"
begin

text \<open>Each law as a rule for the weakest precondition of the recorded call.\<close>

lemma wp_get:
  assumes "\<And>ob s'. touches live cache {} (ext w) s' \<Longrightarrow> cache (ext w) (kd, k) = Some (wrap ob) \<Longrightarrow>
      Q (Inr ob) (w\<lparr>ext := s', trace := trace w @ [Api v kk (fst key) (snd key) True]\<rparr>)"
    and "\<And>e s'. touches live cache {} (ext w) s' \<Longrightarrow> (nf e \<Longrightarrow> cache (ext w) (kd, k) = None) \<Longrightarrow>
      Q (Inl e) (w\<lparr>ext := s', trace := trace w @ [Api v kk (fst key) (snd key) False]\<rparr>)"
  shows "wp (api v kk key (k_get cl k)) Q w"
proof (cases "k_get cl k (ext w)")
  case (Pair x s')
  then show ?thesis
    using assms get_frame get_found get_missing by (cases x) (auto simp: wp_api)
qed

lemma wp_list:
  assumes "\<And>obs s'. touches live cache {} (ext w) s' \<Longrightarrow>
      (\<And>ob. ob \<in> set obs \<longleftrightarrow>
         cache (ext w) (kd, meta_key (meta ob)) = Some (wrap ob) \<and> selects opts (meta ob)) \<Longrightarrow>
      Q (Inr obs) (w\<lparr>ext := s', trace := trace w @ [Api v kk (fst key) (snd key) True]\<rparr>)"
    and "\<And>e s'. touches live cache {} (ext w) s' \<Longrightarrow>
      Q (Inl e) (w\<lparr>ext := s', trace := trace w @ [Api v kk (fst key) (snd key) False]\<rparr>)"
  shows "wp (api v kk key (k_list cl opts)) Q w"
proof (cases "k_list cl opts (ext w)")
  case (Pair x s')
  then show ?thesis
    using assms list_frame list_items by (cases x) (auto simp: wp_api)
qed

lemma wp_delete:
  assumes "\<And>s'. touches live cache {(kd, meta_key (meta ob))} (ext w) s' \<Longrightarrow>
      (\<And>ob'. live s' (kd, meta_key (meta ob)) = Some (wrap ob') \<Longrightarrow> terminating (meta ob')) \<Longrightarrow>
      Q (Inr ()) (w\<lparr>ext := s', trace := trace w @ [Api v kk (fst key) (snd key) True]\<rparr>)"
    and "\<And>e s'. touches live cache {(kd, meta_key (meta ob))} (ext w) s' \<Longrightarrow>
      (nf e \<Longrightarrow> live s' (kd, meta_key (meta ob)) = None) \<Longrightarrow>
      Q (Inl e) (w\<lparr>ext := s', trace := trace w @ [Api v kk (fst key) (snd key) False]\<rparr>)"
  shows "wp (api v kk key (k_delete cl ob)) Q w"
proof (cases "k_delete cl ob (ext w)")
  case (Pair x s')
  then show ?thesis
    using assms delete_frame delete_done delete_missing by (cases x) (auto simp: wp_api)
qed

lemma wp_createOrUpdate:
  assumes "\<And>res ob' s'. touches live cache {(kd, meta_key (meta ob))} (ext w) s' \<Longrightarrow>
      cou_done live cache (kd, meta_key (meta ob)) wrap strip f ob (ext w) s' res ob' \<Longrightarrow>
      Q (Inr (res, ob')) (w\<lparr>ext := s', trace := trace w @ [Api v kk (fst key) (snd key) True]\<rparr>)"
    and "\<And>e s'. touches live cache {(kd, meta_key (meta ob))} (ext w) s' \<Longrightarrow>
      Q (Inl e) (w\<lparr>ext := s', trace := trace w @ [Api v kk (fst key) (snd key) False]\<rparr>)"
  shows "wp (api v kk key (k_createOrUpdate cl f ob)) Q w"
proof (cases "k_createOrUpdate cl f ob (ext w)")
  case (Pair x s')
  then show ?thesis
    using assms cou_frame cou_result by (cases x) (auto simp: wp_api)
qed

end

section \<open>Patches\<close>

text \<open>
  The custom resources are also patched. A merge patch with the optimistic lock succeeds only on the
  very object it was computed against; the object is then the new one, or gone if it was terminating
  and its last finalizer went. A status patch merges the fields that differ from its base
  (\<open>merged base new cur cur'\<close>) into whatever the server holds.
\<close>

locale patch_laws = kind_laws live cache kd wrap meta strip nf cl
  for live cache :: "'s \<Rightarrow> table"
    and kd :: kind
    and wrap :: "'o \<Rightarrow> obj"
    and meta :: "'o \<Rightarrow> object_meta"
    and strip :: "'o \<Rightarrow> 'o"
    and nf :: "error \<Rightarrow> bool"
    and cl :: "('s, 'o) kind_client" +
  fixes merged :: "'o \<Rightarrow> 'o \<Rightarrow> 'o \<Rightarrow> 'o \<Rightarrow> bool"
  assumes patch_frame: "k_patch cl lock base new s = (pr, s') \<Longrightarrow>
      touches live cache {(kd, meta_key (meta base))} s s'"
    and patch_done: "k_patch cl True base new s = (Inr u, s') \<Longrightarrow>
      live s (kd, meta_key (meta base)) = Some (wrap base) \<and>
      (if terminating (meta new) \<and> om_finalizers (meta new) = [] then
         live s' (kd, meta_key (meta base)) = None
       else \<exists>new'. live s' (kd, meta_key (meta base)) = Some (wrap new') \<and> strip new' = strip new)"
    and status_frame: "k_statusPatch cl base new s = (sr, s') \<Longrightarrow>
      touches live cache {(kd, meta_key (meta base))} s s'"
    and status_done: "k_statusPatch cl base new s = (Inr u, s') \<Longrightarrow>
      \<exists>cur cur'. live s (kd, meta_key (meta base)) = Some (wrap cur) \<and>
        live s' (kd, meta_key (meta base)) = Some (wrap cur') \<and> merged base new cur cur'"
begin

lemma wp_patch:
  assumes "\<And>s'. touches live cache {(kd, meta_key (meta base))} (ext w) s' \<Longrightarrow>
      live (ext w) (kd, meta_key (meta base)) = Some (wrap base) \<Longrightarrow>
      (if terminating (meta new) \<and> om_finalizers (meta new) = [] then
         live s' (kd, meta_key (meta base)) = None
       else \<exists>new'. live s' (kd, meta_key (meta base)) = Some (wrap new') \<and> strip new' = strip new) \<Longrightarrow>
      Q (Inr ()) (w\<lparr>ext := s', trace := trace w @ [Api v kk (fst key) (snd key) True]\<rparr>)"
    and "\<And>e s'. touches live cache {(kd, meta_key (meta base))} (ext w) s' \<Longrightarrow>
      Q (Inl e) (w\<lparr>ext := s', trace := trace w @ [Api v kk (fst key) (snd key) False]\<rparr>)"
  shows "wp (api v kk key (k_patch cl True base new)) Q w"
proof (cases "k_patch cl True base new (ext w)")
  case (Pair x s')
  show ?thesis
  proof (cases x)
    case (Inl e)
    with Pair assms(2) patch_frame show ?thesis by (simp add: wp_api)
  next
    case (Inr u)
    with Pair have eq: "k_patch cl True base new (ext w) = (Inr u, s')" by simp
    from assms(1) [OF patch_frame [OF eq] conjunct1 [OF patch_done [OF eq]]
        conjunct2 [OF patch_done [OF eq]]] eq
    show ?thesis by (simp add: wp_api)
  qed
qed

lemma wp_statusPatch:
  assumes "\<And>s' cur cur'. touches live cache {(kd, meta_key (meta base))} (ext w) s' \<Longrightarrow>
      live (ext w) (kd, meta_key (meta base)) = Some (wrap cur) \<Longrightarrow>
      live s' (kd, meta_key (meta base)) = Some (wrap cur') \<Longrightarrow> merged base new cur cur' \<Longrightarrow>
      Q (Inr ()) (w\<lparr>ext := s', trace := trace w @ [Api v kk (fst key) (snd key) True]\<rparr>)"
    and "\<And>e s'. touches live cache {(kd, meta_key (meta base))} (ext w) s' \<Longrightarrow>
      Q (Inl e) (w\<lparr>ext := s', trace := trace w @ [Api v kk (fst key) (snd key) False]\<rparr>)"
  shows "wp (api v kk key (k_statusPatch cl base new)) Q w"
proof (cases "k_statusPatch cl base new (ext w)")
  case (Pair x s')
  show ?thesis
  proof (cases x)
    case (Inl e)
    with Pair assms(2) status_frame show ?thesis by (simp add: wp_api)
  next
    case (Inr u)
    with Pair have eq: "k_statusPatch cl base new (ext w) = (Inr u, s')" by simp
    from status_done [OF eq] assms(1) [OF status_frame [OF eq]] eq
    show ?thesis by (auto simp: wp_api)
  qed
qed

end

section \<open>The contract of the whole environment\<close>

text \<open>The server also keeps a label of its own on every Namespace, which repeats its name.\<close>

definition server_label :: string where
  "server_label = ''kubernetes.io/metadata.name''"

definition strip_namespace :: "namespace_obj \<Rightarrow> namespace_obj" where
  "strip_namespace x = x\<lparr>ns_meta := (strip_meta (ns_meta x))
     \<lparr>om_labels := gomap_delete server_label (om_labels (ns_meta x))\<rparr>\<rparr>"

definition strip_quota :: "quota_obj \<Rightarrow> quota_obj" where
  "strip_quota x = x\<lparr>q_meta := strip_meta (q_meta x)\<rparr>"

definition strip_binding :: "binding \<Rightarrow> binding" where
  "strip_binding x = x\<lparr>b_meta := strip_meta (b_meta x)\<rparr>"

definition strip_role :: "cluster_role \<Rightarrow> cluster_role" where
  "strip_role x = x\<lparr>cr_meta := strip_meta (cr_meta x)\<rparr>"

definition strip_mns :: "managed_namespace \<Rightarrow> managed_namespace" where
  "strip_mns x = x\<lparr>mn_meta := strip_meta (mn_meta x)\<rparr>"

definition strip_cam :: "cluster_access_mapping \<Rightarrow> cluster_access_mapping" where
  "strip_cam x = x\<lparr>ca_meta := strip_meta (ca_meta x)\<rparr>"

text \<open>One field under a merge patch: taken from the new object where that differs from the base.\<close>

definition merge_field :: "'a \<Rightarrow> 'a \<Rightarrow> 'a \<Rightarrow> 'a" where
  "merge_field base new cur = (if new = base then cur else new)"

definition mns_merged ::
  "managed_namespace \<Rightarrow> managed_namespace \<Rightarrow> managed_namespace \<Rightarrow> managed_namespace \<Rightarrow> bool" where
  "mns_merged base new cur cur' \<longleftrightarrow>
     strip_meta (mn_meta cur') = strip_meta (mn_meta cur) \<and> mn_spec cur' = mn_spec cur \<and>
     mn_status cur' =
       \<lparr>ms_observedGeneration = merge_field (ms_observedGeneration (mn_status base))
          (ms_observedGeneration (mn_status new)) (ms_observedGeneration (mn_status cur)),
        ms_conditions = merge_field (ms_conditions (mn_status base))
          (ms_conditions (mn_status new)) (ms_conditions (mn_status cur)),
        ms_invalidReferences = merge_field (ms_invalidReferences (mn_status base))
          (ms_invalidReferences (mn_status new)) (ms_invalidReferences (mn_status cur))\<rparr>"

definition cam_merged ::
  "cluster_access_mapping \<Rightarrow> cluster_access_mapping \<Rightarrow> cluster_access_mapping \<Rightarrow>
   cluster_access_mapping \<Rightarrow> bool" where
  "cam_merged base new cur cur' \<longleftrightarrow>
     strip_meta (ca_meta cur') = strip_meta (ca_meta cur) \<and> ca_spec cur' = ca_spec cur \<and>
     ca_status cur' =
       \<lparr>cs_observedGeneration = merge_field (cs_observedGeneration (ca_status base))
          (cs_observedGeneration (ca_status new)) (cs_observedGeneration (ca_status cur)),
        cs_conditions = merge_field (cs_conditions (ca_status base))
          (cs_conditions (ca_status new)) (cs_conditions (ca_status cur)),
        cs_invalidReferences = merge_field (cs_invalidReferences (ca_status base))
          (cs_invalidReferences (ca_status new)) (cs_invalidReferences (ca_status cur))\<rparr>"

text \<open>Two conditions that agree but for the transition time, which the library keeps.\<close>

definition same_condition :: "condition \<Rightarrow> condition \<Rightarrow> bool" where
  "same_condition c c' \<longleftrightarrow>
     c\<lparr>c_lastTransitionTime := 0\<rparr> = c'\<lparr>c_lastTransitionTime := 0\<rparr>"

lemma same_conditionD:
  assumes "same_condition c c'"
  shows "c_type c = c_type c'" "c_status c = c_status c'" "c_reason c = c_reason c'"
    "c_message c = c_message c'" "c_observedGeneration c = c_observedGeneration c'"
  using assms by (cases c; cases c'; simp add: same_condition_def)+

text \<open>
  A live list reads the server's table; the finalizer helpers edit the finalizer list alone,
  and setting a condition replaces the one of its type.
\<close>

locale kube_env =
  fixes r :: "'s env"
    and live cache :: "'s \<Rightarrow> table"
  assumes ns_laws: "kind_laws live cache KNamespace ONamespace ns_meta strip_namespace
      (isNotFound r) (e_ns r)"
    and quota_laws: "kind_laws live cache KResourceQuota OQuota q_meta strip_quota
      (isNotFound r) (e_quota r)"
    and rb_laws: "kind_laws live cache KRoleBinding OBinding b_meta strip_binding
      (isNotFound r) (e_rb r)"
    and crb_laws: "kind_laws live cache KClusterRoleBinding OBinding b_meta strip_binding
      (isNotFound r) (e_crb r)"
    and role_laws: "kind_laws live cache KClusterRole OClusterRole cr_meta strip_role
      (isNotFound r) (e_role r)"
    and mns_laws: "patch_laws live cache KManagedNamespace OManagedNamespace mn_meta strip_mns
      (isNotFound r) (e_mns r) mns_merged"
    and cam_laws: "patch_laws live cache KClusterAccessMapping OClusterAccess ca_meta strip_cam
      (isNotFound r) (e_cam r) cam_merged"
    and live_rb_frame: "e_live_rb r opts s = (br, s') \<Longrightarrow> touches live cache {} s s'"
    and live_rb_items: "e_live_rb r opts s = (Inr bs, s') \<Longrightarrow>
      b \<in> set bs \<longleftrightarrow> live s (KRoleBinding, b_key b) = Some (OBinding b) \<and> selects opts (b_meta b)"
    and live_crb_frame: "e_live_crb r opts s = (br, s') \<Longrightarrow> touches live cache {} s s'"
    and live_crb_items: "e_live_crb r opts s = (Inr bs, s') \<Longrightarrow>
      b \<in> set bs \<longleftrightarrow> live s (KClusterRoleBinding, b_key b) = Some (OBinding b) \<and> selects opts (b_meta b)"
    and containsFinalizer_iff: "containsFinalizer r m f \<longleftrightarrow> f \<in> set (om_finalizers m)"
    and addFinalizer_eq: "addFinalizer r m f =
      m\<lparr>om_finalizers := om_finalizers m @ (if f \<in> set (om_finalizers m) then [] else [f])\<rparr>"
    and removeFinalizer_eq: "removeFinalizer r m f =
      m\<lparr>om_finalizers := filter (\<lambda>g. g \<noteq> f) (om_finalizers m)\<rparr>"
    and setStatusCondition_sets: "\<exists>c' \<in> set (setStatusCondition r s cs c). same_condition c' c"
    and setStatusCondition_others: "c_type c' \<noteq> c_type c \<Longrightarrow>
      c' \<in> set (setStatusCondition r s cs c) \<longleftrightarrow> c' \<in> set cs"
begin

end

sublocale kube_env \<subseteq> ns: kind_laws live cache KNamespace ONamespace ns_meta strip_namespace
    "isNotFound r" "e_ns r"
  by (rule ns_laws)

sublocale kube_env \<subseteq> quota: kind_laws live cache KResourceQuota OQuota q_meta strip_quota
    "isNotFound r" "e_quota r"
  by (rule quota_laws)

sublocale kube_env \<subseteq> rb: kind_laws live cache KRoleBinding OBinding b_meta strip_binding
    "isNotFound r" "e_rb r"
  by (rule rb_laws)

sublocale kube_env \<subseteq> crb: kind_laws live cache KClusterRoleBinding OBinding b_meta strip_binding
    "isNotFound r" "e_crb r"
  by (rule crb_laws)

sublocale kube_env \<subseteq> role: kind_laws live cache KClusterRole OClusterRole cr_meta strip_role
    "isNotFound r" "e_role r"
  by (rule role_laws)

sublocale kube_env \<subseteq> mns: patch_laws live cache KManagedNamespace OManagedNamespace mn_meta strip_mns
    "isNotFound r" "e_mns r" mns_merged
  by (rule mns_laws)

sublocale kube_env \<subseteq> cam: patch_laws live cache KClusterAccessMapping OClusterAccess ca_meta strip_cam
    "isNotFound r" "e_cam r" cam_merged
  by (rule cam_laws)

end
