(* ===== verification/Mem_Cluster.thy ===== *)
theory Mem_Cluster
  imports Kube_Api "HOL-Library.AList"
begin

text \<open>
  An API server in memory, against which the model runs: a store of objects, the informers' copy of
  it, which may lag, and a schedule of injected faults. It is not part of the program; it shows that
  the contract of \<open>Kube_Api\<close> can be met, by interpreting it, and it is the concrete environment the
  properties are evaluated in.
\<close>

section \<open>The store\<close>

type_synonym store = "((kind \<times> objkey) \<times> obj) list"

fun kind_fits :: "kind \<Rightarrow> obj \<Rightarrow> bool" where
  "kind_fits KNamespace (ONamespace x) = True"
| "kind_fits KResourceQuota (OQuota x) = True"
| "kind_fits KRoleBinding (OBinding x) = True"
| "kind_fits KClusterRoleBinding (OBinding x) = True"
| "kind_fits KClusterRole (OClusterRole x) = True"
| "kind_fits KManagedNamespace (OManagedNamespace x) = True"
| "kind_fits KClusterAccessMapping (OClusterAccess x) = True"
| "kind_fits kd ob = False"

definition fits :: "kind \<times> objkey \<Rightarrow> obj \<Rightarrow> bool" where
  "fits x ob \<longleftrightarrow> kind_fits (fst x) ob \<and> meta_key (obj_meta ob) = snd x"

definition lookup :: "store \<Rightarrow> table" where
  "lookup st x = (case map_of st x of None \<Rightarrow> None | Some ob \<Rightarrow> if fits x ob then Some ob else None)"

lemma lookup_update [simp]:
  "lookup (AList.update x ob st) y = (if y = x then if fits x ob then Some ob else None else lookup st y)"
  by (simp add: lookup_def update_conv')

lemma lookup_delete [simp]: "lookup (AList.delete x st) y = (if y = x then None else lookup st y)"
  by (simp add: lookup_def delete_conv')

lemma lookup_fits: "lookup st x = Some ob \<Longrightarrow> fits x ob"
  by (simp add: lookup_def split: option.splits if_splits)

lemma lookup_mem: "lookup st x = Some ob \<Longrightarrow> (x, ob) \<in> set st"
  by (simp add: lookup_def map_of_SomeD split: option.splits if_splits)

record mem =
  mem_store :: store
  mem_seen :: store
  mem_lagging :: bool
  mem_faults :: "bool list"
  mem_version :: nat

definition mem_live :: "mem \<Rightarrow> table" where
  "mem_live s = lookup (mem_store s)"

definition mem_cache :: "mem \<Rightarrow> table" where
  "mem_cache s = lookup (mem_seen s)"

section \<open>Requests\<close>

text \<open>Each request consumes one entry of the schedule; a fault answers it without any effect.\<close>

definition mem_call :: "(mem \<Rightarrow> (error + 'a) \<times> mem) \<Rightarrow> mem \<Rightarrow> (error + 'a) \<times> mem" where
  "mem_call f s =
     (case mem_faults s of
        [] \<Rightarrow> f s
      | bad # rest \<Rightarrow>
          if bad then (Inl (ApiError ''Timeout'' ''the server timed out''), s\<lparr>mem_faults := rest\<rparr>)
          else f (s\<lparr>mem_faults := rest\<rparr>))"

definition notFoundError :: error where
  "notFoundError = ApiError ''NotFound'' ''not found''"

definition conflictError :: error where
  "conflictError = ApiError ''Conflict'' ''the object has been modified''"

text \<open>A mutation; afterwards the informers catch up, unless they lag.\<close>

definition mem_commit :: "store \<Rightarrow> mem \<Rightarrow> mem" where
  "mem_commit st s =
     s\<lparr>mem_store := st, mem_seen := (if mem_lagging s then mem_seen s else st),
       mem_version := Suc (mem_version s)\<rparr>"

text \<open>A resource version the store has not used before.\<close>

definition mem_stamp :: "mem \<Rightarrow> object_meta \<Rightarrow> object_meta" where
  "mem_stamp s m = m\<lparr>om_resourceVersion := replicate (Suc (mem_version s)) CHR ''v''\<rparr>"

text \<open>
  The operations at one kind: \<open>un\<close> and \<open>wrap\<close> convert from and to stored objects, \<open>put\<close> replaces
  the metadata.
\<close>

definition mem_get :: "kind \<Rightarrow> (obj \<Rightarrow> 'o option) \<Rightarrow> objkey \<Rightarrow> mem \<Rightarrow> (error + 'o) \<times> mem" where
  "mem_get kd un k = mem_call (\<lambda>s.
     (case Option.bind (mem_cache s (kd, k)) un of None \<Rightarrow> Inl notFoundError | Some ob \<Rightarrow> Inr ob, s))"

definition store_list :: "kind \<Rightarrow> (obj \<Rightarrow> 'o option) \<Rightarrow> list_option list \<Rightarrow> store \<Rightarrow> 'o list" where
  "store_list kd un opts st = List.map_filter
     (\<lambda>(x, ob). if fst x = kd \<and> lookup st x = Some ob \<and> selects opts (obj_meta ob) then un ob else None) st"

definition mem_list :: "kind \<Rightarrow> (obj \<Rightarrow> 'o option) \<Rightarrow> list_option list \<Rightarrow> mem \<Rightarrow> (error + 'o list) \<times> mem" where
  "mem_list kd un opts = mem_call (\<lambda>s. (Inr (store_list kd un opts (mem_seen s)), s))"

definition mem_live_list :: "kind \<Rightarrow> (obj \<Rightarrow> 'o option) \<Rightarrow> list_option list \<Rightarrow> mem \<Rightarrow> (error + 'o list) \<times> mem" where
  "mem_live_list kd un opts = mem_call (\<lambda>s. (Inr (store_list kd un opts (mem_store s)), s))"

definition mem_delete :: "kind \<Rightarrow> ('o \<Rightarrow> obj) \<Rightarrow> (obj \<Rightarrow> 'o option) \<Rightarrow> ('o \<Rightarrow> object_meta) \<Rightarrow>
    (object_meta \<Rightarrow> 'o \<Rightarrow> 'o) \<Rightarrow> 'o \<Rightarrow> mem \<Rightarrow> (error + unit) \<times> mem" where
  "mem_delete kd wrap un meta put ob = mem_call (\<lambda>s.
     let x = (kd, meta_key (meta ob)) in
     case Option.bind (mem_live s x) un of
       None \<Rightarrow> (Inl notFoundError, s)
     | Some cur \<Rightarrow>
         if om_finalizers (meta cur) = [] then (Inr (), mem_commit (AList.delete x (mem_store s)) s)
         else (Inr (), mem_commit (AList.update x
           (wrap (put (mem_stamp s ((meta cur)\<lparr>om_deletionTimestamp := Some 1\<rparr>)) cur)) (mem_store s)) s))"

definition mem_createOrUpdate :: "kind \<Rightarrow> ('o \<Rightarrow> obj) \<Rightarrow> (obj \<Rightarrow> 'o option) \<Rightarrow> ('o \<Rightarrow> object_meta) \<Rightarrow>
    (object_meta \<Rightarrow> 'o \<Rightarrow> 'o) \<Rightarrow> ('o \<Rightarrow> error + 'o) \<Rightarrow> 'o \<Rightarrow> mem \<Rightarrow> (error + op_result \<times> 'o) \<times> mem" where
  "mem_createOrUpdate kd wrap un meta put f ob = mem_call (\<lambda>s.
     let x = (kd, meta_key (meta ob)); cached = Option.bind (mem_cache s x) un;
         base = (case cached of None \<Rightarrow> ob | Some b \<Rightarrow> b) in
     case f base of
       Inl e \<Rightarrow> (Inl e, s)
     | Inr sent \<Rightarrow>
         let stored = put (mem_stamp s (meta sent)) sent in
         if meta_key (meta sent) \<noteq> meta_key (meta ob) then
           (Inl (ApiError ''Invalid'' ''MutateFn cannot mutate object name and/or object namespace''), s)
         else if cached = None then
           if mem_live s x \<noteq> None then (Inl (ApiError ''AlreadyExists'' ''already exists''), s)
           else (Inr (OperationResultCreated, stored), mem_commit (AList.update x (wrap stored) (mem_store s)) s)
         else if sent = base then (Inr (OperationResultNone, base), s)
         else if mem_live s x \<noteq> Some (wrap base) then (Inl conflictError, s)
         else (Inr (OperationResultUpdated, stored), mem_commit (AList.update x (wrap stored) (mem_store s)) s))"

definition mem_patch :: "kind \<Rightarrow> ('o \<Rightarrow> obj) \<Rightarrow> ('o \<Rightarrow> object_meta) \<Rightarrow> (object_meta \<Rightarrow> 'o \<Rightarrow> 'o) \<Rightarrow>
    bool \<Rightarrow> 'o \<Rightarrow> 'o \<Rightarrow> mem \<Rightarrow> (error + unit) \<times> mem" where
  "mem_patch kd wrap meta put lock base new = mem_call (\<lambda>s.
     let x = (kd, meta_key (meta base)); stored = put (mem_stamp s (meta new)) new in
     if mem_live s x \<noteq> Some (wrap base) \<or> meta_key (meta new) \<noteq> meta_key (meta base) then
       (Inl conflictError, s)
     else if terminating (meta new) \<and> om_finalizers (meta new) = [] then
       (Inr (), mem_commit (AList.delete x (mem_store s)) s)
     else (Inr (), mem_commit (AList.update x (wrap stored) (mem_store s)) s))"

definition mem_statusPatch :: "kind \<Rightarrow> ('o \<Rightarrow> obj) \<Rightarrow> (obj \<Rightarrow> 'o option) \<Rightarrow> ('o \<Rightarrow> object_meta) \<Rightarrow>
    (object_meta \<Rightarrow> 'o \<Rightarrow> 'o) \<Rightarrow> ('o \<Rightarrow> 'o \<Rightarrow> 'o \<Rightarrow> 'o) \<Rightarrow> 'o \<Rightarrow> 'o \<Rightarrow> mem \<Rightarrow> (error + unit) \<times> mem" where
  "mem_statusPatch kd wrap un meta put merge base new = mem_call (\<lambda>s.
     let x = (kd, meta_key (meta base)) in
     case Option.bind (mem_live s x) un of
       None \<Rightarrow> (Inl notFoundError, s)
     | Some cur \<Rightarrow>
         (Inr (), mem_commit (AList.update x
           (wrap (put (mem_stamp s (meta cur)) (merge base new cur))) (mem_store s)) s))"

definition mem_client :: "kind \<Rightarrow> ('o \<Rightarrow> obj) \<Rightarrow> (obj \<Rightarrow> 'o option) \<Rightarrow> ('o \<Rightarrow> object_meta) \<Rightarrow>
    (object_meta \<Rightarrow> 'o \<Rightarrow> 'o) \<Rightarrow> ('o \<Rightarrow> 'o \<Rightarrow> 'o \<Rightarrow> 'o) \<Rightarrow> (mem, 'o) kind_client" where
  "mem_client kd wrap un meta put merge =
     \<lparr>k_get = mem_get kd un, k_list = mem_list kd un, k_delete = mem_delete kd wrap un meta put,
      k_createOrUpdate = mem_createOrUpdate kd wrap un meta put,
      k_patch = mem_patch kd wrap meta put, k_statusPatch = mem_statusPatch kd wrap un meta put merge\<rparr>"

definition mem_isNotFound :: "error \<Rightarrow> bool" where
  "mem_isNotFound e = (case e of ApiError r m \<Rightarrow> r = ''NotFound'' | _ \<Rightarrow> False)"

definition mem_isInvalid :: "error \<Rightarrow> bool" where
  "mem_isInvalid e = (case e of ApiError r m \<Rightarrow> r = ''Invalid'' | _ \<Rightarrow> False)"

section \<open>It meets the contract\<close>

lemma set_map_filter: "set (List.map_filter f xs) = {y. \<exists>x \<in> set xs. f x = Some y}"
  by (auto simp: List.map_filter_def intro: rev_image_eqI)

lemma mem_call_cases:
  assumes "mem_call f s = (x, s')"
  obtains s0 where "mem_live s0 = mem_live s" "mem_cache s0 = mem_cache s" "mem_seen s0 = mem_seen s"
      "mem_store s0 = mem_store s" "f s0 = (x, s')"
  | "x = Inl (ApiError ''Timeout'' ''the server timed out'')" "mem_live s' = mem_live s" "mem_cache s' = mem_cache s"
  using assms that(1) [of s] that(1) [of "s\<lparr>mem_faults := tl (mem_faults s)\<rparr>"] that(2)
  by (cases "mem_faults s") (auto simp: mem_call_def mem_live_def mem_cache_def split: if_splits)

lemma mem_commit_live [simp]: "mem_live (mem_commit st s) = lookup st"
  by (simp add: mem_live_def mem_commit_def)

lemma mem_commit_cache:
  "mem_cache (mem_commit st s) = mem_cache s \<or> mem_cache (mem_commit st s) = lookup st"
  by (simp add: mem_cache_def mem_commit_def)

lemma touches_commit:
  "(\<And>y. y \<noteq> x \<Longrightarrow> lookup st y = mem_live s y) \<Longrightarrow> touches mem_live mem_cache {x} s (mem_commit st s)"
  using mem_commit_cache [of st s] by (auto simp: touches_def)

lemma touches_same:
  "mem_live s' = mem_live s \<Longrightarrow> mem_cache s' = mem_cache s \<Longrightarrow> touches mem_live mem_cache X s s'"
  by (simp add: touches_def)

lemma touches_cong:
  "mem_live s0 = mem_live s \<Longrightarrow> mem_cache s0 = mem_cache s \<Longrightarrow> touches mem_live mem_cache X s0 s' \<Longrightarrow>
     touches mem_live mem_cache X s s'"
  by (simp add: touches_def)

locale mem_kind =
  fixes kd :: kind and wrap :: "'o \<Rightarrow> obj" and un :: "obj \<Rightarrow> 'o option"
    and meta :: "'o \<Rightarrow> object_meta" and put :: "object_meta \<Rightarrow> 'o \<Rightarrow> 'o"
    and strip :: "'o \<Rightarrow> 'o" and merge :: "'o \<Rightarrow> 'o \<Rightarrow> 'o \<Rightarrow> 'o"
  assumes un_wrap [simp]: "un (wrap ob) = Some ob"
    and fits_wrap: "fits (kd, k) x \<longleftrightarrow> (\<exists>ob. x = wrap ob \<and> meta_key (meta ob) = k)"
    and meta_wrap [simp]: "obj_meta (wrap ob) = meta ob"
    and meta_put [simp]: "meta (put m ob) = m"
    and strip_put [simp]: "strip_meta m = strip_meta (meta ob) \<Longrightarrow> strip (put m ob) = strip ob"
    and meta_merge: "meta (merge base new cur) = meta cur"
begin

lemma wrap_eq: "wrap o1 = wrap o2 \<longleftrightarrow> o1 = o2"
  by (metis un_wrap option.inject)

lemma lookup_wrap: "lookup st (kd, k) = Some x \<Longrightarrow> \<exists>ob. x = wrap ob \<and> meta_key (meta ob) = k"
  using lookup_fits [of st "(kd, k)" x] by (simp add: fits_wrap)

lemma bind_un: "Option.bind (lookup st (kd, k)) un = Some ob \<longleftrightarrow> lookup st (kd, k) = Some (wrap ob)"
  using lookup_wrap [of st k] by (cases "lookup st (kd, k)") (auto simp: wrap_eq)

lemma bind_un_None: "Option.bind (lookup st (kd, k)) un = None \<longleftrightarrow> lookup st (kd, k) = None"
  using lookup_wrap [of st k] by (cases "lookup st (kd, k)") auto

lemmas table_simps = mem_live_def [symmetric] mem_cache_def [symmetric]

lemma key_stamp [simp]: "meta_key (mem_stamp s m) = meta_key m" "terminating (mem_stamp s m) = terminating m"
  "strip_meta (mem_stamp s m) = strip_meta m"
  by (simp_all add: mem_stamp_def meta_key_def terminating_def strip_meta_def)

lemma marked [simp]: "meta_key (m\<lparr>om_deletionTimestamp := t\<rparr>) = meta_key m"
  "terminating (m\<lparr>om_deletionTimestamp := Some 1\<rparr>)"
  by (simp_all add: meta_key_def terminating_def)

lemma fits_wrapped [simp]: "fits (kd, k) (wrap ob) \<longleftrightarrow> meta_key (meta ob) = k"
  by (auto simp: fits_wrap wrap_eq)

lemma store_list_iff:
  "ob \<in> set (store_list kd un opts st) \<longleftrightarrow>
     lookup st (kd, meta_key (meta ob)) = Some (wrap ob) \<and> selects opts (meta ob)"
proof
  assume "ob \<in> set (store_list kd un opts st)"
  then obtain k x where "lookup st (kd, k) = Some x" "un x = Some ob" "selects opts (obj_meta x)"
    unfolding store_list_def set_map_filter by (auto split: if_splits)
  then show "lookup st (kd, meta_key (meta ob)) = Some (wrap ob) \<and> selects opts (meta ob)"
    using lookup_wrap [of st k x] by (auto simp: wrap_eq)
next
  assume "lookup st (kd, meta_key (meta ob)) = Some (wrap ob) \<and> selects opts (meta ob)"
  then show "ob \<in> set (store_list kd un opts st)"
    using lookup_mem [of st "(kd, meta_key (meta ob))" "wrap ob"]
    unfolding store_list_def set_map_filter by force
qed

lemma get_laws:
  assumes "mem_get kd un k s = (x, s')"
  shows "touches mem_live mem_cache {} s s'"
    and "x = Inr ob \<Longrightarrow> mem_cache s (kd, k) = Some (wrap ob)"
    and "x = Inl e \<Longrightarrow> mem_isNotFound e \<Longrightarrow> mem_cache s (kd, k) = None"
  using assms unfolding mem_get_def
  by (cases rule: mem_call_cases;
      auto intro: touches_same simp: mem_cache_def bind_un bind_un_None mem_isNotFound_def notFoundError_def
      split: option.splits)+

lemma list_laws:
  assumes "mem_list kd un opts s = (x, s')"
  shows "touches mem_live mem_cache {} s s'"
    and "x = Inr obs \<Longrightarrow> ob \<in> set obs \<longleftrightarrow>
      mem_cache s (kd, meta_key (meta ob)) = Some (wrap ob) \<and> selects opts (meta ob)"
  using assms unfolding mem_list_def
  by (cases rule: mem_call_cases; auto intro: touches_same simp: mem_cache_def store_list_iff)+

lemma live_list_laws:
  assumes "mem_live_list kd un opts s = (x, s')"
  shows "touches mem_live mem_cache {} s s'"
    and "x = Inr obs \<Longrightarrow> ob \<in> set obs \<longleftrightarrow>
      mem_live s (kd, meta_key (meta ob)) = Some (wrap ob) \<and> selects opts (meta ob)"
  using assms unfolding mem_live_list_def
  by (cases rule: mem_call_cases; auto intro: touches_same simp: mem_live_def store_list_iff)+

lemma strip_stamp [simp]: "strip (put (mem_stamp s (meta ob)) ob) = strip ob"
  by simp

lemma delete_laws:
  assumes "mem_delete kd wrap un meta put ob s = (x, s')"
  shows "touches mem_live mem_cache {(kd, meta_key (meta ob))} s s'"
    and "x = Inr u \<Longrightarrow> mem_live s' (kd, meta_key (meta ob)) = Some (wrap ob') \<Longrightarrow> terminating (meta ob')"
    and "mem_live s' (kd, meta_key (meta ob)) = mem_live s (kd, meta_key (meta ob)) \<or>
      (\<forall>ob''. mem_live s' (kd, meta_key (meta ob)) = Some (wrap ob'') \<longrightarrow> terminating (meta ob''))"
    and "x = Inl e \<Longrightarrow> mem_isNotFound e \<Longrightarrow> mem_live s' (kd, meta_key (meta ob)) = None"
proof -
  let ?x = "(kd, meta_key (meta ob))"
  have "touches mem_live mem_cache {?x} s s' \<and>
      (\<forall>u ob'. x = Inr u \<longrightarrow> mem_live s' ?x = Some (wrap ob') \<longrightarrow> terminating (meta ob')) \<and>
      (mem_live s' ?x = mem_live s ?x \<or>
        (\<forall>ob''. mem_live s' ?x = Some (wrap ob'') \<longrightarrow> terminating (meta ob''))) \<and>
      (\<forall>e. x = Inl e \<longrightarrow> mem_isNotFound e \<longrightarrow> mem_live s' ?x = None)"
    using assms unfolding mem_delete_def
  proof (cases rule: mem_call_cases)
    case 2
    then show ?thesis by (auto intro: touches_same simp: mem_isNotFound_def)
  next
    case (1 s0)
    have st: "mem_live s = lookup (mem_store s0)" using 1(1) by (simp add: mem_live_def)
    show ?thesis
    proof (cases "Option.bind (lookup (mem_store s0) ?x) un")
      case None
      with 1 st show ?thesis by (auto simp: bind_un_None mem_live_def intro!: touches_same)
    next
      case (Some cur)
      then have cur: "lookup (mem_store s0) ?x = Some (wrap cur)" by (simp add: bind_un)
      then have key: "meta_key (meta cur) = meta_key (meta ob)" using lookup_wrap [OF cur] by (auto simp: wrap_eq)
      have x: "x = Inr ()" and s': "s' = mem_commit (if om_finalizers (meta cur) = []
          then AList.delete ?x (mem_store s0) else AList.update ?x
            (wrap (put (mem_stamp s0 ((meta cur)\<lparr>om_deletionTimestamp := Some 1\<rparr>)) cur)) (mem_store s0)) s0"
        using 1(5) Some by (auto simp: Let_def mem_live_def split: if_splits)
      have "touches mem_live mem_cache {?x} s0 s'"
        unfolding s' by (rule touches_commit) (simp add: mem_live_def)
      then have "touches mem_live mem_cache {?x} s s'" by (rule touches_cong [OF 1(1,2)])
      moreover have "terminating (meta ob')" if "mem_live s' ?x = Some (wrap ob')" for ob'
        using that by (auto simp: s' key wrap_eq split: if_splits)
      ultimately show ?thesis using x by auto
    qed
  qed
  then show "touches mem_live mem_cache {?x} s s'"
    and "x = Inr u \<Longrightarrow> mem_live s' ?x = Some (wrap ob') \<Longrightarrow> terminating (meta ob')"
    and "mem_live s' ?x = mem_live s ?x \<or>
      (\<forall>ob''. mem_live s' ?x = Some (wrap ob'') \<longrightarrow> terminating (meta ob''))"
    and "x = Inl e \<Longrightarrow> mem_isNotFound e \<Longrightarrow> mem_live s' ?x = None"
    by blast+
qed

text \<open>A commit is never the identity: it takes a new version.\<close>

lemma mem_commit_neq: "mem_commit st s \<noteq> s"
proof
  assume "mem_commit st s = s"
  then have "mem_version (mem_commit st s) = mem_version s" by simp
  then show False by (simp add: mem_commit_def)
qed

text \<open>\<open>CreateOrUpdate\<close> either changes nothing or stores the stamped result of the mutation.\<close>

lemma cou_cases:
  assumes "mem_createOrUpdate kd wrap un meta put f ob s = (x, s')"
  obtains "mem_live s' = mem_live s" "mem_cache s' = mem_cache s" "isl x"
  | base where "mem_live s' = mem_live s" "mem_cache s' = mem_cache s"
      "x = Inr (OperationResultNone, base)" "f base = Inr base"
      "mem_cache s (kd, meta_key (meta ob)) = Some (wrap base)"
  | s0 base sent stored res where "mem_live s0 = mem_live s" "mem_cache s0 = mem_cache s"
      "mem_store s0 = mem_store s" "f base = Inr sent"
      "stored = put (mem_stamp s0 (meta sent)) sent" "meta_key (meta sent) = meta_key (meta ob)"
      "s' = mem_commit (AList.update (kd, meta_key (meta ob)) (wrap stored) (mem_store s0)) s0"
      "x = Inr (res, stored)"
      "res = OperationResultCreated \<and> base = ob \<and> mem_cache s (kd, meta_key (meta ob)) = None \<or>
       res = OperationResultUpdated \<and> sent \<noteq> base \<and>
         mem_cache s (kd, meta_key (meta ob)) = Some (wrap base) \<and>
         mem_live s (kd, meta_key (meta ob)) = Some (wrap base)"
  using assms unfolding mem_createOrUpdate_def
proof (cases rule: mem_call_cases)
  case 2
  then show ?thesis using that(1) by simp
next
  case (1 s0)
  let ?x = "(kd, meta_key (meta ob))"
  have c: "mem_cache s = lookup (mem_seen s0)" using 1(2) by (simp add: mem_cache_def)
  define cached where "cached = Option.bind (mem_cache s0 ?x) un"
  define base where "base = (case cached of None \<Rightarrow> ob | Some b \<Rightarrow> b)"
  have cached: "cached = None \<longleftrightarrow> mem_cache s ?x = None"
    "cached = Some base \<Longrightarrow> mem_cache s ?x = Some (wrap base)"
    using 1(2) by (simp_all add: cached_def c bind_un bind_un_None)
  note run = 1(5) [unfolded Let_def, folded cached_def, folded base_def]
  show ?thesis
  proof (cases "f base")
    case (Inl e)
    with run 1 show ?thesis by (intro that(1)) auto
  next
    case (Inr sent)
    show ?thesis
    proof (cases "s' \<noteq> s0")
      case True
      with run Inr have k: "meta_key (meta sent) = meta_key (meta ob)"
        and s': "s' = mem_commit (AList.update ?x (wrap (put (mem_stamp s0 (meta sent)) sent)) (mem_store s0)) s0"
        by (auto split: if_splits)
      have "x = Inr (OperationResultCreated, put (mem_stamp s0 (meta sent)) sent) \<and> cached = None \<or>
          x = Inr (OperationResultUpdated, put (mem_stamp s0 (meta sent)) sent) \<and> sent \<noteq> base \<and>
          cached \<noteq> None \<and> mem_live s0 ?x = Some (wrap base)"
        using run Inr True by (auto split: if_splits)
      then show ?thesis
      proof
        assume a: "x = Inr (OperationResultCreated, put (mem_stamp s0 (meta sent)) sent) \<and> cached = None"
        then have "base = ob" by (simp add: base_def)
        with a show ?thesis
          using cached by (intro that(3) [OF 1(1,2,4) Inr refl k s']) auto
      next
        assume a: "x = Inr (OperationResultUpdated, put (mem_stamp s0 (meta sent)) sent) \<and> sent \<noteq> base \<and>
          cached \<noteq> None \<and> mem_live s0 ?x = Some (wrap base)"
        then have "cached = Some base" by (auto simp: base_def)
        with a show ?thesis
          using cached 1(1) by (intro that(3) [OF 1(1,2,4) Inr refl k s']) auto
      qed
    next
      case False
      have "isl x \<or> x = Inr (OperationResultNone, base) \<and> sent = base \<and> cached \<noteq> None"
        using run Inr False mem_commit_neq by (auto split: if_splits)
      moreover have "cached \<noteq> None \<Longrightarrow> cached = Some base" by (auto simp: base_def)
      ultimately show ?thesis
        using that(1,2) 1 Inr False cached by auto
    qed
  qed
qed

lemma cou_laws:
  assumes "mem_createOrUpdate kd wrap un meta put f ob s = (x, s')"
  shows "touches mem_live mem_cache {(kd, meta_key (meta ob))} s s'"
    and "x = Inr (res, ob') \<Longrightarrow>
      cou_done mem_live mem_cache (kd, meta_key (meta ob)) wrap strip f ob s s' res ob'"
proof -
  from assms show "touches mem_live mem_cache {(kd, meta_key (meta ob))} s s'"
  proof (cases rule: cou_cases)
    case (3 s0 base sent stored res)
    have "touches mem_live mem_cache {(kd, meta_key (meta ob))} s0 s'"
      unfolding 3(7) by (rule touches_commit) (simp add: mem_live_def)
    then show ?thesis by (rule touches_cong [OF 3(1,2)])
  qed (auto intro: touches_same)
  from assms show "x = Inr (res, ob') \<Longrightarrow>
      cou_done mem_live mem_cache (kd, meta_key (meta ob)) wrap strip f ob s s' res ob'"
  proof (cases rule: cou_cases)
    case (3 s0 base sent stored res')
    assume "x = Inr (res, ob')"
    with 3 have "res = res'" "ob' = stored" by auto
    with 3 show ?thesis unfolding cou_done_def by auto
  qed (auto simp: cou_done_def)
qed

lemma kind_laws:
  "kind_laws mem_live mem_cache kd wrap meta strip mem_isNotFound (mem_client kd wrap un meta put merge)"
proof (unfold_locales, goal_cases)
  case (2 ob) show ?case by simp
qed (use get_laws list_laws delete_laws cou_laws in
  \<open>auto simp: mem_client_def wrap_eq mem_live_def mem_cache_def dest: lookup_wrap\<close>)

end

text \<open>The kinds that are patched as well.\<close>

locale mem_patched = mem_kind kd wrap un meta put strip merge
  for kd :: kind and wrap :: "'o \<Rightarrow> obj" and un :: "obj \<Rightarrow> 'o option"
    and meta :: "'o \<Rightarrow> object_meta" and put :: "object_meta \<Rightarrow> 'o \<Rightarrow> 'o"
    and strip :: "'o \<Rightarrow> 'o" and merge :: "'o \<Rightarrow> 'o \<Rightarrow> 'o \<Rightarrow> 'o" +
  fixes merged :: "'o \<Rightarrow> 'o \<Rightarrow> 'o \<Rightarrow> 'o \<Rightarrow> bool"
  assumes merged_put: "strip_meta m = strip_meta (meta cur) \<Longrightarrow>
    merged base new cur (put m (merge base new cur))"
begin

lemma patch_rules:
  assumes "mem_patch kd wrap meta put lock base new s = (x, s')"
  shows "touches mem_live mem_cache {(kd, meta_key (meta base))} s s'"
    and "x = Inr u \<Longrightarrow> mem_live s (kd, meta_key (meta base)) = Some (wrap base) \<and>
      (if terminating (meta new) \<and> om_finalizers (meta new) = [] then
         mem_live s' (kd, meta_key (meta base)) = None
       else \<exists>new'. mem_live s' (kd, meta_key (meta base)) = Some (wrap new') \<and> strip new' = strip new)"
proof -
  let ?x = "(kd, meta_key (meta base))"
  have "touches mem_live mem_cache {?x} s s' \<and> (isl x \<or> mem_live s ?x = Some (wrap base) \<and>
      (if terminating (meta new) \<and> om_finalizers (meta new) = [] then mem_live s' ?x = None
       else \<exists>new'. mem_live s' ?x = Some (wrap new') \<and> strip new' = strip new))"
    using assms unfolding mem_patch_def
  proof (cases rule: mem_call_cases)
    case (1 s0)
    show ?thesis
    proof (cases "mem_live s0 ?x \<noteq> Some (wrap base) \<or> meta_key (meta new) \<noteq> meta_key (meta base)")
      case True
      with 1 show ?thesis by (auto simp: Let_def intro: touches_same)
    next
      case False
      then have s': "x = Inr ()" "s' = mem_commit
          (if terminating (meta new) \<and> om_finalizers (meta new) = [] then AList.delete ?x (mem_store s0)
           else AList.update ?x (wrap (put (mem_stamp s0 (meta new)) new)) (mem_store s0)) s0"
        using 1(5) by (auto simp: Let_def split: if_splits)
      have "touches mem_live mem_cache {?x} s0 s'"
        unfolding s' by (rule touches_commit) (simp add: mem_live_def)
      with False 1(1,2) show ?thesis
        by (auto simp: s' wrap_eq intro: touches_cong)
    qed
  qed (auto intro: touches_same)
  then show "touches mem_live mem_cache {?x} s s'" and
    "x = Inr u \<Longrightarrow> mem_live s ?x = Some (wrap base) \<and>
      (if terminating (meta new) \<and> om_finalizers (meta new) = [] then mem_live s' ?x = None
       else \<exists>new'. mem_live s' ?x = Some (wrap new') \<and> strip new' = strip new)"
    by auto
qed

lemma status_rules:
  assumes "mem_statusPatch kd wrap un meta put merge base new s = (x, s')"
  shows "touches mem_live mem_cache {(kd, meta_key (meta base))} s s'"
    and "x = Inr u \<Longrightarrow> \<exists>cur cur'. mem_live s (kd, meta_key (meta base)) = Some (wrap cur) \<and>
      mem_live s' (kd, meta_key (meta base)) = Some (wrap cur') \<and> merged base new cur cur'"
proof -
  let ?x = "(kd, meta_key (meta base))"
  have "touches mem_live mem_cache {?x} s s' \<and> (isl x \<or>
      (\<exists>cur cur'. mem_live s ?x = Some (wrap cur) \<and> mem_live s' ?x = Some (wrap cur') \<and>
         merged base new cur cur'))"
    using assms unfolding mem_statusPatch_def
  proof (cases rule: mem_call_cases)
    case (1 s0)
    have l: "mem_live s0 = lookup (mem_store s0)" by (simp add: mem_live_def fun_eq_iff)
    show ?thesis
    proof (cases "Option.bind (mem_live s0 ?x) un")
      case None
      with 1 show ?thesis by (auto simp: Let_def intro: touches_same)
    next
      case (Some cur)
      then have cur: "mem_live s0 ?x = Some (wrap cur)" by (simp add: l bind_un)
      then have key: "meta_key (meta cur) = meta_key (meta base)"
        using lookup_wrap [OF cur [unfolded l]] by (auto simp: wrap_eq)
      have s': "x = Inr ()" "s' = mem_commit
          (AList.update ?x (wrap (put (mem_stamp s0 (meta cur)) (merge base new cur))) (mem_store s0)) s0"
        using 1(5) Some by (auto simp: Let_def)
      have "touches mem_live mem_cache {?x} s0 s'"
        unfolding s' by (rule touches_commit) (simp add: l)
      with cur 1(1,2) show ?thesis
        using merged_put [of "mem_stamp s0 (meta cur)" cur base new]
        by (auto simp: s' key wrap_eq meta_merge intro: touches_cong)
    qed
  qed (auto intro: touches_same)
  then show "touches mem_live mem_cache {?x} s s'" and
    "x = Inr u \<Longrightarrow> \<exists>cur cur'. mem_live s ?x = Some (wrap cur) \<and> mem_live s' ?x = Some (wrap cur') \<and>
      merged base new cur cur'"
    by auto
qed

lemma patch_laws:
  "patch_laws mem_live mem_cache kd wrap meta strip mem_isNotFound (mem_client kd wrap un meta put merge) merged"
  by (intro patch_laws.intro patch_laws_axioms.intro kind_laws)
    (use patch_rules status_rules in \<open>auto simp: mem_client_def\<close>)

end

section \<open>The environment\<close>

fun un_ns :: "obj \<Rightarrow> namespace_obj option" where
  "un_ns (ONamespace x) = Some x" | "un_ns _ = None"

fun un_quota :: "obj \<Rightarrow> quota_obj option" where
  "un_quota (OQuota x) = Some x" | "un_quota _ = None"

fun un_binding :: "obj \<Rightarrow> binding option" where
  "un_binding (OBinding x) = Some x" | "un_binding _ = None"

fun un_role :: "obj \<Rightarrow> cluster_role option" where
  "un_role (OClusterRole x) = Some x" | "un_role _ = None"

fun un_mns :: "obj \<Rightarrow> managed_namespace option" where
  "un_mns (OManagedNamespace x) = Some x" | "un_mns _ = None"

fun un_cam :: "obj \<Rightarrow> cluster_access_mapping option" where
  "un_cam (OClusterAccess x) = Some x" | "un_cam _ = None"

definition mns_merge :: "managed_namespace \<Rightarrow> managed_namespace \<Rightarrow> managed_namespace \<Rightarrow> managed_namespace" where
  "mns_merge base new cur = cur\<lparr>mn_status :=
     \<lparr>ms_observedGeneration = merge_field (ms_observedGeneration (mn_status base))
        (ms_observedGeneration (mn_status new)) (ms_observedGeneration (mn_status cur)),
      ms_conditions = merge_field (ms_conditions (mn_status base))
        (ms_conditions (mn_status new)) (ms_conditions (mn_status cur)),
      ms_invalidReferences = merge_field (ms_invalidReferences (mn_status base))
        (ms_invalidReferences (mn_status new)) (ms_invalidReferences (mn_status cur))\<rparr>\<rparr>"

definition cam_merge :: "cluster_access_mapping \<Rightarrow> cluster_access_mapping \<Rightarrow> cluster_access_mapping \<Rightarrow>
    cluster_access_mapping" where
  "cam_merge base new cur = cur\<lparr>ca_status :=
     \<lparr>cs_observedGeneration = merge_field (cs_observedGeneration (ca_status base))
        (cs_observedGeneration (ca_status new)) (cs_observedGeneration (ca_status cur)),
      cs_conditions = merge_field (cs_conditions (ca_status base))
        (cs_conditions (ca_status new)) (cs_conditions (ca_status cur)),
      cs_invalidReferences = merge_field (cs_invalidReferences (ca_status base))
        (cs_invalidReferences (ca_status new)) (cs_invalidReferences (ca_status cur))\<rparr>\<rparr>"

text \<open>Conditions are replaced by type; the clock stands still.\<close>

definition mem_setCondition :: "condition list \<Rightarrow> condition \<Rightarrow> condition list" where
  "mem_setCondition cs c = filter (\<lambda>c'. c_type c' \<noteq> c_type c) cs @ [c]"

definition mem_env :: "mem env" where
  "mem_env =
     \<lparr>e_mns = mem_client KManagedNamespace OManagedNamespace un_mns mn_meta
        (\<lambda>m x. x\<lparr>mn_meta := m\<rparr>) mns_merge,
      e_cam = mem_client KClusterAccessMapping OClusterAccess un_cam ca_meta
        (\<lambda>m x. x\<lparr>ca_meta := m\<rparr>) cam_merge,
      e_ns = mem_client KNamespace ONamespace un_ns ns_meta (\<lambda>m x. x\<lparr>ns_meta := m\<rparr>) (\<lambda>b n c. c),
      e_quota = mem_client KResourceQuota OQuota un_quota q_meta (\<lambda>m x. x\<lparr>q_meta := m\<rparr>) (\<lambda>b n c. c),
      e_rb = mem_client KRoleBinding OBinding un_binding b_meta (\<lambda>m x. x\<lparr>b_meta := m\<rparr>) (\<lambda>b n c. c),
      e_crb = mem_client KClusterRoleBinding OBinding un_binding b_meta (\<lambda>m x. x\<lparr>b_meta := m\<rparr>) (\<lambda>b n c. c),
      e_role = mem_client KClusterRole OClusterRole un_role cr_meta (\<lambda>m x. x\<lparr>cr_meta := m\<rparr>) (\<lambda>b n c. c),
      e_live_rb = mem_live_list KRoleBinding un_binding,
      e_live_crb = mem_live_list KClusterRoleBinding un_binding,
      isNotFound = mem_isNotFound, isInvalid = mem_isInvalid,
      containsFinalizer = (\<lambda>m f. f \<in> set (om_finalizers m)),
      addFinalizer = (\<lambda>m f. m\<lparr>om_finalizers := om_finalizers m @
        (if f \<in> set (om_finalizers m) then [] else [f])\<rparr>),
      removeFinalizer = (\<lambda>m f. m\<lparr>om_finalizers := filter (\<lambda>g. g \<noteq> f) (om_finalizers m)\<rparr>),
      setStatusCondition = (\<lambda>_. mem_setCondition),
      jsonErrorText = (\<lambda>_. ''invalid JSON'')\<rparr>"

section \<open>Interpretation\<close>

lemma merge_field_simps [simp]: "merge_field b b c = c" "merge_field b n b = n"
  by (simp_all add: merge_field_def)

lemma wrap_cases:
  "kind_fits KNamespace ob \<longleftrightarrow> (\<exists>x. ob = ONamespace x)"
  "kind_fits KResourceQuota ob \<longleftrightarrow> (\<exists>x. ob = OQuota x)"
  "kind_fits KRoleBinding ob \<longleftrightarrow> (\<exists>x. ob = OBinding x)"
  "kind_fits KClusterRoleBinding ob \<longleftrightarrow> (\<exists>x. ob = OBinding x)"
  "kind_fits KClusterRole ob \<longleftrightarrow> (\<exists>x. ob = OClusterRole x)"
  "kind_fits KManagedNamespace ob \<longleftrightarrow> (\<exists>x. ob = OManagedNamespace x)"
  "kind_fits KClusterAccessMapping ob \<longleftrightarrow> (\<exists>x. ob = OClusterAccess x)"
  by (cases ob; simp)+

lemmas mem_kind_simps = fits_def wrap_cases strip_namespace_def strip_quota_def strip_binding_def
  strip_role_def strip_mns_def strip_cam_def mns_merge_def cam_merge_def mns_merged_def cam_merged_def

interpretation mem_ns: mem_kind KNamespace ONamespace un_ns ns_meta "\<lambda>m x. x\<lparr>ns_meta := m\<rparr>"
    strip_namespace "\<lambda>b n c. c"
  by unfold_locales (auto simp: mem_kind_simps dest: strip_meta_eqD(1))

interpretation mem_quota: mem_kind KResourceQuota OQuota un_quota q_meta "\<lambda>m x. x\<lparr>q_meta := m\<rparr>"
    strip_quota "\<lambda>b n c. c"
  by unfold_locales (auto simp: mem_kind_simps)

interpretation mem_rb: mem_kind KRoleBinding OBinding un_binding b_meta "\<lambda>m x. x\<lparr>b_meta := m\<rparr>"
    strip_binding "\<lambda>b n c. c"
  by unfold_locales (auto simp: mem_kind_simps)

interpretation mem_crb: mem_kind KClusterRoleBinding OBinding un_binding b_meta "\<lambda>m x. x\<lparr>b_meta := m\<rparr>"
    strip_binding "\<lambda>b n c. c"
  by unfold_locales (auto simp: mem_kind_simps)

interpretation mem_role: mem_kind KClusterRole OClusterRole un_role cr_meta "\<lambda>m x. x\<lparr>cr_meta := m\<rparr>"
    strip_role "\<lambda>b n c. c"
  by unfold_locales (auto simp: mem_kind_simps)

interpretation mem_mns: mem_patched KManagedNamespace OManagedNamespace un_mns mn_meta
    "\<lambda>m x. x\<lparr>mn_meta := m\<rparr>" strip_mns mns_merge mns_merged
  by unfold_locales (auto simp: mem_kind_simps)

interpretation mem_cam: mem_patched KClusterAccessMapping OClusterAccess un_cam ca_meta
    "\<lambda>m x. x\<lparr>ca_meta := m\<rparr>" strip_cam cam_merge cam_merged
  by unfold_locales (auto simp: mem_kind_simps)

lemma mem_setCondition_laws:
  "\<exists>c' \<in> set (mem_setCondition cs c). same_condition c' c"
  "c_type c' \<noteq> c_type c \<Longrightarrow> c' \<in> set (mem_setCondition cs c) \<longleftrightarrow> c' \<in> set cs"
  by (auto simp: mem_setCondition_def same_condition_def)

interpretation mem: kube_env mem_env mem_live mem_cache
  by (rule kube_env.intro)
    (use mem_ns.kind_laws mem_quota.kind_laws mem_rb.kind_laws mem_crb.kind_laws mem_role.kind_laws
      mem_mns.patch_laws mem_cam.patch_laws mem_rb.live_list_laws mem_crb.live_list_laws
      mem_setCondition_laws in \<open>auto simp: mem_env_def\<close>)

lemma mem_kube_env: "kube_env mem_env mem_live mem_cache"
  by (rule mem.kube_env_axioms)

end
