(* ===== verification/Json.thy ===== *)
theory Json
  imports Utf8 Sha256
begin

text \<open>
  The standard library's \<open>encoding/json\<close>, as far as the inventory annotation exercises it: quoting
  of strings (with HTML escaping, as \<open>json.Marshal\<close> does), unquoting, and the parser that
  \<open>json.Unmarshal\<close> accepts documents with, including its nesting limit. The main results are that
  unquoting undoes quoting on well-formed UTF-8, and that the parser's fuel is enough.
\<close>

datatype json =
    JNull
  | JBool bool
  | JNum
  | JStr string
  | JArr "json list"
  | JObj "(string \<times> json) list"

section \<open>Quoting\<close>

abbreviation backslash :: char where "backslash \<equiv> CHR 0x5C"
abbreviation dquote :: char where "dquote \<equiv> CHR 0x22"

text \<open>The ASCII bytes that \<open>Marshal\<close> writes as they are.\<close>

definition html_safe :: "char \<Rightarrow> bool" where
  "html_safe c \<longleftrightarrow> 32 \<le> byte c \<and> byte c < 128 \<and> c \<notin> set [dquote, backslash, CHR ''<'', CHR ''>'', CHR ''&'']"

definition escape_ascii :: "char \<Rightarrow> string" where
  "escape_ascii c =
     (if c = backslash \<or> c = dquote then [backslash, c]
      else if byte c = 8 then [backslash, CHR ''b'']
      else if byte c = 12 then [backslash, CHR ''f'']
      else if byte c = 10 then [backslash, CHR ''n'']
      else if byte c = 13 then [backslash, CHR ''r'']
      else if byte c = 9 then [backslash, CHR ''t'']
      else [backslash, CHR ''u'', CHR ''0'', CHR ''0'',
            hex_digit (byte c div 16), hex_digit (byte c mod 16)])"

text \<open>U+2028 and U+2029, the two runes beyond ASCII that are escaped, in UTF-8.\<close>

definition line_sep :: "string" where
  "line_sep = [char_of (226::nat), char_of (128::nat), char_of (168::nat)]"

definition para_sep :: "string" where
  "para_sep = [char_of (226::nat), char_of (128::nat), char_of (169::nat)]"

definition escape_rune :: "string \<Rightarrow> string" where
  "escape_rune r =
     (if r = line_sep then backslash # ''u2028''
      else if r = para_sep then backslash # ''u2029''
      else r)"

function quote_body :: "string \<Rightarrow> string" where
  "quote_body s =
     (if s = [] then []
      else if byte (hd s) < 128 then
        (if html_safe (hd s) then [hd s] else escape_ascii (hd s)) @ quote_body (tl s)
      else if rune_len s = 0 then backslash # ''ufffd'' @ quote_body (tl s)
      else escape_rune (take (rune_len s) s) @ quote_body (drop (rune_len s) s))"
  by pat_completeness auto
termination
  by (relation "measure length") auto

declare quote_body.simps [simp del]

definition quote :: "string \<Rightarrow> string" where
  "quote s = dquote # quote_body s @ [dquote]"

section \<open>Unquoting\<close>

definition hex_val :: "char \<Rightarrow> nat option" where
  "hex_val c =
     (if CHR ''0'' \<le> c \<and> c \<le> CHR ''9'' then Some (byte c - 48)
      else if CHR ''a'' \<le> c \<and> c \<le> CHR ''f'' then Some (byte c - 87)
      else if CHR ''A'' \<le> c \<and> c \<le> CHR ''F'' then Some (byte c - 55)
      else None)"

definition hex4 :: "string \<Rightarrow> (nat \<times> string) option" where
  "hex4 s =
     (case s of
        a # b # c # d # t \<Rightarrow>
          (case (hex_val a, hex_val b, hex_val c, hex_val d) of
             (Some w, Some x, Some y, Some z) \<Rightarrow> Some (w * 4096 + x * 256 + y * 16 + z, t)
           | _ \<Rightarrow> None)
      | _ \<Rightarrow> None)"

text \<open>\<open>utf8.AppendRune\<close>.\<close>

definition encode_rune :: "nat \<Rightarrow> string" where
  "encode_rune n =
     (if n < 128 then [char_of n]
      else if n < 2048 then [char_of (192 + n div 64), char_of (128 + n mod 64)]
      else if n < 65536 then
        [char_of (224 + n div 4096), char_of (128 + n div 64 mod 64), char_of (128 + n mod 64)]
      else [char_of (240 + n div 262144), char_of (128 + n div 4096 mod 64),
            char_of (128 + n div 64 mod 64), char_of (128 + n mod 64)])"

definition replacement :: string where
  "replacement = [char_of (239::nat), char_of (191::nat), char_of (189::nat)]"

definition simple_escape :: "char \<Rightarrow> char option" where
  "simple_escape e =
     (if e \<in> set [dquote, backslash, CHR ''/''] then Some e
      else if e = CHR ''b'' then Some (char_of (8::nat))
      else if e = CHR ''f'' then Some (char_of (12::nat))
      else if e = CHR ''n'' then Some (char_of (10::nat))
      else if e = CHR ''r'' then Some (char_of (13::nat))
      else if e = CHR ''t'' then Some (char_of (9::nat))
      else None)"

text \<open>The second half of a surrogate pair, if one follows.\<close>

definition low_surrogate :: "string \<Rightarrow> (nat \<times> string) option" where
  "low_surrogate s =
     (case s of
        a # b # t \<Rightarrow>
          if a = backslash \<and> b = CHR ''u'' then
            (case hex4 t of
               Some (n, u) \<Rightarrow> if 56320 \<le> n \<and> n < 57344 then Some (n, u) else None
             | None \<Rightarrow> None)
          else None
      | _ \<Rightarrow> None)"

text \<open>\<open>\uXXXX\<close>, already past the \<open>u\<close>; a surrogate that is not part of a pair becomes U+FFFD.\<close>

definition unicode_escape :: "string \<Rightarrow> (string \<times> string) option" where
  "unicode_escape s =
     (case hex4 s of
        None \<Rightarrow> None
      | Some (n, t) \<Rightarrow>
          if 55296 \<le> n \<and> n < 57344 then
            (case (if n < 56320 then low_surrogate t else None) of
               Some (m, u) \<Rightarrow> Some (encode_rune ((n - 55296) * 1024 + (m - 56320) + 65536), u)
             | None \<Rightarrow> Some (replacement, t))
          else Some (encode_rune n, t))"

text \<open>One step inside a string literal: its end, the bytes it contributes, or a syntax error.\<close>

datatype str_step = Close string | Chunk string string | Bad

definition step_of :: "(string \<times> string) option \<Rightarrow> str_step" where
  "step_of r = (case r of Some (x, t) \<Rightarrow> Chunk x t | None \<Rightarrow> Bad)"

fun string_step :: "string \<Rightarrow> str_step" where
  "string_step [] = Bad"
| "string_step (c # s) =
     (if c = dquote then Close s
      else if c = backslash then
        (case s of
           [] \<Rightarrow> Bad
         | e # t \<Rightarrow>
             if e = CHR ''u'' then step_of (unicode_escape t)
             else step_of (map_option (\<lambda>b. ([b], t)) (simple_escape e)))
      else if byte c < 32 then Bad
      else if byte c < 128 then Chunk [c] s
      else if rune_len (c # s) = 0 then Chunk replacement s
      else Chunk (take (rune_len (c # s)) (c # s)) (drop (rune_len (c # s)) (c # s)))"

lemma hex4_length: "hex4 s = Some (n, t) \<Longrightarrow> length t < length s"
  by (auto simp: hex4_def split: list.splits option.splits)

lemma low_surrogate_length: "low_surrogate s = Some (n, t) \<Longrightarrow> length t < length s"
  by (auto simp: low_surrogate_def dest!: hex4_length split: list.splits option.splits if_splits)

lemma unicode_escape_length: "unicode_escape s = Some (x, t) \<Longrightarrow> length t < length s"
  by (auto simp: unicode_escape_def dest!: hex4_length low_surrogate_length
      split: option.splits prod.splits if_splits)

lemma step_of_Chunk: "step_of r = Chunk x t \<longleftrightarrow> r = Some (x, t)"
  by (auto simp: step_of_def split: option.splits)

lemma step_of_not_Close [simp]: "step_of r \<noteq> Close t"
  by (auto simp: step_of_def split: option.splits)

lemma string_step_length:
  "string_step s = Chunk x t \<Longrightarrow> length t < length s"
  "string_step s = Close t \<Longrightarrow> length t < length s"
  by (cases s; auto simp: step_of_Chunk dest!: unicode_escape_length simp del: rune_len.simps
      split: if_splits list.splits)+

definition prepend :: "string \<Rightarrow> (string \<times> string) option \<Rightarrow> (string \<times> string) option" where
  "prepend x r = map_option (apfst ((@) x)) r"

text \<open>The rest of a string literal, past its opening quote: the decoded string and what follows.\<close>

function unquote :: "string \<Rightarrow> (string \<times> string) option" where
  "unquote s =
     (case string_step s of
        Close t \<Rightarrow> Some ([], t)
      | Chunk x t \<Rightarrow> prepend x (unquote t)
      | Bad \<Rightarrow> None)"
  by pat_completeness auto
termination
  by (relation "measure length") (auto dest: string_step_length)

declare unquote.simps [simp del]

lemma unquote_Chunk: "string_step s = Chunk x t \<Longrightarrow> unquote s = prepend x (unquote t)"
  by (subst unquote.simps) simp

lemma unquote_Close: "string_step s = Close t \<Longrightarrow> unquote s = Some ([], t)"
  by (subst unquote.simps) simp

lemma unquote_length: "unquote s = Some (x, t) \<Longrightarrow> length t < length s"
proof (induction s arbitrary: x rule: unquote.induct)
  case (1 s)
  show ?case
  proof (cases "string_step s")
    case (Close u)
    with 1 show ?thesis by (auto simp: unquote_Close dest: string_step_length)
  next
    case (Chunk y u)
    then obtain z where "unquote u = Some (z, t)"
      using 1 by (auto simp: unquote_Chunk prepend_def)
    with 1(1) [OF Chunk] string_step_length(1) [OF Chunk] show ?thesis by fastforce
  next
    case Bad
    with 1 show ?thesis by (subst (asm) unquote.simps) simp
  qed
qed

section \<open>Unquoting undoes quoting\<close>

lemma hex_val_digit: "n < 16 \<Longrightarrow> hex_val (hex_digit n) = Some n"
proof -
  assume "n < 16"
  moreover have "\<forall>n \<in> {..<16}. hex_val (hex_digit n) = Some n"
    by code_simp
  ultimately show ?thesis by blast
qed

lemma hex_val_zero [simp]: "hex_val (CHR ''0'') = Some 0"
  by code_simp

lemma char_eqI: "byte c = n \<Longrightarrow> char_of n = c"
  by (metis char_of_char)

lemma escape_ascii_step:
  assumes "byte c < 128" and "\<not> html_safe c"
  shows "string_step (escape_ascii c @ t) = Chunk [c] t"
proof (cases "c = backslash \<or> c = dquote")
  case True
  then show ?thesis by (auto simp: escape_ascii_def simple_escape_def step_of_def)
next
  case F: False
  consider (b) "byte c = 8" | (f) "byte c = 12" | (n) "byte c = 10" | (r) "byte c = 13"
    | (t) "byte c = 9" | (u) "byte c \<noteq> 8" "byte c \<noteq> 12" "byte c \<noteq> 10" "byte c \<noteq> 13" "byte c \<noteq> 9"
    by blast
  then show ?thesis
  proof cases
    case u
    have lt: "byte c div 16 < 16" "byte c mod 16 < 16"
      using assms(1) by (simp_all add: div_less_iff_less_mult)
    have "hex4 ([CHR ''0'', CHR ''0'', hex_digit (byte c div 16), hex_digit (byte c mod 16)] @ t) =
        Some (byte c, t)"
      using lt by (simp add: hex4_def hex_val_digit)
    then have "unicode_escape (CHR ''0'' # CHR ''0'' # hex_digit (byte c div 16)
        # hex_digit (byte c mod 16) # t) = Some ([c], t)"
      using assms(1) by (simp add: unicode_escape_def encode_rune_def char_eqI)
    then show ?thesis
      using F u by (simp add: escape_ascii_def step_of_def)
  qed (use F in \<open>simp_all add: escape_ascii_def simple_escape_def step_of_def char_eqI\<close>)
qed

lemma html_safe_step: "html_safe c \<Longrightarrow> string_step (c # t) = Chunk [c] t"
  by (auto simp: html_safe_def)

lemma rune_len_pos_128: "\<not> byte (hd s) < 128 \<Longrightarrow> rune_len s \<noteq> 1"
  by (cases s) (auto simp: Let_def split: list.splits)

lemma escape_line_sep: "string_step (backslash # ''u2028'' @ t) = Chunk line_sep t"
proof -
  have "unicode_escape (''2028'' @ t) = Some (encode_rune 8232, t)"
    by (simp add: unicode_escape_def hex4_def hex_val_def)
  moreover have "encode_rune 8232 = line_sep"
    by (simp add: encode_rune_def line_sep_def)
  ultimately show ?thesis by (simp add: step_of_def)
qed

lemma escape_para_sep: "string_step (backslash # ''u2029'' @ t) = Chunk para_sep t"
proof -
  have "unicode_escape (''2029'' @ t) = Some (encode_rune 8233, t)"
    by (simp add: unicode_escape_def hex4_def hex_val_def)
  moreover have "encode_rune 8233 = para_sep"
    by (simp add: encode_rune_def para_sep_def)
  ultimately show ?thesis by (simp add: step_of_def)
qed

lemma escape_rune_step:
  assumes "s \<noteq> []" and "\<not> byte (hd s) < 128" and "0 < rune_len s"
  shows "string_step (escape_rune (take (rune_len s) s) @ t) = Chunk (take (rune_len s) s) t"
proof -
  let ?r = "take (rune_len s) s"
  obtain c u where r: "?r = c # u" and c: "c = hd s"
    using assms by (cases s; cases "rune_len s") (auto simp del: rune_len.simps)
  have n: "rune_len (c # u @ t) = rune_len s"
    using rune_len_take [OF assms(3), of t] r by (simp del: rune_len.simps)
  have "Suc (length u) = rune_len s"
    using arg_cong [OF r, of length] rune_len_le [of s] by (auto simp: min_def simp del: rune_len.simps split: if_splits)
  then have "take (rune_len s) (c # u @ t) = ?r" and "drop (rune_len s) (c # u @ t) = t"
    using r by (simp_all flip: \<open>Suc (length u) = rune_len s\<close> del: rune_len.simps)
  then have "string_step (?r @ t) = Chunk ?r t"
    using assms c r n by (auto simp del: rune_len.simps)
  then show ?thesis
    by (auto simp: escape_rune_def escape_line_sep [simplified append.simps] escape_para_sep [simplified append.simps]
        simp del: rune_len.simps string_step.simps)
qed

text \<open>A string literal written by \<open>Marshal\<close> reads back as the string, if that was well formed.\<close>

theorem unquote_quote_body:
  assumes "valid_utf8 s"
  shows "unquote (quote_body s @ dquote # t) = Some (s, t)"
  using assms
proof (induction s rule: quote_body.induct)
  case (1 s)
  show ?case
  proof (cases "s = []")
    case True
    then show ?thesis
      by (simp add: quote_body.simps unquote_Close)
  next
    case ne: False
    with 1 have pos: "0 < rune_len s" and rest: "valid_utf8 (drop (rune_len s) s)"
      using valid_utf8_step by auto
    show ?thesis
    proof (cases "byte (hd s) < 128")
      case True
      then have "rune_len s = 1" and s: "s = [hd s] @ tl s"
        using ne by (cases s; simp)+
      with rest have v: "valid_utf8 (tl s)" by (simp add: drop_Suc)
      have "quote_body s = (if html_safe (hd s) then [hd s] else escape_ascii (hd s)) @ quote_body (tl s)"
        using ne True by (subst quote_body.simps) simp
      moreover have "string_step ((if html_safe (hd s) then [hd s] else escape_ascii (hd s)) @ u) =
          Chunk [hd s] u" for u
        using True by (simp add: html_safe_step escape_ascii_step del: string_step.simps)
      ultimately show ?thesis
        using 1(1) [OF ne True v] s by (simp add: unquote_Chunk prepend_def)
    next
      case False
      have "quote_body s = escape_rune (take (rune_len s) s) @ quote_body (drop (rune_len s) s)"
        using ne False pos by (subst quote_body.simps) simp
      then show ?thesis
        using 1(3) [OF ne False _ rest] pos escape_rune_step [OF ne False pos]
        by (simp add: unquote_Chunk prepend_def)
    qed
  qed
qed

section \<open>Parsing\<close>

definition is_ws :: "char \<Rightarrow> bool" where
  "is_ws c \<longleftrightarrow> byte c \<in> {32, 9, 13, 10}"

definition skip_ws :: "string \<Rightarrow> string" where
  "skip_ws s = dropWhile is_ws s"

definition is_digit :: "char \<Rightarrow> bool" where
  "is_digit c \<longleftrightarrow> CHR ''0'' \<le> c \<and> c \<le> CHR ''9''"

text \<open>One or more digits.\<close>

definition digits1 :: "string \<Rightarrow> string option" where
  "digits1 s = (if s \<noteq> [] \<and> is_digit (hd s) then Some (dropWhile is_digit s) else None)"

definition int_part :: "string \<Rightarrow> string option" where
  "int_part s = (if s \<noteq> [] \<and> hd s = CHR ''0'' then Some (tl s) else digits1 s)"

definition frac_part :: "string \<Rightarrow> string option" where
  "frac_part s = (if s \<noteq> [] \<and> hd s = CHR ''.'' then digits1 (tl s) else Some s)"

definition drop_sign :: "string \<Rightarrow> string" where
  "drop_sign s = (if s \<noteq> [] \<and> (hd s = CHR ''+'' \<or> hd s = CHR ''-'') then tl s else s)"

definition exp_part :: "string \<Rightarrow> string option" where
  "exp_part s =
     (if s \<noteq> [] \<and> (hd s = CHR ''e'' \<or> hd s = CHR ''E'') then digits1 (drop_sign (tl s)) else Some s)"

text \<open>The value of a number is never looked at: what is read into are strings.\<close>

definition parse_number :: "string \<Rightarrow> (json \<times> string) option" where
  "parse_number s =
     (let s' = (if s \<noteq> [] \<and> hd s = CHR ''-'' then tl s else s)
      in map_option (Pair JNum) (Option.bind (Option.bind (int_part s') frac_part) exp_part))"

definition parse_literal :: "string \<Rightarrow> json \<Rightarrow> string \<Rightarrow> (json \<times> string) option" where
  "parse_literal l v s =
     (if take (length l) s = l then Some (v, drop (length l) s) else None)"

definition max_depth :: nat where
  "max_depth = 10000"

text \<open>
  Recursive descent. The first argument is fuel (it bounds the recursion, and \<open>parse_fuel\<close> below
  shows that what \<open>parse_json\<close> passes is enough), the second the number of enclosing arrays and
  objects.
\<close>

fun parse_value :: "nat \<Rightarrow> nat \<Rightarrow> string \<Rightarrow> (json \<times> string) option"
  and parse_elems :: "nat \<Rightarrow> nat \<Rightarrow> string \<Rightarrow> (json list \<times> string) option"
  and parse_members :: "nat \<Rightarrow> nat \<Rightarrow> string \<Rightarrow> ((string \<times> json) list \<times> string) option" where
  "parse_value 0 d s = None"
| "parse_value (Suc n) d s =
     (case skip_ws s of
        [] \<Rightarrow> None
      | c # t \<Rightarrow>
          if c = CHR ''{'' then
            (if max_depth \<le> d then None
             else case skip_ws t of
                 [] \<Rightarrow> None
               | e # u \<Rightarrow> if e = CHR ''}'' then Some (JObj [], u)
                   else map_option (apfst JObj) (parse_members n (Suc d) (e # u)))
          else if c = CHR ''['' then
            (if max_depth \<le> d then None
             else case skip_ws t of
                 [] \<Rightarrow> None
               | e # u \<Rightarrow> if e = CHR '']'' then Some (JArr [], u)
                   else map_option (apfst JArr) (parse_elems n (Suc d) (e # u)))
          else if c = dquote then map_option (apfst JStr) (unquote t)
          else if c = CHR ''t'' then parse_literal ''rue'' (JBool True) t
          else if c = CHR ''f'' then parse_literal ''alse'' (JBool False) t
          else if c = CHR ''n'' then parse_literal ''ull'' JNull t
          else parse_number (c # t))"
| "parse_elems 0 d s = None"
| "parse_elems (Suc n) d s =
     (case parse_value n d s of
        None \<Rightarrow> None
      | Some (v, t) \<Rightarrow>
          (case skip_ws t of
             [] \<Rightarrow> None
           | e # u \<Rightarrow>
               if e = CHR '']'' then Some ([v], u)
               else if e = CHR '','' then map_option (apfst (Cons v)) (parse_elems n d u)
               else None))"
| "parse_members 0 d s = None"
| "parse_members (Suc n) d s =
     (case skip_ws s of
        [] \<Rightarrow> None
      | q # t \<Rightarrow>
          if q \<noteq> dquote then None
          else (case unquote t of
              None \<Rightarrow> None
            | Some (k, u) \<Rightarrow>
                (case skip_ws u of
                   [] \<Rightarrow> None
                 | c # u' \<Rightarrow>
                     if c \<noteq> CHR '':'' then None
                     else (case parse_value n d u' of
                         None \<Rightarrow> None
                       | Some (v, w) \<Rightarrow>
                           (case skip_ws w of
                              [] \<Rightarrow> None
                            | e # x \<Rightarrow>
                                if e = CHR ''}'' then Some ([(k, v)], x)
                                else if e = CHR '','' then
                                  map_option (apfst (Cons (k, v))) (parse_members n d x)
                                else None)))))"

definition parse_json :: "string \<Rightarrow> json option" where
  "parse_json s =
     (case parse_value (2 * length s + 2) 0 s of
        Some (v, t) \<Rightarrow> if skip_ws t = [] then Some v else None
      | None \<Rightarrow> None)"

subsection \<open>Enough fuel\<close>

lemma skip_ws_length: "length (skip_ws s) \<le> length s"
  by (simp add: skip_ws_def length_dropWhile_le)

lemma skip_ws_Cons_length: "skip_ws s = c # t \<Longrightarrow> length t < length s"
  using skip_ws_length [of s] by simp

lemma digits1_length: "digits1 s = Some t \<Longrightarrow> length t < length s"
  by (cases s) (auto simp: digits1_def length_dropWhile_le less_Suc_eq_le split: if_splits)

lemma int_part_length: "int_part s = Some t \<Longrightarrow> length t < length s"
  by (cases s) (auto simp: int_part_def dest: digits1_length split: if_splits)

lemma frac_part_length: "frac_part s = Some t \<Longrightarrow> length t \<le> length s"
  by (cases s) (auto simp: frac_part_def dest: digits1_length split: if_splits)

lemma exp_part_length: "exp_part s = Some t \<Longrightarrow> length t \<le> length s"
  by (cases s)
    (auto simp: exp_part_def drop_sign_def dest!: digits1_length split: if_splits)

lemma parse_number_length: "parse_number s = Some (v, t) \<Longrightarrow> length t < length s"
  by (cases s)
    (auto simp: parse_number_def Let_def split: if_splits bind_splits
      dest!: int_part_length frac_part_length exp_part_length)

lemma parse_literal_length: "parse_literal l v s = Some (w, t) \<Longrightarrow> length t \<le> length s"
  by (auto simp: parse_literal_def split: if_splits)

text \<open>What is parsed is consumed.\<close>

lemma parse_length:
  "parse_value n d s = Some (v, t) \<Longrightarrow> length t < length s"
  "parse_elems n d s = Some (vs, t) \<Longrightarrow> length t < length s"
  "parse_members n d s = Some (ms, t) \<Longrightarrow> length t < length s"
proof (induction n d s and n d s and n d s arbitrary: v t and vs t and ms t
    rule: parse_value_parse_elems_parse_members.induct)
  case (2 n d s)
  then show ?case
    by (fastforce split: list.splits if_splits dest: skip_ws_Cons_length unquote_length
        parse_number_length parse_literal_length)
next
  case (4 n d s)
  then show ?case
    by (fastforce split: list.splits if_splits option.splits dest: skip_ws_Cons_length)
next
  case (6 n d s)
  then show ?case
    by (fastforce split: list.splits if_splits option.splits
        dest: skip_ws_Cons_length unquote_length)
qed simp_all

text \<open>One more unit of fuel changes nothing once there is enough, one parser at a time.\<close>

lemma parse_value_step:
  assumes "\<And>d t. 2 * length t + 2 \<le> n \<Longrightarrow> parse_elems (Suc n) d t = parse_elems n d t"
    and "\<And>d t. 2 * length t + 2 \<le> n \<Longrightarrow> parse_members (Suc n) d t = parse_members n d t"
    and "2 * length s + 1 \<le> Suc n"
  shows "parse_value (Suc (Suc n)) d s = parse_value (Suc n) d s"
proof (cases "skip_ws s")
  case (Cons c t)
  show ?thesis
  proof (cases "skip_ws t")
    case (Cons e u)
    with \<open>skip_ws s = c # t\<close> assms(3) have "2 * length (e # u) + 2 \<le> n"
      using skip_ws_Cons_length [of s c t] skip_ws_length [of t] by simp
    from assms(1) [OF this, of "Suc d"] assms(2) [OF this, of "Suc d"] Cons \<open>skip_ws s = c # t\<close>
    show ?thesis by (auto simp del: parse_elems.simps parse_members.simps)
  qed (simp add: Cons)
qed simp

lemma parse_elems_step:
  assumes V: "\<And>d t. 2 * length t + 1 \<le> n \<Longrightarrow> parse_value (Suc n) d t = parse_value n d t"
    and E: "\<And>d t. 2 * length t + 2 \<le> n \<Longrightarrow> parse_elems (Suc n) d t = parse_elems n d t"
    and le: "2 * length s + 2 \<le> Suc n"
  shows "parse_elems (Suc (Suc n)) d s = parse_elems (Suc n) d s"
proof (cases "parse_value n d s")
  case None
  then show ?thesis
    using V [of s d] le by (simp del: parse_value.simps)
next
  case (Some p)
  obtain v t where p: "p = (v, t)" by (cases p)
  have "parse_elems (Suc n) d u = parse_elems n d u" if "skip_ws t = e # u" for e u
    using skip_ws_Cons_length [OF that] parse_length(1) [OF Some [unfolded p]] le by (intro E) simp
  then show ?thesis
    using V [of s d] le Some p
    by (simp del: parse_value.simps parse_elems.simps
        add: parse_elems.simps(2) [of "Suc n"] parse_elems.simps(2) [of n] split: list.split)
qed

lemma parse_members_step:
  assumes V: "\<And>d t. 2 * length t + 1 \<le> n \<Longrightarrow> parse_value (Suc n) d t = parse_value n d t"
    and M: "\<And>d t. 2 * length t + 2 \<le> n \<Longrightarrow> parse_members (Suc n) d t = parse_members n d t"
    and le: "2 * length s + 2 \<le> Suc n"
  shows "parse_members (Suc (Suc n)) d s = parse_members (Suc n) d s"
proof -
  have "parse_value (Suc n) d u' = parse_value n d u'"
    if "skip_ws s = q # t" "unquote t = Some (k, u)" "skip_ws u = c # u'" for q t k u c u'
    using skip_ws_Cons_length [OF that(1)] unquote_length [OF that(2)]
      skip_ws_Cons_length [OF that(3)] le by (intro V) simp
  moreover have "parse_members (Suc n) d x = parse_members n d x"
    if "skip_ws s = q # t" "unquote t = Some (k, u)" "skip_ws u = c # u'"
      "parse_value n d u' = Some (v, w)" "skip_ws w = e # x" for q t k u c u' v w e x
    using skip_ws_Cons_length [OF that(1)] unquote_length [OF that(2)]
      skip_ws_Cons_length [OF that(3)] parse_length(1) [OF that(4)]
      skip_ws_Cons_length [OF that(5)] le by (intro M) simp
  ultimately show ?thesis
    by (auto simp del: parse_value.simps parse_members.simps
        simp: parse_members.simps(2) [of "Suc n"] parse_members.simps(2) [of n]
        split: list.split option.split)
qed

lemma parse_fuel_step:
  "(2 * length s + 1 \<le> n \<longrightarrow> parse_value (Suc n) d s = parse_value n d s) \<and>
   (2 * length s + 2 \<le> n \<longrightarrow> parse_elems (Suc n) d s = parse_elems n d s) \<and>
   (2 * length s + 2 \<le> n \<longrightarrow> parse_members (Suc n) d s = parse_members n d s)"
proof (induction n arbitrary: d s)
  case (Suc n)
  then show ?case by (blast intro: parse_value_step parse_elems_step parse_members_step)
qed simp

text \<open>\<open>parse_json\<close> never fails for want of fuel: any larger amount gives the same result.\<close>

theorem parse_fuel: "parse_value (2 * length s + 2 + k) d s = parse_value (2 * length s + 2) d s"
proof (induction k)
  case (Suc k)
  then show ?case
    using parse_fuel_step [of s "2 * length s + 2 + k" d] by simp
qed simp

end
