(* ===== verification/Inventory.thy ===== *)
theory Inventory
  imports Json Shared
begin

text \<open>
  The inventory annotation of \<open>managednamespace.go\<close>: \<open>namespaceMetadata\<close>, its JSON form, and the
  mutation \<open>ensureNamespace\<close> applies to a Namespace. The inventory records which label and
  annotation keys the last pass put on the Namespace, so that the next pass can take back exactly
  those.
\<close>

section \<open>The JSON form of the inventory\<close>

record namespace_metadata =
  nm_labels :: "string list"
  nm_annotations :: "string list"

definition empty_inventory :: namespace_metadata where
  "empty_inventory = \<lparr>nm_labels = [], nm_annotations = []\<rparr>"

definition marshal_strings :: "string list \<Rightarrow> string" where
  "marshal_strings xs = CHR ''['' # join_strings '','' (map quote xs) @ '']''"

definition marshal_member :: "string \<times> string list \<Rightarrow> string" where
  "marshal_member m = quote (fst m) @ '':'' @ marshal_strings (snd m)"

text \<open>\<open>json.Marshal\<close>: fields in declaration order, an empty slice omitted.\<close>

definition inventory_members :: "namespace_metadata \<Rightarrow> (string \<times> string list) list" where
  "inventory_members i =
     filter (\<lambda>m. snd m \<noteq> []) [(''labels'', nm_labels i), (''annotations'', nm_annotations i)]"

definition json_Marshal :: "namespace_metadata \<Rightarrow> string" where
  "json_Marshal i =
     CHR ''{'' # join_strings '','' (map marshal_member (inventory_members i)) @ ''}''"

text \<open>
  \<open>json.Unmarshal\<close>. Keys match a field up to case folding: of the runes beyond ASCII only U+017F and
  U+212A fold to ASCII letters. A slice is decoded in place, so where a key comes twice a null
  element keeps what the earlier array left at its index (the second component of a \<open>slice\<close>).
\<close>

type_synonym slice = "string list \<times> string list"

fun fold_name :: "string \<Rightarrow> string" where
  "fold_name (a # b # s) =
     (if byte a = 197 \<and> byte b = 191 then CHR ''S'' # fold_name s
      else case s of
          c # t \<Rightarrow> if byte a = 226 \<and> byte b = 132 \<and> byte c = 170 then CHR ''K'' # fold_name t
            else (if CHR ''a'' \<le> a \<and> a \<le> CHR ''z'' then char_of (byte a - 32) else a) # fold_name (b # s)
        | [] \<Rightarrow>
            (if CHR ''a'' \<le> a \<and> a \<le> CHR ''z'' then char_of (byte a - 32) else a) # fold_name (b # s))"
| "fold_name [a] = [if CHR ''a'' \<le> a \<and> a \<le> CHR ''z'' then char_of (byte a - 32) else a]"
| "fold_name [] = []"

fun decode_elems :: "string list \<Rightarrow> json list \<Rightarrow> string list option" where
  "decode_elems old [] = Some []"
| "decode_elems old (j # js) =
     (case j of
        JStr s \<Rightarrow> map_option (Cons s) (decode_elems (tl old) js)
      | JNull \<Rightarrow> map_option (Cons (if old = [] then [] else hd old)) (decode_elems (tl old) js)
      | _ \<Rightarrow> None)"

fun decode_slice :: "slice \<Rightarrow> json \<Rightarrow> slice option" where
  "decode_slice sl JNull = Some ([], [])"
| "decode_slice sl (JArr js) =
     map_option (\<lambda>new. (new, if new = [] then [] else new @ drop (length new) (snd sl)))
       (decode_elems (snd sl) js)"
| "decode_slice sl _ = None"

fun decode_members :: "slice \<Rightarrow> slice \<Rightarrow> (string \<times> json) list \<Rightarrow> (slice \<times> slice) option" where
  "decode_members l a [] = Some (l, a)"
| "decode_members l a ((k, v) # ms) =
     (if fold_name k = ''LABELS'' then
        Option.bind (decode_slice l v) (\<lambda>l'. decode_members l' a ms)
      else if fold_name k = ''ANNOTATIONS'' then
        Option.bind (decode_slice a v) (\<lambda>a'. decode_members l a' ms)
      else decode_members l a ms)"

definition json_Unmarshal :: "string \<Rightarrow> namespace_metadata option" where
  "json_Unmarshal data =
     (case parse_json data of
        Some JNull \<Rightarrow> Some empty_inventory
      | Some (JObj ms) \<Rightarrow>
          map_option (\<lambda>(l, a). \<lparr>nm_labels = fst l, nm_annotations = fst a\<rparr>)
            (decode_members ([], []) ([], []) ms)
      | _ \<Rightarrow> None)"

section \<open>Reading and mutating a Namespace\<close>

definition namespaceMetadataInventory :: "namespace_obj \<Rightarrow> error + namespace_metadata" where
  "namespaceMetadataInventory ns =
     (let data = gomap_str (om_annotations (ns_meta ns)) AnnotationManagedMetadata in
      if data = [] then Inr empty_inventory
      else case json_Unmarshal data of
          Some i \<Rightarrow> Inr i
        | None \<Rightarrow> Inl (WrappedError
            (''decode '' @ AnnotationManagedMetadata @ '' annotation on Namespace '' @
               [dquote] @ om_name (ns_meta ns) @ [dquote])
            (JsonError data)))"

text \<open>\<open>if m == nil { m = map[string]string{} }\<close> and \<open>maps.Copy\<close>.\<close>

definition make_if_nil :: "('k, 'v) gomap \<Rightarrow> ('k, 'v) gomap" where
  "make_if_nil m = (case m of None \<Rightarrow> Some fmempty | Some f \<Rightarrow> Some f)"

definition maps_Copy :: "('k, 'v) gomap \<Rightarrow> ('k, 'v) fmap \<Rightarrow> ('k, 'v) gomap option" where
  "maps_Copy dst src =
     (case dst of
        None \<Rightarrow> if src = fmempty then Some None else None
      | Some d \<Rightarrow> Some (Some (fmadd d src)))"

definition wanted_inventory :: "mns_spec \<Rightarrow> namespace_metadata" where
  "wanted_inventory sp =
     \<lparr>nm_labels = sorted_keys (sp_labels sp),
      nm_annotations = filter (\<lambda>key. key \<noteq> AnnotationManagedMetadata) (sorted_keys (sp_annotations sp))\<rparr>"

definition mutateLabels ::
  "managed_namespace \<Rightarrow> (string, string) gomap \<Rightarrow> (string, string) gomap option" where
  "mutateLabels mns m =
     Option.bind (maps_Copy (make_if_nil m) (sp_labels (mn_spec mns)))
       (\<lambda>m. Option.bind (gomap_put LabelManagedBy ManagedBy m) (gomap_put LabelOwnerName (mn_name mns)))"

definition mutateAnnotations ::
  "managed_namespace \<Rightarrow> (string, string) gomap \<Rightarrow> (string, string) gomap option" where
  "mutateAnnotations mns m =
     Option.bind (maps_Copy (make_if_nil m) (sp_annotations (mn_spec mns)))
       (gomap_put AnnotationManagedMetadata (json_Marshal (wanted_inventory (mn_spec mns))))"

text \<open>The closure \<open>ensureNamespace\<close> hands to \<open>CreateOrUpdate\<close>; a write to a nil map is a panic.\<close>

definition mutateNamespace :: "managed_namespace \<Rightarrow> namespace_obj \<Rightarrow> error + namespace_obj" where
  "mutateNamespace mns ns =
     (case namespaceMetadataInventory ns of
        Inl e \<Rightarrow> Inl e
      | Inr previous \<Rightarrow>
          (let labels = fold gomap_delete (nm_labels previous) (om_labels (ns_meta ns));
               annotations = fold gomap_delete (nm_annotations previous) (om_annotations (ns_meta ns))
           in case (mutateLabels mns labels, mutateAnnotations mns annotations) of
                (Some ls, Some as) \<Rightarrow>
                  Inr (ns\<lparr>ns_meta := (ns_meta ns)\<lparr>om_labels := ls, om_annotations := as\<rparr>\<rparr>)
              | _ \<Rightarrow> Inl (Panic ''assignment to entry in nil map'')))"

section \<open>The mutation, key by key\<close>

lemma make_if_nil_get [simp]: "gomap_get (make_if_nil m) = gomap_get m"
  by (auto simp: make_if_nil_def split: option.split)

lemma make_if_nil_Some: "\<exists>f. make_if_nil m = Some f"
  by (cases m) (auto simp: make_if_nil_def)

lemma mutateLabels_Some:
  "\<exists>ls. mutateLabels mns m = Some ls \<and> (\<forall>k. gomap_get ls k =
     (if k = LabelOwnerName then Some (mn_name mns)
      else if k = LabelManagedBy then Some ManagedBy
      else case fmlookup (sp_labels (mn_spec mns)) k of Some v \<Rightarrow> Some v | None \<Rightarrow> gomap_get m k))"
proof -
  obtain f where "make_if_nil m = Some f" using make_if_nil_Some by blast
  moreover from this have "gomap_get m k = fmlookup f k" for k
    using make_if_nil_get [of m] by (metis gomap_get_simps(2))
  ultimately show ?thesis
    by (auto simp: mutateLabels_def maps_Copy_def gomap_put_def fmdom_notI split: option.split)
qed

lemma mutateAnnotations_Some:
  "\<exists>as. mutateAnnotations mns m = Some as \<and> (\<forall>k. gomap_get as k =
     (if k = AnnotationManagedMetadata then Some (json_Marshal (wanted_inventory (mn_spec mns)))
      else case fmlookup (sp_annotations (mn_spec mns)) k of Some v \<Rightarrow> Some v | None \<Rightarrow> gomap_get m k))"
proof -
  obtain f where "make_if_nil m = Some f" using make_if_nil_Some by blast
  moreover from this have "gomap_get m k = fmlookup f k" for k
    using make_if_nil_get [of m] by (metis gomap_get_simps(2))
  ultimately show ?thesis
    by (auto simp: mutateAnnotations_def maps_Copy_def gomap_put_def fmdom_notI split: option.split)
qed

text \<open>
  The whole mutation. It fails only on an inventory that does not decode, and then with the wrapped
  error: no write of it ever hits a nil map.
\<close>

lemma mutateNamespace_Inl:
  "mutateNamespace mns ns = Inl e \<longleftrightarrow> namespaceMetadataInventory ns = Inl e"
proof (cases "namespaceMetadataInventory ns")
  case (Inr i)
  then show ?thesis
    using mutateLabels_Some [of mns "fold gomap_delete (nm_labels i) (om_labels (ns_meta ns))"]
      mutateAnnotations_Some [of mns "fold gomap_delete (nm_annotations i) (om_annotations (ns_meta ns))"]
    by (auto simp: mutateNamespace_def)
qed (simp add: mutateNamespace_def)

lemma mutateNamespace_Inr:
  assumes "namespaceMetadataInventory ns = Inr i"
  obtains ls as where
    "mutateNamespace mns ns =
       Inr (ns\<lparr>ns_meta := (ns_meta ns)\<lparr>om_labels := ls, om_annotations := as\<rparr>\<rparr>)"
    "\<And>k. gomap_get ls k =
       (if k = LabelOwnerName then Some (mn_name mns)
        else if k = LabelManagedBy then Some ManagedBy
        else case fmlookup (sp_labels (mn_spec mns)) k of Some v \<Rightarrow> Some v
        | None \<Rightarrow> if k \<in> set (nm_labels i) then None else gomap_get (om_labels (ns_meta ns)) k)"
    "\<And>k. gomap_get as k =
       (if k = AnnotationManagedMetadata then Some (json_Marshal (wanted_inventory (mn_spec mns)))
        else case fmlookup (sp_annotations (mn_spec mns)) k of Some v \<Rightarrow> Some v
        | None \<Rightarrow> if k \<in> set (nm_annotations i) then None else gomap_get (om_annotations (ns_meta ns)) k)"
proof -
  obtain ls where ls: "mutateLabels mns (fold gomap_delete (nm_labels i) (om_labels (ns_meta ns))) = Some ls"
    "\<And>k. gomap_get ls k =
       (if k = LabelOwnerName then Some (mn_name mns)
        else if k = LabelManagedBy then Some ManagedBy
        else case fmlookup (sp_labels (mn_spec mns)) k of Some v \<Rightarrow> Some v
        | None \<Rightarrow> gomap_get (fold gomap_delete (nm_labels i) (om_labels (ns_meta ns))) k)"
    using mutateLabels_Some by blast
  obtain as where as: "mutateAnnotations mns (fold gomap_delete (nm_annotations i) (om_annotations (ns_meta ns))) = Some as"
    "\<And>k. gomap_get as k =
       (if k = AnnotationManagedMetadata then Some (json_Marshal (wanted_inventory (mn_spec mns)))
        else case fmlookup (sp_annotations (mn_spec mns)) k of Some v \<Rightarrow> Some v
        | None \<Rightarrow> gomap_get (fold gomap_delete (nm_annotations i) (om_annotations (ns_meta ns))) k)"
    using mutateAnnotations_Some by blast
  from ls as assms show ?thesis
    by (intro that [where ls = ls and as = as]) (simp_all add: mutateNamespace_def split: option.split)
qed

section \<open>The inventory survives its JSON form\<close>

lemma skip_ws_id [simp]: "skip_ws [] = []" "\<not> is_ws c \<Longrightarrow> skip_ws (c # s) = c # s"
  by (simp_all add: skip_ws_def)

lemma not_ws [simp]: "\<not> is_ws dquote" "\<not> is_ws (CHR ''['')" "\<not> is_ws (CHR '']'')"
  "\<not> is_ws (CHR '','')" "\<not> is_ws (CHR '':'')" "\<not> is_ws (CHR ''{'')" "\<not> is_ws (CHR ''}'')"
  by (simp_all add: is_ws_def)

lemma length_quote: "2 \<le> length (quote s)"
  by (simp add: quote_def)

lemma parse_value_quote:
  assumes "valid_utf8 s"
  shows "parse_value (Suc n) d (quote s @ t) = Some (JStr s, t)"
  using unquote_quote_body [OF assms, of t] by (simp add: quote_def)

lemma parse_elems_strings:
  assumes "xs \<noteq> []" and "list_all valid_utf8 xs" and "length xs + 1 \<le> n"
  shows "parse_elems n d (join_strings '','' (map quote xs) @ CHR '']'' # t) = Some (map JStr xs, t)"
  using assms
proof (induction xs arbitrary: n)
  case (Cons x xs)
  then obtain m where n: "n = Suc (Suc m)" by (cases n; cases "n - 1") auto
  show ?case
  proof (cases "xs = []")
    case True
    with Cons n show ?thesis
      by (simp add: parse_value_quote del: parse_value.simps)
  next
    case False
    with Cons n have "parse_elems (Suc m) d (join_strings '','' (map quote xs) @ CHR '']'' # t) =
        Some (map JStr xs, t)"
      by (intro Cons.IH) auto
    moreover have "parse_value (Suc m) d (quote x @ u) = Some (JStr x, u)" for u
      using Cons.prems by (intro parse_value_quote) simp
    ultimately show ?thesis
      using False n
      by (simp add: join_strings_Cons parse_elems.simps(2) [of "Suc m"]
          del: parse_value.simps parse_elems.simps)
  qed
qed simp

lemma join_quote_head:
  "xs \<noteq> [] \<Longrightarrow> \<exists>u. join_strings '','' (map quote xs) @ t = dquote # u"
  by (cases xs; cases "tl xs") (auto simp: quote_def)

lemma parse_value_strings:
  assumes "xs \<noteq> []" and "list_all valid_utf8 xs" and "length xs + 2 \<le> n" and "d < max_depth"
  shows "parse_value n d (marshal_strings xs @ t) = Some (JArr (map JStr xs), t)"
proof -
  obtain m where n: "n = Suc m" using assms(3) by (cases n) auto
  obtain u where u: "join_strings '','' (map quote xs) @ CHR '']'' # t = dquote # u"
    using join_quote_head [OF assms(1)] by blast
  have "parse_elems m (Suc d) (dquote # u) = Some (map JStr xs, t)"
    using parse_elems_strings [OF assms(1,2), of m "Suc d" t] assms(3) n u by simp
  then show ?thesis
    using u n assms(4) by (simp add: marshal_strings_def del: parse_elems.simps)
qed

text \<open>Well-formed members: distinct from white space at the front, values that are not empty.\<close>

definition good_member :: "string \<times> string list \<Rightarrow> bool" where
  "good_member m \<longleftrightarrow> valid_utf8 (fst m) \<and> snd m \<noteq> [] \<and> list_all valid_utf8 (snd m)"

lemma parse_members_strings:
  assumes "ms \<noteq> []" and "list_all good_member ms" and "d < max_depth"
    and "\<forall>m \<in> set ms. length (snd m) + length ms + 2 \<le> n"
  shows "parse_members n d (join_strings '','' (map marshal_member ms) @ CHR ''}'' # t) =
    Some (map (apsnd (\<lambda>xs. JArr (map JStr xs))) ms, t)"
  using assms
proof (induction ms arbitrary: n)
  case (Cons m ms)
  obtain k xs where m: "m = (k, xs)" by (cases m)
  with Cons.prems obtain n' where n: "n = Suc n'" by (cases n) auto
  have k: "unquote (quote_body k @ dquote # u) = Some (k, u)" for u
    using Cons.prems(2) m by (intro unquote_quote_body) (simp add: good_member_def)
  have v: "parse_value n' d (marshal_strings xs @ u) = Some (JArr (map JStr xs), u)" for u
    using Cons.prems m n by (intro parse_value_strings) (auto simp: good_member_def)
  have mm: "marshal_member m = dquote # quote_body k @ dquote # CHR '':'' # marshal_strings xs"
    by (simp add: m marshal_member_def quote_def)
  show ?case
  proof (cases "ms = []")
    case True
    then show ?thesis
      using k v m n by (simp add: mm [unfolded m] del: parse_value.simps)
  next
    case False
    with Cons.prems n have "parse_members n' d (join_strings '','' (map marshal_member ms) @ CHR ''}'' # t) =
        Some (map (apsnd (\<lambda>xs. JArr (map JStr xs))) ms, t)"
      by (intro Cons.IH) auto
    with False show ?thesis
      using k v m n by (simp add: join_strings_Cons mm [unfolded m] del: parse_value.simps)
  qed
qed simp

lemma length_join_quote: "2 * length xs \<le> length (join_strings '','' (map quote xs))"
proof (induction xs)
  case (Cons x xs)
  then show ?case
    using length_quote [of x] by (cases "xs = []") (simp_all add: join_strings_Cons)
qed simp

lemma length_marshal_member: "2 * length (snd m) + 2 \<le> length (marshal_member m)"
  using length_join_quote [of "snd m"] by (simp add: marshal_member_def marshal_strings_def)

lemma length_join_members:
  "m \<in> set ms \<Longrightarrow> length (snd m) + length ms \<le> length (join_strings '','' (map marshal_member ms))"
proof (induction ms)
  case (Cons m' ms)
  have "length ms \<le> length (join_strings '','' (map marshal_member ms))"
  proof (induction ms)
    case (Cons m ms)
    then show ?case
      using length_marshal_member [of m] by (cases "ms = []") (simp_all add: join_strings_Cons)
  qed simp
  with Cons show ?case
    using length_marshal_member [of m'] by (cases "ms = []") (auto simp: join_strings_Cons)
qed simp

lemma decode_strings [simp]: "decode_elems old (map JStr xs) = Some xs"
  by (induction xs arbitrary: old) simp_all

lemma fold_name_fields [simp]:
  "fold_name ''labels'' = ''LABELS''" "fold_name ''annotations'' = ''ANNOTATIONS''"
  by code_simp+

definition good_inventory :: "namespace_metadata \<Rightarrow> bool" where
  "good_inventory i \<longleftrightarrow> list_all valid_utf8 (nm_labels i) \<and> list_all valid_utf8 (nm_annotations i)"

lemma valid_field_names [simp]: "valid_utf8 ''labels''" "valid_utf8 ''annotations''"
  by code_simp+

lemma join_members_head:
  "ms \<noteq> [] \<Longrightarrow> \<exists>u. join_strings '','' (map marshal_member ms) @ t = dquote # u"
  by (cases ms; cases "tl ms") (auto simp: marshal_member_def quote_def)

lemma parse_json_Marshal:
  assumes "good_inventory i"
  shows "parse_json (json_Marshal i) =
    Some (JObj (map (apsnd (\<lambda>xs. JArr (map JStr xs))) (inventory_members i)))"
proof (cases "inventory_members i = []")
  case True
  have "(6::nat) = Suc 5" by simp
  then have "parse_value 6 0 ''{}'' = Some (JObj [], [])"
    by (simp only: parse_value.simps) (simp add: max_depth_def)
  with True show ?thesis by (simp add: json_Marshal_def parse_json_def)
next
  case False
  let ?ms = "inventory_members i"
  let ?b = "join_strings '','' (map marshal_member ?ms)"
  obtain u where u: "?b @ ''}'' = dquote # u"
    using join_members_head [OF False] by blast
  have good: "list_all good_member ?ms"
    using assms by (auto simp: inventory_members_def good_member_def good_inventory_def)
  have "parse_members (2 * length (json_Marshal i) + 1) (Suc 0) (?b @ CHR ''}'' # []) =
      Some (map (apsnd (\<lambda>xs. JArr (map JStr xs))) ?ms, [])"
    using length_join_members [of _ ?ms]
    by (intro parse_members_strings False good)
      (fastforce simp: json_Marshal_def max_depth_def)+
  with u show ?thesis
    by (simp add: parse_json_def json_Marshal_def max_depth_def del: parse_members.simps)
qed

text \<open>Decoding the encoded inventory gives it back, whatever well-formed keys it lists.\<close>

theorem json_roundtrip:
  assumes "good_inventory i"
  shows "json_Unmarshal (json_Marshal i) = Some i"
  unfolding json_Unmarshal_def parse_json_Marshal [OF assms]
  by (cases "nm_labels i = []"; cases "nm_annotations i = []")
    (simp_all add: inventory_members_def empty_inventory_def del: fold_name.simps)

lemma json_Marshal_not_Nil [simp]: "json_Marshal i \<noteq> []"
  by (simp add: json_Marshal_def)

section \<open>Reading back what was written\<close>

definition good_keys :: "mns_spec \<Rightarrow> bool" where
  "good_keys sp \<longleftrightarrow>
     list_all valid_utf8 (sorted_keys (sp_labels sp)) \<and>
     list_all valid_utf8 (sorted_keys (sp_annotations sp))"

lemma good_wanted_inventory: "good_keys sp \<Longrightarrow> good_inventory (wanted_inventory sp)"
  by (auto simp: good_keys_def good_inventory_def wanted_inventory_def list_all_iff)

lemma set_wanted_inventory:
  "set (nm_labels (wanted_inventory sp)) = fset (fmdom (sp_labels sp))"
  "set (nm_annotations (wanted_inventory sp)) =
     fset (fmdom (sp_annotations sp)) - {AnnotationManagedMetadata}"
  by (auto simp: wanted_inventory_def)

lemma mutateNamespace_inventory:
  assumes "mutateNamespace mns ns = Inr ns'" and "good_keys (mn_spec mns)"
  shows "namespaceMetadataInventory ns' = Inr (wanted_inventory (mn_spec mns))"
proof -
  obtain i where i: "namespaceMetadataInventory ns = Inr i"
    using assms(1) mutateNamespace_Inl [of mns ns] by (cases "namespaceMetadataInventory ns") auto
  have "gomap_get (om_annotations (ns_meta ns')) AnnotationManagedMetadata =
      Some (json_Marshal (wanted_inventory (mn_spec mns)))"
    by (rule mutateNamespace_Inr [OF i, of mns]) (use assms(1) in auto)
  then show ?thesis
    by (simp add: namespaceMetadataInventory_def gomap_str_def json_roundtrip
        good_wanted_inventory assms(2))
qed

lemma gomap_ext: "m \<noteq> None \<Longrightarrow> n \<noteq> None \<Longrightarrow> (\<And>k. gomap_get m k = gomap_get n k) \<Longrightarrow> m = n"
  by (cases m; cases n) (auto intro: fmap_ext)

lemma gomap_get_not_nil: "gomap_get m k = Some v \<Longrightarrow> m \<noteq> None"
  by (cases m) auto

text \<open>Applied again with the same spec, the mutation changes nothing: the pass is quiet.\<close>

lemma mutateNamespace_idem:
  assumes "mutateNamespace mns ns = Inr ns'" and "good_keys (mn_spec mns)"
  shows "mutateNamespace mns ns' = Inr ns'"
proof -
  obtain i where i: "namespaceMetadataInventory ns = Inr i"
    using assms(1) mutateNamespace_Inl [of mns ns] by (cases "namespaceMetadataInventory ns") auto
  obtain ls as where 1:
    "ns' = ns\<lparr>ns_meta := (ns_meta ns)\<lparr>om_labels := ls, om_annotations := as\<rparr>\<rparr>"
    "\<And>k. gomap_get ls k =
       (if k = LabelOwnerName then Some (mn_name mns)
        else if k = LabelManagedBy then Some ManagedBy
        else case fmlookup (sp_labels (mn_spec mns)) k of Some v \<Rightarrow> Some v
        | None \<Rightarrow> if k \<in> set (nm_labels i) then None else gomap_get (om_labels (ns_meta ns)) k)"
    "\<And>k. gomap_get as k =
       (if k = AnnotationManagedMetadata then Some (json_Marshal (wanted_inventory (mn_spec mns)))
        else case fmlookup (sp_annotations (mn_spec mns)) k of Some v \<Rightarrow> Some v
        | None \<Rightarrow> if k \<in> set (nm_annotations i) then None else gomap_get (om_annotations (ns_meta ns)) k)"
    by (rule mutateNamespace_Inr [OF i, of mns]) (use assms(1) in auto)
  obtain ls' as' where 2:
    "mutateNamespace mns ns' =
       Inr (ns'\<lparr>ns_meta := (ns_meta ns')\<lparr>om_labels := ls', om_annotations := as'\<rparr>\<rparr>)"
    "\<And>k. gomap_get ls' k = gomap_get ls k"
    "\<And>k. gomap_get as' k = gomap_get as k"
    by (rule mutateNamespace_Inr [OF mutateNamespace_inventory [OF assms], of mns])
      (auto simp: 1 set_wanted_inventory fmdom_notI split: option.split intro: fmdomI)
  have "ls \<noteq> None" "ls' \<noteq> None"
    by (rule gomap_get_not_nil [of _ LabelOwnerName "mn_name mns"], simp add: 1(2) 2(2))+
  moreover have "as \<noteq> None" "as' \<noteq> None"
    by (rule gomap_get_not_nil [of _ AnnotationManagedMetadata], simp add: 1(3) 2(3))+
  ultimately have "ls' = ls \<and> as' = as"
    using gomap_ext [of ls' ls] gomap_ext [of as' as] 2(2,3) by blast
  with 1(1) 2(1) show ?thesis by simp
qed

end
