(* ===== verification/Binding_Ops.thy ===== *)
theory Binding_Ops
  imports Kube_Api
begin

text \<open>
  The fragments the two reconcilers have in common word for word: deleting with a missing object
  forgiven, the mutation of a binding, the validity test of a mapping, the Ready condition. Each is
  inlined twice in the source; the map names one of the places.
\<close>

section \<open>Deleting, with a missing object forgiven\<close>

text \<open>
  The fragment every prune and finalizer loop repeats: delete, return any error but NotFound, log a
  deletion that happened.
\<close>

definition deleteTolerant ::
  "'s env \<Rightarrow> kind \<Rightarrow> ('s, 'o) kind_client \<Rightarrow> ('o \<Rightarrow> object_meta) \<Rightarrow> ('s, unit) io \<Rightarrow> 'o \<Rightarrow> ('s, unit) io" where
  "deleteTolerant r kd c meta onDeleted it =
     bindE (attempt (api VDelete kd (meta_key (meta it)) (k_delete c it)))
       (\<lambda>res. case res of
           Inl e \<Rightarrow> if \<not> isNotFound r e then throw e else ret ()
         | Inr _ \<Rightarrow> onDeleted)"

section \<open>Bindings\<close>

definition clusterRoleRef :: "string \<Rightarrow> role_ref" where
  "clusterRoleRef role =
     \<lparr>rr_apiGroup = rbac_GroupName, rr_kind = ''ClusterRole'', rr_name = role\<rparr>"

definition empty_roleRef :: role_ref where
  "empty_roleRef = \<lparr>rr_apiGroup = [], rr_kind = [], rr_name = []\<rparr>"

definition binding_template :: "string \<Rightarrow> string \<Rightarrow> binding" where
  "binding_template namespace name =
     \<lparr>b_meta = empty_meta\<lparr>om_name := name, om_namespace := namespace\<rparr>,
      b_roleRef = empty_roleRef, b_subjects = []\<rparr>"

definition mutateBinding :: "string \<Rightarrow> role_ref \<Rightarrow> subject list \<Rightarrow> binding \<Rightarrow> error + binding" where
  "mutateBinding owner want subjects b =
     Inr (b\<lparr>b_meta := (b_meta b)\<lparr>om_labels := ownerLabels owner\<rparr>,
            b_roleRef := want, b_subjects := subjects\<rparr>)"

definition mappingErrors :: "access_mapping \<Rightarrow> string list" where
  "mappingErrors am =
     (if subjectsFor am = [] then [''access mapping has no subjects''] else []) @
     (if am_clusterRoles am = [] then [''access mapping has no cluster roles''] else [])"

text \<open>The role references of a mapping, none if it is invalid.\<close>

definition mappingEntries :: "access_mapping \<Rightarrow> (access_mapping \<times> string) list" where
  "mappingEntries am = (if mappingErrors am = [] then map (Pair am) (am_clusterRoles am) else [])"

section \<open>Reporting\<close>

definition readyCondition ::
  "'s env \<Rightarrow> int \<Rightarrow> string \<Rightarrow> invalid_reference list \<Rightarrow> error option \<Rightarrow> condition" where
  "readyCondition r generation okMessage invalid syncErr =
     (let (st, reason, message) =
        (case syncErr of
           Some e \<Rightarrow> (''False'', ''SyncFailed'', conditionMessage r e)
         | None \<Rightarrow>
             if invalid \<noteq> [] then
               (''False'', ''InvalidReferences'', ''One or more ClusterRole references are invalid'')
             else (''True'', ''Reconciled'', okMessage))
      in \<lparr>c_type = ''Ready'', c_status = st, c_reason = reason, c_message = message,
          c_observedGeneration = generation, c_lastTransitionTime = 0\<rparr>)"

text \<open>An error value as the reconcile returns it: nil is \<open>None\<close>.\<close>

definition as_error :: "error + 'a \<Rightarrow> error option" where
  "as_error x = (case x of Inl e \<Rightarrow> Some e | Inr _ \<Rightarrow> None)"

lemma mappingErrors_Nil_iff [simp]:
  "mappingErrors am = [] \<longleftrightarrow> subjectsFor am \<noteq> [] \<and> am_clusterRoles am \<noteq> []"
  by (simp add: mappingErrors_def del: subjectsFor_Nil_iff)

section \<open>What the shared fragments do\<close>

lemma wp_logResourceChange [wp_rules]:
  assumes "\<And>evs. Q (Inr ()) (w\<lparr>trace := trace w @ evs\<rparr>)"
  shows "wp (logResourceChange res kn ns n ok on) Q w"
  using assms assms [of "[]"] by (cases res) (simp_all add: logResourceChange_def)

lemma wp_logResourceDeleted [wp_rules]:
  assumes "\<And>evs. Q (Inr ()) (w\<lparr>trace := trace w @ evs\<rparr>)"
  shows "wp (logResourceDeleted kn ns n ok on) Q w"
  using assms by (simp add: logResourceDeleted_def)

text \<open>A tolerant delete that returns no error has left nothing in force under the key.\<close>

context kind_laws begin

lemma wp_deleteTolerant:
  assumes "nf = isNotFound r"
    and "\<And>w'. touches live cache {(kd, meta_key (meta it))} (ext w) (ext w') \<Longrightarrow>
      (\<forall>ob'. live (ext w') (kd, meta_key (meta it)) = Some (wrap ob') \<longrightarrow> terminating (meta ob')) \<Longrightarrow>
      Q (Inr ()) w'"
    and "\<And>e w'. touches live cache {(kd, meta_key (meta it))} (ext w) (ext w') \<Longrightarrow> \<not> isNotFound r e \<Longrightarrow>
      Q (Inl e) w'"
  shows "wp (deleteTolerant r kd cl meta (logResourceDeleted kn ns n ok on) it) Q w"
  unfolding deleteTolerant_def wp_bindE wp_attempt
proof (rule wp_delete, goal_cases)
  case (1 s')
  then show ?case by (auto intro!: wp_logResourceDeleted assms(2))
next
  case (2 e s')
  then show ?case using assms(1) by (auto intro!: assms(2,3))
qed

text \<open>
  A loop of deletions over what a list showed: whatever it skips is kept or already terminating, and
  when it completes nothing else is in force.
\<close>

lemma wp_prune_loop:
  assumes "nf = isNotFound r"
    and "\<forall>ob. live (ext w) (kd, meta_key (meta ob)) = Some (wrap ob) \<longrightarrow> own (meta ob) \<longrightarrow>
      meta_key (meta ob) \<in> W \<or> terminating (meta ob) \<or> ob \<in> set items"
    and "\<And>it. it \<in> set items \<Longrightarrow> \<not> rm it \<Longrightarrow> meta_key (meta it) \<in> W \<or> terminating (meta it)"
  shows "wp (for_each (\<lambda>it. if rm it then deleteTolerant r kd cl meta
      (logResourceDeleted (kn it) (ns it) (n it) (ok it) (on it)) it else ret ()) items)
    (\<lambda>x w'. x = Inr () \<longrightarrow> (\<forall>ob. live (ext w') (kd, meta_key (meta ob)) = Some (wrap ob) \<longrightarrow>
       own (meta ob) \<longrightarrow> meta_key (meta ob) \<in> W \<or> terminating (meta ob))) w"
proof (rule wp_for_each [where I = "\<lambda>done w. \<forall>ob.
      live (ext w) (kd, meta_key (meta ob)) = Some (wrap ob) \<longrightarrow> own (meta ob) \<longrightarrow>
      meta_key (meta ob) \<in> W \<or> terminating (meta ob) \<or> ob \<in> set items - set done"], goal_cases)
  case (2 "done" it todo w)
  let ?left = "\<lambda>done w. \<forall>ob. live (ext w) (kd, meta_key (meta ob)) = Some (wrap ob) \<longrightarrow>
    own (meta ob) \<longrightarrow>
    meta_key (meta ob) \<in> W \<or> terminating (meta ob) \<or> ob \<in> set items - set done"
  have step: "?left (done @ [it]) w'"
    if "touches live cache {(kd, meta_key (meta it))} (ext w) (ext w')"
      and "\<forall>ob. live (ext w') (kd, meta_key (meta it)) = Some (wrap ob) \<longrightarrow> terminating (meta ob)" for w'
    using that(2) \<open>?left done w\<close> touches_live [OF that(1)]
    by (metis Diff_iff prod.inject set_append Un_iff list.set(1,2) empty_iff insert_iff)
  have skip: "?left (done @ [it]) w" if "\<not> rm it"
    using 2 assms(3) [OF _ that] by auto
  show ?case
  proof (cases "rm it")
    case True
    show ?thesis
      unfolding if_P [OF True]
    proof (rule wp_deleteTolerant [OF assms(1)], goal_cases)
      case (1 w')
      from step [OF 1] show ?case unfolding sum.case .
    qed simp
  qed (use skip in simp)
qed (use assms(2) in auto)

end

end
