(* ===== verification/Managed_Namespace.thy ===== *)
theory Managed_Namespace
  imports Inventory Binding_Ops
begin

text \<open>
  \<open>internal/controller/managednamespace.go\<close>: the reconciler of ManagedNamespaces, operation by
  operation in the order of a pass. The receiver \<open>r\<close> is the environment of library functions.
\<close>

section \<open>Selecting owned objects\<close>

definition ownedBy :: "managed_namespace \<Rightarrow> list_option list" where
  "ownedBy mns = [InNamespace (mn_name mns), MatchingLabels (ownerLabelMap (mn_name mns))]"

section \<open>Finalizing\<close>

definition finalizeBindings :: "'s env \<Rightarrow> managed_namespace \<Rightarrow> ('s, bool) io" where
  "finalizeBindings r mns =
     bindE (api VLiveList KRoleBinding (mn_name mns, []) (e_live_rb r (ownedBy mns)))
       (\<lambda>items.
          if items = [] then ret True
          else bindE
            (for_each (\<lambda>it.
               if terminating (b_meta it) then ret ()
               else deleteTolerant r KRoleBinding (e_rb r) b_meta
                 (logResourceDeleted ''RoleBinding'' (om_namespace (b_meta it)) (om_name (b_meta it))
                    ''ManagedNamespace'' (mn_name mns)) it) items)
            (\<lambda>_. ret False))"

section \<open>Pruning\<close>

text \<open>\<open>want\<close> is a map used as a set; \<open>None\<close> is the nil map, which removes everything owned.\<close>

definition pruneBindings ::
  "'s env \<Rightarrow> managed_namespace \<Rightarrow> objkey set option \<Rightarrow> ('s, unit) io" where
  "pruneBindings r mns want =
     bindE (api VList KRoleBinding (mn_name mns, []) (k_list (e_rb r) (ownedBy mns)))
       (for_each (\<lambda>it.
          if (case want of None \<Rightarrow> True | Some W \<Rightarrow> b_key it \<notin> W) then
            deleteTolerant r KRoleBinding (e_rb r) b_meta
              (logResourceDeleted ''RoleBinding'' (om_namespace (b_meta it)) (om_name (b_meta it))
                 ''ManagedNamespace'' (mn_name mns)) it
          else ret ()))"

definition pruneQuotas :: "'s env \<Rightarrow> managed_namespace \<Rightarrow> string set \<Rightarrow> ('s, unit) io" where
  "pruneQuotas r mns want =
     bindE (api VList KResourceQuota (mn_name mns, [])
         (k_list (e_quota r) [InNamespace (mn_name mns), MatchingLabels (ownerLabelMap (mn_name mns))]))
       (for_each (\<lambda>it.
          if om_name (q_meta it) \<notin> want then
            deleteTolerant r KResourceQuota (e_quota r) q_meta
              (logResourceDeleted ''ResourceQuota'' (om_namespace (q_meta it)) (om_name (q_meta it))
                 ''ManagedNamespace'' (mn_name mns)) it
          else ret ()))"

section \<open>The Namespace and its quotas\<close>

definition namespace_template :: "managed_namespace \<Rightarrow> namespace_obj" where
  "namespace_template mns = \<lparr>ns_meta = empty_meta\<lparr>om_name := mn_name mns\<rparr>\<rparr>"

definition ensureNamespace :: "'s env \<Rightarrow> managed_namespace \<Rightarrow> ('s, unit) io" where
  "ensureNamespace r mns =
     bindE (api VCreateOrUpdate KNamespace ([], mn_name mns)
         (k_createOrUpdate (e_ns r) (mutateNamespace mns) (namespace_template mns)))
       (\<lambda>(res, ns).
          logResourceChange res ''Namespace'' [] (om_name (ns_meta ns)) ''ManagedNamespace'' (mn_name mns))"

definition empty_quota_spec :: quota_spec where
  "empty_quota_spec = \<lparr>qs_hard = fmempty, qs_scopes = [], qs_scopeSelector = None\<rparr>"

definition quota_template :: "managed_namespace \<Rightarrow> resource_quota \<Rightarrow> quota_obj" where
  "quota_template mns q =
     \<lparr>q_meta = empty_meta\<lparr>om_name := rq_name q, om_namespace := mn_name mns\<rparr>,
      q_spec = empty_quota_spec\<rparr>"

definition mutateQuota :: "managed_namespace \<Rightarrow> resource_quota \<Rightarrow> quota_obj \<Rightarrow> error + quota_obj" where
  "mutateQuota mns q rq =
     Inr (rq\<lparr>q_meta := (q_meta rq)\<lparr>om_labels := ownerLabels (mn_name mns)\<rparr>, q_spec := rq_spec q\<rparr>)"

text \<open>The body of the loop over the spec's quotas; \<open>want\<close> is the set of names kept.\<close>

definition quotaStep ::
  "'s env \<Rightarrow> managed_namespace \<Rightarrow> string set \<Rightarrow> nat \<times> resource_quota \<Rightarrow> ('s, string set) io" where
  "quotaStep r mns want iq =
     (case iq of (i, q) \<Rightarrow>
        if rq_name q = [] then
          bindE (emit (LogError [''resource quota name is empty'',
              ''Skipping resource quota that should have been rejected by CRD validation'',
              mn_name mns] (Some i)))
            (\<lambda>_. ret want)
        else
          bindE (api VCreateOrUpdate KResourceQuota (mn_name mns, rq_name q)
              (k_createOrUpdate (e_quota r) (mutateQuota mns q) (quota_template mns q)))
            (\<lambda>(res, rq).
               bindE (logResourceChange res ''ResourceQuota'' (om_namespace (q_meta rq))
                   (om_name (q_meta rq)) ''ManagedNamespace'' (mn_name mns))
                 (\<lambda>_. ret (insert (rq_name q) want))))"

definition reconcileQuota :: "'s env \<Rightarrow> managed_namespace \<Rightarrow> ('s, unit) io" where
  "reconcileQuota r mns =
     bindE (fold_io (quotaStep r mns) {} (List.enumerate 0 (sp_resourceQuotas (mn_spec mns))))
       (pruneQuotas r mns)"

section \<open>Bindings\<close>

definition ensureRoleBinding ::
  "'s env \<Rightarrow> managed_namespace \<Rightarrow> string \<Rightarrow> string \<Rightarrow> subject list \<Rightarrow> ('s, unit) io" where
  "ensureRoleBinding r mns name role subjects =
     (let want = clusterRoleRef role; key = (mn_name mns, name);
          fresh = binding_template (mn_name mns) name
      in bindE (attempt (api VGet KRoleBinding key (k_get (e_rb r) key)))
        (\<lambda>got.
           bindE (case got of
               Inl e \<Rightarrow> ret fresh
             | Inr obj \<Rightarrow>
                 if b_roleRef obj \<noteq> want then
                   bindE (api VDelete KRoleBinding (b_key obj) (k_delete (e_rb r) obj))
                     (\<lambda>_. bindE (logResourceDeleted ''RoleBinding'' (om_namespace (b_meta obj))
                         (om_name (b_meta obj)) ''ManagedNamespace'' (mn_name mns))
                       (\<lambda>_. ret fresh))
                 else ret obj)
             (\<lambda>obj.
                bindE (api VCreateOrUpdate KRoleBinding (b_key obj)
                    (k_createOrUpdate (e_rb r) (mutateBinding (mn_name mns) want subjects) obj))
                  (\<lambda>(res, b).
                     logResourceChange res ''RoleBinding'' (om_namespace (b_meta b))
                       (om_name (b_meta b)) ''ManagedNamespace'' (mn_name mns)))))"

text \<open>The body of the loop over a mapping's ClusterRoles; the locals are \<open>invalid\<close> and \<open>want\<close>.\<close>

definition bindRole ::
  "'s env \<Rightarrow> managed_namespace \<Rightarrow> string \<Rightarrow> subject list \<Rightarrow>
   invalid_reference list \<times> objkey set \<Rightarrow> string \<Rightarrow>
   ('s, invalid_reference list \<times> objkey set) io" where
  "bindRole r mns key subjects acc role =
     bindE (attempt (api VGet KClusterRole ([], role) (k_get (e_role r) ([], role))))
       (\<lambda>got. case got of
           Inl e \<Rightarrow>
             if \<not> isNotFound r e then throw e
             else ret (fst acc @ [\<lparr>ir_clusterRole = role, ir_reason = ''ClusterRole not found''\<rparr>], snd acc)
         | Inr _ \<Rightarrow>
             (let name = BindingName (mn_name mns) key role in
              bindE (ensureRoleBinding r mns name role subjects)
                (\<lambda>_. ret (fst acc, insert (mn_name mns, name) (snd acc)))))"

definition bindMapping ::
  "'s env \<Rightarrow> managed_namespace \<Rightarrow> invalid_reference list \<times> objkey set \<Rightarrow> nat \<times> access_mapping \<Rightarrow>
   ('s, invalid_reference list \<times> objkey set) io" where
  "bindMapping r mns acc iam =
     (case iam of (i, am) \<Rightarrow>
        bindE (for_each (\<lambda>msg. emit (LogError [msg,
            ''Skipping access mapping that should have been rejected by CRD validation'',
            mn_name mns] (Some i))) (mappingErrors am))
          (\<lambda>_. if mappingErrors am \<noteq> [] then ret acc
             else fold_io (bindRole r mns (subjectKey am) (subjectsFor am)) acc (am_clusterRoles am)))"

definition reconcileBindings ::
  "'s env \<Rightarrow> managed_namespace \<Rightarrow> ('s, invalid_reference list) io" where
  "reconcileBindings r mns =
     bindE (fold_io (bindMapping r mns) ([], {})
         (List.enumerate 0 (sp_accessMappings (mn_spec mns))))
       (\<lambda>(invalid, want).
          bindE (pruneBindings r mns (Some want)) (\<lambda>_. ret invalid))"

section \<open>A pass\<close>

text \<open>The keys the spec asks for, whether or not the ClusterRoles exist.\<close>

definition specBindings :: "managed_namespace \<Rightarrow> objkey set" where
  "specBindings mns =
     fold (\<lambda>am want.
         if am_group am = [] \<and> am_users am = [] then want
         else fold (\<lambda>role. insert (mn_name mns, BindingName (mn_name mns) (subjectKey am) role))
                (am_clusterRoles am) want)
       (sp_accessMappings (mn_spec mns)) {}"

definition sync :: "'s env \<Rightarrow> managed_namespace \<Rightarrow> ('s, invalid_reference list) io" where
  "sync r mns =
     bindE (pruneBindings r mns (Some (specBindings mns)))
       (\<lambda>_. bindE (ensureNamespace r mns)
         (\<lambda>_. bindE (reconcileQuota r mns)
           (\<lambda>_. reconcileBindings r mns)))"

definition status ::
  "'s env \<Rightarrow> managed_namespace \<Rightarrow> invalid_reference list \<Rightarrow> error option \<Rightarrow> ('s, unit) io" where
  "status r mns invalid syncErr =
     bindE (if syncErr = None then emit (GaugeSet ''managednamespace'' (mn_name mns) (length invalid))
            else ret ())
       (\<lambda>_. bindE (gets (\<lambda>s.
            let gen = om_generation (mn_meta mns);
                st = mn_status mns;
                st' = (if syncErr = None
                       then st\<lparr>ms_observedGeneration := gen, ms_invalidReferences := invalid\<rparr> else st);
                cond = readyCondition r gen ''Namespace, quotas, and bindings are in sync'' invalid syncErr
            in mns\<lparr>mn_status :=
                 st'\<lparr>ms_conditions := setStatusCondition r s (ms_conditions st') cond\<rparr>\<rparr>))
         (\<lambda>mns'. api VStatusPatch KManagedNamespace (meta_key (mn_meta mns))
            (k_statusPatch (e_mns r) mns mns')))"

definition patchFinalizer ::
  "'s env \<Rightarrow> managed_namespace \<Rightarrow> object_meta \<Rightarrow> ('s, error + unit) io" where
  "patchFinalizer r mns m =
     attempt (api VPatch KManagedNamespace (meta_key (mn_meta mns))
       (k_patch (e_mns r) True mns (mns\<lparr>mn_meta := m\<rparr>)))"

definition Reconcile :: "'s env \<Rightarrow> objkey \<Rightarrow> ('s, result \<times> reconcile_error option) io" where
  "Reconcile r q =
     bindE (attempt (api VGet KManagedNamespace q (k_get (e_mns r) q)))
       (\<lambda>got. case got of
          Inl e \<Rightarrow> ret (empty_result, if isNotFound r e then None else Some (Retry e))
        | Inr mns \<Rightarrow>
            if terminating (mn_meta mns) then
              bindE (attempt (finalizeBindings r mns))
                (\<lambda>gone. case gone of
                   Inl e \<Rightarrow> ret (empty_result, Some (Retry e))
                 | Inr g \<Rightarrow>
                     if \<not> g then ret (empty_result\<lparr>r_requeueAfter := finalizerRetryAfter\<rparr>, None)
                     else bindE (emit (GaugeDelete ''managednamespace'' (mn_name mns)))
                       (\<lambda>_. bindE (patchFinalizer r mns (removeFinalizer r (mn_meta mns) Finalizer))
                         (\<lambda>p. ret (empty_result, map_option Retry (as_error p)))))
            else if \<not> containsFinalizer r (mn_meta mns) Finalizer then
              bindE (patchFinalizer r mns (addFinalizer r (mn_meta mns) Finalizer))
                (\<lambda>p. ret (empty_result\<lparr>r_requeue := True\<rparr>, map_option Retry (as_error p)))
            else
              bindE (attempt (sync r mns))
                (\<lambda>s. let syncErr = as_error s;
                         invalid = (case s of Inl _ \<Rightarrow> [] | Inr xs \<Rightarrow> xs)
                  in bindE (attempt (status r mns invalid syncErr))
                    (\<lambda>st. case st of
                       Inl e \<Rightarrow> ret (empty_result, map_option Retry (errors_join [syncErr, Some e]))
                     | Inr _ \<Rightarrow> ret (empty_result, terminal r syncErr))))"

section \<open>What triggers a pass\<close>

text \<open>\<open>all\<close>: a changed ClusterRole enqueues every ManagedNamespace the cache lists.\<close>

definition all_requests :: "'s env \<Rightarrow> object_meta \<Rightarrow> ('s, objkey list) io" where
  "all_requests r obj =
     bindE (attempt (api VList KManagedNamespace ([], []) (k_list (e_mns r) [])))
       (\<lambda>l. case l of
          Inl e \<Rightarrow>
            bindE (emit (LogError [error_text (jsonErrorText r) e,
                ''Unable to list ManagedNamespaces while enqueueing ClusterRole dependents'',
                om_name obj] None))
              (\<lambda>_. ret [])
        | Inr items \<Rightarrow> ret (map (\<lambda>m. meta_key (mn_meta m)) items))"

text \<open>\<open>Setup\<close>: the requests a change of an object of each kind enqueues.\<close>

definition enqueued :: "'s env \<Rightarrow> kind \<Rightarrow> object_meta \<Rightarrow> ('s, objkey list) io" where
  "enqueued r kd obj =
     (case kd of
        KManagedNamespace \<Rightarrow> ret [meta_key obj]
      | KClusterRole \<Rightarrow> all_requests r obj
      | KNamespace \<Rightarrow> ret (ownerRequests obj)
      | KResourceQuota \<Rightarrow> ret (ownerRequests obj)
      | KRoleBinding \<Rightarrow> ret (ownerRequests obj)
      | _ \<Rightarrow> ret [])"

end
