(* ===== verification/Pass_Invariants.thy ===== *)
theory Pass_Invariants
  imports Binding_Ops
begin

text \<open>
  What a pass may do to the outside, as a contract. An invariant of worlds that survives the
  requests a reconciler is entitled to (\<open>req\<close>), writes of its own objects (\<open>own\<close>) and deletions
  of objects a list showed it as droppable survives the whole pass; each reconciler proves that
  once, and the safety properties are instances of it.
\<close>

section \<open>What a list may have shown, and what a delete can do\<close>

text \<open>The object the server or the cache holds at \<open>x\<close>.\<close>

definition seen :: "('s \<Rightarrow> table) \<Rightarrow> ('s \<Rightarrow> table) \<Rightarrow> 's \<Rightarrow> kind \<times> objkey \<Rightarrow> obj \<Rightarrow> bool" where
  "seen live cache s x ob \<longleftrightarrow> live s x = Some ob \<or> cache s x = Some ob"

text \<open>
  A deletion, successful or not, leaves the object as it was, or gone, or terminating.
\<close>

definition dropped :: "('s \<Rightarrow> table) \<Rightarrow> kind \<times> objkey \<Rightarrow> 's \<Rightarrow> 's \<Rightarrow> bool" where
  "dropped live x s s' \<longleftrightarrow>
     live s' x = live s x \<or> (\<forall>ob. live s' x = Some ob \<longrightarrow> terminating (obj_meta ob))"

text \<open>
  Nothing happened to \<open>x\<close> on the server; the cache may have caught up with it. Unlike \<open>touches\<close>
  this composes.
\<close>

definition still :: "('s \<Rightarrow> table) \<Rightarrow> ('s \<Rightarrow> table) \<Rightarrow> kind \<times> objkey \<Rightarrow> 's \<Rightarrow> 's \<Rightarrow> bool" where
  "still live cache x s s' \<longleftrightarrow>
     live s' x = live s x \<and> (cache s' x = cache s x \<or> cache s' x = live s x)"

lemma still_refl [simp]: "still live cache x s s"
  by (simp add: still_def)

lemma still_trans: "still live cache x s s' \<Longrightarrow> still live cache x s' s'' \<Longrightarrow> still live cache x s s''"
  by (auto simp: still_def)

lemma touches_still:
  assumes "touches live cache Y s s'" and "x \<notin> Y"
  shows "still live cache x s s'"
proof -
  have "live s' x = live s x" by (rule touches_live [OF assms])
  then show ?thesis using touches_cache [OF assms(1), of x] by (simp add: still_def)
qed

lemma still_touches:
  assumes "still live cache x s s'" and "touches live cache Y s' s''" and "x \<notin> Y"
  shows "still live cache x s s''"
  by (rule still_trans [OF assms(1) touches_still [OF assms(2,3)]])

lemma still_caught_up:
  "still live cache x s s' \<Longrightarrow> cache s x = live s x \<Longrightarrow> cache s' x = live s x \<and> live s' x = live s x"
  by (auto simp: still_def)

text \<open>The informers have caught up with the server at one kind.\<close>

definition fresh :: "('s \<Rightarrow> table) \<Rightarrow> ('s \<Rightarrow> table) \<Rightarrow> kind \<Rightarrow> 's \<Rightarrow> bool" where
  "fresh live cache kd s \<longleftrightarrow> (\<forall>k. cache s (kd, k) = live s (kd, k))"

lemma freshD: "fresh live cache kd s \<Longrightarrow> cache s (kd, k) = live s (kd, k)"
  unfolding fresh_def by blast

fun is_Api :: "event \<Rightarrow> bool" where
  "is_Api (Api v k a b ok) = True"
| "is_Api _ = False"

text \<open>The event a request on \<open>x\<close> leaves behind.\<close>

definition request :: "verb \<Rightarrow> kind \<times> objkey \<Rightarrow> bool \<Rightarrow> event" where
  "request v x ok = Api v (fst x) (fst (snd x)) (snd (snd x)) ok"

text \<open>A deletion through a lawful client.\<close>

context kind_laws begin

lemma delete_dropped:
  assumes "k_delete cl ob s = (x, s')"
  shows "dropped live (kd, meta_key (meta ob)) s s'"
  using delete_effect [OF assms] live_typed [of s' "meta_key (meta ob)"] unfolding dropped_def
  by fastforce

lemma delete_touches_dropped:
  "k_delete cl ob s = (x, s') \<Longrightarrow> touches live cache {(kd, meta_key (meta ob))} s s' \<and>
     dropped live (kd, meta_key (meta ob)) s s'"
  using delete_frame delete_dropped by blast

lemma list_seen: "k_list cl opts s = (Inr obs, s') \<Longrightarrow> ob \<in> set obs \<Longrightarrow>
    seen live cache s (kd, meta_key (meta ob)) (wrap ob) \<and> selects opts (meta ob)"
  using list_items unfolding seen_def by blast

end

section \<open>The contract\<close>

locale pass_invariant = kube_env r live cache
  for r :: "'s env" and live cache :: "'s \<Rightarrow> table" +
  fixes I :: "'s world \<Rightarrow> bool"
    and req :: "event \<Rightarrow> bool"
    and own :: "(kind \<times> objkey) set"
    and droppable :: "kind \<times> objkey \<Rightarrow> obj \<Rightarrow> bool"
  assumes noted: "I w \<Longrightarrow> req ev \<Longrightarrow> \<not> is_Api ev \<Longrightarrow> I (w\<lparr>trace := trace w @ [ev]\<rparr>)"
    and read: "I w \<Longrightarrow> touches live cache {} (ext w) s' \<Longrightarrow> req (request v x ok) \<Longrightarrow>
      I (w\<lparr>ext := s', trace := trace w @ [request v x ok]\<rparr>)"
    and own_write: "I w \<Longrightarrow> touches live cache {x} (ext w) s' \<Longrightarrow> x \<in> own \<Longrightarrow>
      req (request v x ok) \<Longrightarrow> I (w\<lparr>ext := s', trace := trace w @ [request v x ok]\<rparr>)"
    and drop: "I w \<Longrightarrow> I w1 \<Longrightarrow> seen live cache (ext w1) x ob \<Longrightarrow> droppable x ob \<Longrightarrow>
      touches live cache {x} (ext w) s' \<Longrightarrow> dropped live x (ext w) s' \<Longrightarrow> req (request VDelete x ok) \<Longrightarrow>
      I (w\<lparr>ext := s', trace := trace w @ [request VDelete x ok]\<rparr>)"
begin

lemma keeps_note: "req ev \<Longrightarrow> \<not> is_Api ev \<Longrightarrow> keeps I (emit ev)"
  by (rule keeps_emit) (rule noted)

lemma keeps_read:
  assumes "\<And>s x s'. op s = (x, s') \<Longrightarrow> touches live cache {} s s'"
    and "\<And>ok. req (Api v kd (fst key) (snd key) ok)"
  shows "keeps I (api v kd key op)"
  using assms read [of _ _ v "(kd, key)"] by (auto intro!: keeps_api simp: request_def)

lemma keeps_own:
  assumes "\<And>s x s'. op s = (x, s') \<Longrightarrow> touches live cache {(kd, key)} s s'"
    and "\<And>ok. req (Api v kd (fst key) (snd key) ok)" and "(kd, key) \<in> own"
  shows "keeps I (api v kd key op)"
  using assms own_write [of _ "(kd, key)" _ v] by (auto intro!: keeps_api simp: request_def)

lemma keeps_drop:
  assumes "\<And>s x s'. op s = (x, s') \<Longrightarrow>
      touches live cache {(kd, key)} s s' \<and> dropped live (kd, key) s s'"
    and "\<And>ok. req (Api VDelete kd (fst key) (snd key) ok)"
    and "I w1" and "seen live cache (ext w1) (kd, key) ob" and "droppable (kd, key) ob"
  shows "keeps I (api VDelete kd key op)"
  using assms drop [of _ w1 "(kd, key)" ob] by (auto intro!: keeps_api simp: request_def)

lemma keeps_delete:
  assumes "kind_laws live cache kd wrap meta strip nf cl"
    and "\<And>ok. req (Api VDelete kd (fst (meta_key (meta it))) (snd (meta_key (meta it))) ok)"
    and "I w1" and "seen live cache (ext w1) (kd, meta_key (meta it)) (wrap it)"
    and "droppable (kd, meta_key (meta it)) (wrap it)"
  shows "keeps I (api VDelete kd (meta_key (meta it)) (k_delete cl it))"
  by (rule keeps_drop [OF kind_laws.delete_touches_dropped [OF assms(1)] assms(2-5)])

lemma keeps_logResourceChange:
  "(\<And>xs. req (LogInfo xs)) \<Longrightarrow> keeps I (logResourceChange res kd ns n ok on)"
  by (cases res) (simp_all add: logResourceChange_def keeps_note)

lemma keeps_logResourceDeleted:
  "(\<And>xs. req (LogInfo xs)) \<Longrightarrow> keeps I (logResourceDeleted kd ns n ok on)"
  by (simp add: logResourceDeleted_def keeps_note)

end

section \<open>Deleting\<close>

lemma keeps_deleteTolerant:
  assumes "keeps I (api VDelete kd (meta_key (meta it)) (k_delete c it))" and "keeps I m"
  shows "keeps I (deleteTolerant r kd c meta m it)"
  unfolding deleteTolerant_def
  by (rule keeps_bindE, rule keeps_attempt, rule assms(1)) (auto simp: assms(2) split: sum.split)

text \<open>A prune does not move what its test spares.\<close>

context kind_laws begin

lemma keeps_prune_still:
  assumes "\<And>it. rm it \<Longrightarrow> x \<noteq> (kd, meta_key (meta it))"
  shows "keeps (\<lambda>w'. still live cache x s (ext w')) (bindE (api v kk key (k_list cl opts))
    (for_each (\<lambda>it. if rm it then deleteTolerant r kd cl meta
       (logResourceDeleted (kn it) (ns it) (n it) (ok it) (on it)) it else ret ())))"
proof (rule keeps_bindE, goal_cases)
  case 1
  show ?case
  proof (rule keeps_api, goal_cases)
    case (1 w1 y s')
    then show ?case using still_touches [OF _ list_frame [OF 1(2)]] by simp
  qed
next
  case (2 items w1 w2)
  have "keeps (\<lambda>w'. still live cache x s (ext w')) (deleteTolerant r kd cl meta
      (logResourceDeleted (kn it) (ns it) (n it) (ok it) (on it)) it)" if "rm it" for it
  proof (intro keeps_deleteTolerant keeps_api, goal_cases)
    case (1 w1 y s')
    then show ?case using still_touches [OF 1(1) delete_frame [OF 1(2)]] assms [OF that] by simp
  next
    case 2
    then show ?case by (simp add: logResourceDeleted_def keeps_emit)
  qed
  then show ?case by (auto intro!: keeps_for_each)
qed

end

end
