(* ===== verification/Mns_Frame.thy ===== *)
theory Mns_Frame
  imports Managed_Namespace Pass_Invariants
begin

text \<open>
  What a pass over one ManagedNamespace is entitled to do, and that it does no more: the requests it
  may make, the objects that are its own, and the structural proof that every operation keeps every
  invariant of \<open>pass_invariant\<close> for these.
\<close>

section \<open>Entitlement\<close>

text \<open>What revoking needs: list the owned bindings of the namespace, delete in it, and log.\<close>

fun mnsRevokes :: "managed_namespace \<Rightarrow> event \<Rightarrow> bool" where
  "mnsRevokes mns (Api v kd ns nm ok) =
     (kd = KRoleBinding \<and> ns = mn_name mns \<and> (v = VList \<or> v = VLiveList \<or> v = VDelete))"
| "mnsRevokes mns (LogInfo xs) = True"
| "mnsRevokes mns ev = False"

text \<open>What a pass over a terminating one may do besides: read and patch the resource, drop the gauge.\<close>

fun mnsFinal :: "managed_namespace \<Rightarrow> event \<Rightarrow> bool" where
  "mnsFinal mns (Api v kd ns nm ok) =
     (case (kd, v) of
        (KRoleBinding, VDelete) \<Rightarrow> ns = mn_name mns
      | (KRoleBinding, VList) \<Rightarrow> ns = mn_name mns
      | (KRoleBinding, VLiveList) \<Rightarrow> ns = mn_name mns
      | (KManagedNamespace, VGet) \<Rightarrow> (ns, nm) = meta_key (mn_meta mns)
      | (KManagedNamespace, VPatch) \<Rightarrow> (ns, nm) = meta_key (mn_meta mns)
      | _ \<Rightarrow> False)"
| "mnsFinal mns (GaugeDelete c n) = (c = ''managednamespace'' \<and> n = mn_name mns)"
| "mnsFinal mns (LogInfo xs) = True"
| "mnsFinal mns ev = False"

text \<open>What a pass over a live ManagedNamespace may do.\<close>

definition quotaKeys :: "managed_namespace \<Rightarrow> objkey set" where
  "quotaKeys mns = (\<lambda>q. (mn_name mns, rq_name q)) ` set (sp_resourceQuotas (mn_spec mns))"

fun mnsProvisions :: "managed_namespace \<Rightarrow> event \<Rightarrow> bool" where
  "mnsProvisions mns (Api v kd ns nm ok) =
     (case (kd, v) of
        (KResourceQuota, VDelete) \<Rightarrow> ns = mn_name mns
      | (KResourceQuota, VList) \<Rightarrow> ns = mn_name mns
      | (KResourceQuota, VCreateOrUpdate) \<Rightarrow> (ns, nm) \<in> quotaKeys mns
      | (KNamespace, VCreateOrUpdate) \<Rightarrow> (ns, nm) = ([], mn_name mns)
      | _ \<Rightarrow> False)"
| "mnsProvisions mns (LogInfo xs) = True"
| "mnsProvisions mns (LogError xs i) = True"
| "mnsProvisions mns ev = False"

fun mnsRequest :: "managed_namespace \<Rightarrow> event \<Rightarrow> bool" where
  "mnsRequest mns (Api v kd ns nm ok) =
     (case (kd, v) of
        (KRoleBinding, VDelete) \<Rightarrow> ns = mn_name mns
      | (KRoleBinding, VList) \<Rightarrow> ns = mn_name mns
      | (KRoleBinding, VLiveList) \<Rightarrow> ns = mn_name mns
      | (KRoleBinding, VGet) \<Rightarrow> (ns, nm) \<in> specBindings mns
      | (KRoleBinding, VCreateOrUpdate) \<Rightarrow> (ns, nm) \<in> specBindings mns
      | (KResourceQuota, VDelete) \<Rightarrow> ns = mn_name mns
      | (KResourceQuota, VList) \<Rightarrow> ns = mn_name mns
      | (KResourceQuota, VCreateOrUpdate) \<Rightarrow> (ns, nm) \<in> quotaKeys mns
      | (KNamespace, VCreateOrUpdate) \<Rightarrow> (ns, nm) = ([], mn_name mns)
      | (KClusterRole, VGet) \<Rightarrow> ns = []
      | (KManagedNamespace, VGet) \<Rightarrow> (ns, nm) = meta_key (mn_meta mns)
      | (KManagedNamespace, VPatch) \<Rightarrow> (ns, nm) = meta_key (mn_meta mns)
      | (KManagedNamespace, VStatusPatch) \<Rightarrow> (ns, nm) = meta_key (mn_meta mns)
      | _ \<Rightarrow> False)"
| "mnsRequest mns (GaugeSet c n v) = (c = ''managednamespace'' \<and> n = mn_name mns)"
| "mnsRequest mns (GaugeDelete c n) = (c = ''managednamespace'' \<and> n = mn_name mns)"
| "mnsRequest mns ev = True"

text \<open>The objects a pass generates, and those a list shows it as its own.\<close>

definition mnsProvided :: "managed_namespace \<Rightarrow> (kind \<times> objkey) set" where
  "mnsProvided mns = insert (KNamespace, ([], mn_name mns)) (Pair KResourceQuota ` quotaKeys mns)"

definition mnsGenerated :: "managed_namespace \<Rightarrow> (kind \<times> objkey) set" where
  "mnsGenerated mns = mnsProvided mns \<union> Pair KRoleBinding ` specBindings mns"

lemma mnsProvided_Generated: "x \<in> mnsProvided mns \<Longrightarrow> x \<in> mnsGenerated mns"
  by (simp add: mnsGenerated_def)

definition mnsOwned :: "managed_namespace \<Rightarrow> kind \<times> objkey \<Rightarrow> obj \<Rightarrow> bool" where
  "mnsOwned mns x ob \<longleftrightarrow>
     (fst x = KRoleBinding \<or> fst x = KResourceQuota) \<and> selects (ownedBy mns) (obj_meta ob)"

lemma enumerate_member: "ix \<in> set (List.enumerate n xs) \<Longrightarrow> snd ix \<in> set xs"
  by (auto simp: in_set_enumerate_eq) (metis add.commute less_diff_conv2 nth_mem)

lemma selects_ownedBy:
  "selects (ownedBy mns) m \<longleftrightarrow> om_namespace m = mn_name mns \<and> owned_by (mn_name mns) m"
  by (simp add: selects_def ownedBy_def owned_by_def)

lemma mnsRevokes_Final: "mnsRevokes mns ev \<Longrightarrow> mnsFinal mns ev"
  by (cases ev) (auto split: verb.splits kind.splits)

lemma mnsFinal_Request: "mnsFinal mns ev \<Longrightarrow> mnsRequest mns ev"
  by (cases ev) (auto split: verb.splits kind.splits)

lemma mnsProvisions_Request: "mnsProvisions mns ev \<Longrightarrow> mnsRequest mns ev"
  by (cases ev) (auto split: verb.splits kind.splits)

lemma mnsRevokes_Request: "mnsRevokes mns ev \<Longrightarrow> mnsRequest mns ev"
  by (cases ev) (auto split: verb.splits kind.splits)

text \<open>The keys \<open>specBindings\<close> collects, as a set comprehension.\<close>

lemma fold_insert: "fold (\<lambda>x. insert (f x)) xs A = f ` set xs \<union> A"
  by (induction xs arbitrary: A) auto

definition keyed :: "managed_namespace \<Rightarrow> access_mapping \<Rightarrow> string \<Rightarrow> objkey" where
  "keyed mns am role = (mn_name mns, BindingName (mn_name mns) (subjectKey am) role)"

lemma specBindings_iff:
  "k \<in> specBindings mns \<longleftrightarrow>
     (\<exists>am \<in> set (sp_accessMappings (mn_spec mns)). subjectsFor am \<noteq> [] \<and>
        (\<exists>role \<in> set (am_clusterRoles am). k = keyed mns am role))"
proof -
  have "k \<in> fold (\<lambda>am want.
      if am_group am = [] \<and> am_users am = [] then want
      else fold (\<lambda>role. insert (mn_name mns, BindingName (mn_name mns) (subjectKey am) role))
             (am_clusterRoles am) want) ams A \<longleftrightarrow>
    k \<in> A \<or> (\<exists>am \<in> set ams. subjectsFor am \<noteq> [] \<and>
      (\<exists>role \<in> set (am_clusterRoles am). k = keyed mns am role))" for ams A
    by (induction ams arbitrary: A) (auto simp: fold_insert keyed_def)
  then show ?thesis by (simp add: specBindings_def)
qed

text \<open>A key looped over by \<open>reconcileBindings\<close> is one the first prune spares.\<close>

lemma bound_in_specBindings:
  "am \<in> set (sp_accessMappings (mn_spec mns)) \<Longrightarrow> mappingErrors am = [] \<Longrightarrow>
     role \<in> set (am_clusterRoles am) \<Longrightarrow>
     (mn_name mns, BindingName (mn_name mns) (subjectKey am) role) \<in> specBindings mns"
  unfolding specBindings_iff keyed_def mappingErrors_Nil_iff by blast

lemma specBindings_namespace: "k \<in> specBindings mns \<Longrightarrow> fst k = mn_name mns"
  by (auto simp: specBindings_iff keyed_def)

section \<open>Every operation keeps every such invariant\<close>

locale mns_revoking = pass_invariant r live cache I req own droppable
  for r :: "'s env" and live cache :: "'s \<Rightarrow> table" and I :: "'s world \<Rightarrow> bool"
    and req :: "event \<Rightarrow> bool" and own :: "(kind \<times> objkey) set"
    and droppable :: "kind \<times> objkey \<Rightarrow> obj \<Rightarrow> bool" +
  fixes mns :: managed_namespace
  assumes may_revoke: "mnsRevokes mns ev \<Longrightarrow> req ev"
    and owned_droppable: "selects (ownedBy mns) (b_meta b) \<Longrightarrow> droppable (KRoleBinding, k) (OBinding b)"
begin

lemma keeps_drop_binding:
  assumes "I w1" and "seen live cache (ext w1) (KRoleBinding, b_key it) (OBinding it)"
    and "selects (ownedBy mns) (b_meta it)"
  shows "keeps I (deleteTolerant r KRoleBinding (e_rb r) b_meta
    (logResourceDeleted kn ns n ok on) it)"
  using assms
  by (intro keeps_deleteTolerant keeps_delete [OF rb_laws, where ?w1.0 = w1]
      keeps_logResourceDeleted may_revoke owned_droppable)
    (auto simp: selects_ownedBy meta_key_def)

lemma keeps_finalizeBindings: "keeps I (finalizeBindings r mns)"
  unfolding finalizeBindings_def
proof (rule keeps_bindE, goal_cases)
  case 1
  show ?case by (rule keeps_read) (auto simp: may_revoke live_rb_frame)
next
  case (2 items w w')
  then have "keeps I (deleteTolerant r KRoleBinding (e_rb r) b_meta
      (logResourceDeleted kn ns n ok on) it)" if "it \<in> set items" for it kn ns n ok on
    using that live_rb_items by (intro keeps_drop_binding [of w]) (auto dest!: api_result simp: seen_def)
  then show ?case by (auto intro!: keeps_bindE keeps_for_each)
qed

lemma keeps_pruneBindings: "keeps I (pruneBindings r mns want)"
  unfolding pruneBindings_def
proof (rule keeps_bindE, goal_cases)
  case 1
  show ?case by (rule keeps_read) (auto simp: may_revoke rb.list_frame)
next
  case (2 items w w')
  then have "keeps I (deleteTolerant r KRoleBinding (e_rb r) b_meta
      (logResourceDeleted kn ns n ok on) it)" if "it \<in> set items" for it kn ns n ok on
    using that rb.list_seen by (intro keeps_drop_binding [of w]) (auto dest!: api_result)
  then show ?case by (auto intro!: keeps_for_each)
qed

end

text \<open>The pass over a terminating resource also patches the resource itself.\<close>

locale mns_finalizing = mns_revoking r live cache I req own droppable mns
  for r :: "'s env" and live cache :: "'s \<Rightarrow> table" and I :: "'s world \<Rightarrow> bool"
    and req :: "event \<Rightarrow> bool" and own :: "(kind \<times> objkey) set"
    and droppable :: "kind \<times> objkey \<Rightarrow> obj \<Rightarrow> bool" and mns :: managed_namespace +
  assumes may_finalize: "mnsFinal mns ev \<Longrightarrow> req ev"
    and self_own: "(KManagedNamespace, meta_key (mn_meta mns)) \<in> own"
begin

lemma keeps_patchFinalizer: "keeps I (patchFinalizer r mns m)"
  unfolding patchFinalizer_def
  using mns.patch_frame by (intro keeps_attempt keeps_own may_finalize self_own) auto

text \<open>The first step of a pass, reading the resource.\<close>

lemma wp_read_self:
  assumes "cache (ext w) (KManagedNamespace, q) = Some (OManagedNamespace mns)" and "I w"
    and "\<And>w'. I w' \<Longrightarrow> Q (Inr mns) w'" and "\<And>e w'. I w' \<Longrightarrow> Q (Inl e) w'"
  shows "wp (api VGet KManagedNamespace q (k_get (e_mns r) q)) Q w"
proof -
  have "meta_key (mn_meta mns) = q" using mns.cache_key assms(1) by blast
  then have ev: "req (Api VGet KManagedNamespace (fst q) (snd q) ok)" for ok
    by (intro may_finalize) auto
  show ?thesis
    using assms read [OF assms(2), of _ VGet "(KManagedNamespace, q)"] ev
    by (intro mns.wp_get) (auto simp: request_def)
qed

lemma Reconcile_terminating_keeps:
  assumes "cache (ext w) (KManagedNamespace, q) = Some (OManagedNamespace mns)" and "I w"
    and "terminating (mn_meta mns)" and "Reconcile r q w = (x, w')"
  shows "I w'"
proof -
  have "wp (Reconcile r q) (\<lambda>_. I) w"
    unfolding Reconcile_def wp_bindE wp_attempt
    by (rule wp_read_self [OF assms(1,2)])
      (auto simp: assms(3) simp del: wp_bindE wp_attempt intro!: keeps_wp keeps_bindE keeps_attempt
        keeps_finalizeBindings keeps_patchFinalizer keeps_note may_finalize split: sum.split)
  then show ?thesis using assms(4) by (rule wpD)
qed

end

text \<open>Providing the Namespace and its quotas.\<close>

locale mns_provisioning = pass_invariant r live cache I req own droppable
  for r :: "'s env" and live cache :: "'s \<Rightarrow> table" and I :: "'s world \<Rightarrow> bool"
    and req :: "event \<Rightarrow> bool" and own :: "(kind \<times> objkey) set"
    and droppable :: "kind \<times> objkey \<Rightarrow> obj \<Rightarrow> bool" +
  fixes mns :: managed_namespace
  assumes may_provision: "mnsProvisions mns ev \<Longrightarrow> req ev"
    and provided_own: "x \<in> mnsProvided mns \<Longrightarrow> x \<in> own"
    and owned_quota_droppable: "selects (ownedBy mns) (q_meta q) \<Longrightarrow> droppable (KResourceQuota, k) (OQuota q)"
begin

lemma keeps_drop_quota:
  assumes "I w1" and "seen live cache (ext w1) (KResourceQuota, meta_key (q_meta it)) (OQuota it)"
    and "selects (ownedBy mns) (q_meta it)"
  shows "keeps I (deleteTolerant r KResourceQuota (e_quota r) q_meta
    (logResourceDeleted kn ns n ok on) it)"
  using assms
  by (intro keeps_deleteTolerant keeps_delete [OF quota_laws, where ?w1.0 = w1]
      keeps_logResourceDeleted may_provision owned_quota_droppable)
    (auto simp: selects_ownedBy meta_key_def)

lemma keeps_pruneQuotas: "keeps I (pruneQuotas r mns want)"
  unfolding pruneQuotas_def ownedBy_def [symmetric]
proof (rule keeps_bindE, goal_cases)
  case 1
  show ?case by (rule keeps_read) (auto simp: may_provision quota.list_frame)
next
  case (2 items w w')
  then have "keeps I (deleteTolerant r KResourceQuota (e_quota r) q_meta
      (logResourceDeleted kn ns n ok on) it)" if "it \<in> set items" for it kn ns n ok on
    using that quota.list_seen by (intro keeps_drop_quota [of w]) (auto dest!: api_result)
  then show ?case by (auto intro!: keeps_for_each)
qed

lemma keeps_ensureNamespace: "keeps I (ensureNamespace r mns)"
  unfolding ensureNamespace_def
proof (rule keeps_bindE, goal_cases)
  case 1
  have "meta_key (ns_meta (namespace_template mns)) = ([], mn_name mns)"
    by (simp add: meta_key_def namespace_template_def empty_meta_def)
  then show ?case
    using ns.cou_frame [of _ "namespace_template mns"]
    by (intro keeps_own may_provision provided_own) (auto simp: mnsProvided_def)
qed (auto intro!: keeps_logResourceChange may_provision split: prod.split)

lemma keeps_quotaStep:
  assumes "q \<in> set (sp_resourceQuotas (mn_spec mns))"
  shows "keeps I (quotaStep r mns want (i, q))"
proof -
  have "meta_key (q_meta (quota_template mns q)) = (mn_name mns, rq_name q)"
    by (simp add: meta_key_def quota_template_def empty_meta_def)
  then have "keeps I (api VCreateOrUpdate KResourceQuota (mn_name mns, rq_name q)
      (k_createOrUpdate (e_quota r) (mutateQuota mns q) (quota_template mns q)))"
    using assms quota.cou_frame [of _ "quota_template mns q"]
    by (intro keeps_own may_provision provided_own) (auto simp: mnsProvided_def quotaKeys_def)
  then show ?thesis
    unfolding quotaStep_def
    by (auto intro!: keeps_bindE keeps_note keeps_logResourceChange may_provision split: prod.split)
qed

lemma keeps_reconcileQuota: "keeps I (reconcileQuota r mns)"
  unfolding reconcileQuota_def
  by (intro keeps_bindE keeps_fold_io keeps_pruneQuotas)
    (metis enumerate_member keeps_quotaStep prod.collapse)

end

text \<open>Providing the bindings.\<close>

locale mns_binding = mns_revoking r live cache I req own droppable mns
  for r :: "'s env" and live cache :: "'s \<Rightarrow> table" and I :: "'s world \<Rightarrow> bool"
    and req :: "event \<Rightarrow> bool" and own :: "(kind \<times> objkey) set"
    and droppable :: "kind \<times> objkey \<Rightarrow> obj \<Rightarrow> bool" and mns :: managed_namespace +
  assumes may_request: "mnsRequest mns ev \<Longrightarrow> gaugeless ev \<Longrightarrow> req ev"
    and generated_own: "k \<in> specBindings mns \<Longrightarrow> (KRoleBinding, k) \<in> own"
    and own_binding_droppable: "k \<in> specBindings mns \<Longrightarrow> droppable (KRoleBinding, k) (OBinding b)"
begin

lemma keeps_ensureRoleBinding:
  assumes "(mn_name mns, name) \<in> specBindings mns"
  shows "keeps I (ensureRoleBinding r mns name role subjects)"
  unfolding ensureRoleBinding_def Let_def
proof (rule keeps_bindE, goal_cases)
  case 1
  show ?case
    using assms by (intro keeps_attempt keeps_read may_request) (auto simp: rb.get_frame)
next
  case (2 got w w')
  let ?key = "(mn_name mns, name)"
  have found: "cache (ext w) (KRoleBinding, ?key) = Some (OBinding obj) \<and> b_key obj = ?key"
    if "got = Inr obj" for obj
    using 2(2) that rb.get_found rb.cache_key by (fastforce dest!: attempt_result api_result)
  have "keeps I (api VCreateOrUpdate KRoleBinding (b_key obj)
      (k_createOrUpdate (e_rb r) (mutateBinding (mn_name mns) (clusterRoleRef role) subjects) obj))"
    if "b_key obj = ?key" for obj
    using that assms rb.cou_frame [of _ obj]
    by (intro keeps_own may_request generated_own) auto
  moreover have "keeps I (api VDelete KRoleBinding (b_key obj) (k_delete (e_rb r) obj))"
    if "got = Inr obj" for obj
    using 2(1) found [OF that] assms
    by (intro keeps_delete [OF rb_laws, where ?w1.0 = w] may_request own_binding_droppable)
      (auto simp: seen_def)
  moreover have "b_key (binding_template (mn_name mns) name) = ?key"
    by (simp add: meta_key_def binding_template_def empty_meta_def)
  ultimately show ?case
    using found
    by (auto intro!: keeps_bindE keeps_logResourceChange keeps_logResourceDeleted may_request
        split: sum.split prod.split simp: bindE_assoc)
qed

lemma keeps_bindRole:
  assumes "am \<in> set (sp_accessMappings (mn_spec mns))" and "mappingErrors am = []"
    and "role \<in> set (am_clusterRoles am)"
  shows "keeps I (bindRole r mns (subjectKey am) (subjectsFor am) acc role)"
  unfolding bindRole_def
  using bound_in_specBindings [OF assms]
  by (auto intro!: keeps_bindE keeps_attempt keeps_read keeps_ensureRoleBinding may_request
      split: sum.split simp: role.get_frame Let_def)

lemma keeps_bindMapping:
  assumes "am \<in> set (sp_accessMappings (mn_spec mns))"
  shows "keeps I (bindMapping r mns acc (i, am))"
  unfolding bindMapping_def
  using keeps_bindRole [OF assms]
  by (auto intro!: keeps_bindE keeps_for_each keeps_fold_io keeps_note may_request
      simp del: mappingErrors_Nil_iff)

lemma keeps_reconcileBindings: "keeps I (reconcileBindings r mns)"
  unfolding reconcileBindings_def
  by (intro keeps_bindE keeps_fold_io)
    (auto intro!: keeps_bindE keeps_pruneBindings keeps_bindMapping dest: enumerate_member)

end

locale mns_pass = mns_binding r live cache I req own droppable mns +
    mns_provisioning r live cache I req own droppable mns
  for r :: "'s env" and live cache :: "'s \<Rightarrow> table" and I :: "'s world \<Rightarrow> bool"
    and req :: "event \<Rightarrow> bool" and own :: "(kind \<times> objkey) set"
    and droppable :: "kind \<times> objkey \<Rightarrow> obj \<Rightarrow> bool" and mns :: managed_namespace
begin

lemma keeps_sync: "keeps I (sync r mns)"
  unfolding sync_def
  by (intro keeps_bindE keeps_pruneBindings keeps_ensureNamespace keeps_reconcileQuota
      keeps_reconcileBindings)

end

locale mns_reconcile = mns_pass r live cache I req own droppable mns +
    mns_finalizing r live cache I req own droppable mns
  for r :: "'s env" and live cache :: "'s \<Rightarrow> table" and I :: "'s world \<Rightarrow> bool"
    and req :: "event \<Rightarrow> bool" and own :: "(kind \<times> objkey) set"
    and droppable :: "kind \<times> objkey \<Rightarrow> obj \<Rightarrow> bool" and mns :: managed_namespace +
  assumes may_report: "mnsRequest mns ev \<Longrightarrow> req ev"
begin

lemma keeps_status: "keeps I (status r mns invalid e)"
  unfolding status_def
proof (intro keeps_bindE keeps_gets, goal_cases)
  case 1
  show ?case by (auto intro!: keeps_note may_report)
next
  case (2 u w w' mns' w1 w1')
  show ?case
    using mns.status_frame by (intro keeps_own may_report self_own) auto
qed

lemma Reconcile_keeps:
  assumes "cache (ext w) (KManagedNamespace, q) = Some (OManagedNamespace mns)" and "I w"
    and "Reconcile r q w = (x, w')"
  shows "I w'"
proof -
  have "wp (Reconcile r q) (\<lambda>_. I) w"
    unfolding Reconcile_def wp_bindE wp_attempt
    by (rule wp_read_self [OF assms(1,2)])
      (auto simp: Let_def simp del: wp_bindE wp_attempt intro!: keeps_wp keeps_bindE keeps_attempt
        keeps_finalizeBindings keeps_sync keeps_status keeps_patchFinalizer keeps_note may_report
        split: sum.split)
  then show ?thesis using assms(3) by (rule wpD)
qed

end

end
