(* ===== verification/Binding_Sync.thy ===== *)
theory Binding_Sync
  imports Pass_Invariants
begin

text \<open>
  What the two reconcilers have in common, proved once for either kind of binding: revoking by a loop
  of deletions, ensuring one binding, and the invariant of the loop that ensures them all. A kind of
  binding is a client under \<open>kind_laws\<close>; \<open>own\<close> says which bindings are an owner's, \<open>key\<close> under
  which key an entry (a mapping and one of its ClusterRoles) is bound.
\<close>

section \<open>Revoking\<close>

text \<open>
  No grant the spec does not ask for is in force: every owned binding of the namespace on the
  server is wanted, or on its way out.
\<close>

definition revokedAt :: "('s \<Rightarrow> table) \<Rightarrow> kind \<Rightarrow> (object_meta \<Rightarrow> bool) \<Rightarrow> objkey set \<Rightarrow> 's \<Rightarrow> bool" where
  "revokedAt live kd own W s \<longleftrightarrow>
     (\<forall>b. live s (kd, b_key b) = Some (OBinding b) \<longrightarrow> own (b_meta b) \<longrightarrow>
        b_key b \<in> W \<or> terminating (b_meta b))"

lemma revoked_step:
  assumes "revokedAt live kd own W s"
    and "\<And>k. k \<notin> W \<Longrightarrow> live s' (kd, k) = live s (kd, k) \<or>
      (\<forall>b. live s' (kd, k) = Some (OBinding b) \<longrightarrow> terminating (b_meta b))"
  shows "revokedAt live kd own W s'"
  using assms unfolding revokedAt_def by metis

text \<open>No owned binding is left at all.\<close>

definition noneOwnedAt :: "('s \<Rightarrow> table) \<Rightarrow> kind \<Rightarrow> (object_meta \<Rightarrow> bool) \<Rightarrow> 's \<Rightarrow> bool" where
  "noneOwnedAt live kd own s \<longleftrightarrow> (\<forall>b. live s (kd, b_key b) = Some (OBinding b) \<longrightarrow>
     \<not> own (b_meta b))"

lemma noneOwned_touches:
  "touches live cache {(kd', k)} s s' \<Longrightarrow> kd' \<noteq> kd \<Longrightarrow> noneOwnedAt live kd own s \<Longrightarrow>
     noneOwnedAt live kd own s'"
  using touches_live [of live cache "{(kd', k)}" s s' "(kd, _)"]
  unfolding noneOwnedAt_def by auto

lemma if_not: "(\<lambda>x. if \<not> P x then f x else g x) = (\<lambda>x. if P x then g x else f x)"
  by auto

section \<open>What a binding should be\<close>

text \<open>The fixed points of the mutation: owner labels, role and subjects as the mapping says.\<close>

definition grants :: "string \<Rightarrow> string \<Rightarrow> subject list \<Rightarrow> binding \<Rightarrow> bool" where
  "grants owner role subjects b \<longleftrightarrow>
     om_labels (b_meta b) = ownerLabels owner \<and> b_roleRef b = clusterRoleRef role \<and>
     b_subjects b = subjects"

lemma mutateBinding_fixed:
  "mutateBinding owner (clusterRoleRef role) subjects b = Inr b \<longleftrightarrow> grants owner role subjects b"
  by (cases b; cases "b_meta b") (auto simp: mutateBinding_def grants_def)

lemma mutateBinding_grants:
  "mutateBinding owner (clusterRoleRef role) subjects b = Inr b' \<Longrightarrow>
     strip_binding b'' = strip_binding b' \<Longrightarrow> grants owner role subjects b''"
  by (cases b''; cases "b_meta b''"; cases b; cases "b_meta b")
    (auto simp: mutateBinding_def grants_def strip_binding_def strip_meta_def)

text \<open>The server holds the right binding under a key.\<close>

definition granted :: "('s \<Rightarrow> table) \<Rightarrow> kind \<Rightarrow> string \<Rightarrow> string \<Rightarrow> subject list \<Rightarrow> objkey \<Rightarrow> 's \<Rightarrow> bool" where
  "granted live kd owner role subjects k s \<longleftrightarrow>
     (\<exists>b. live s (kd, k) = Some (OBinding b) \<and> grants owner role subjects b)"

text \<open>Whatever is seen under the key refers to the role already: nothing has to be replaced.\<close>

definition refersTo :: "('s \<Rightarrow> table) \<Rightarrow> ('s \<Rightarrow> table) \<Rightarrow> kind \<Rightarrow> string \<Rightarrow> objkey \<Rightarrow> 's \<Rightarrow> bool" where
  "refersTo live cache kd role k s \<longleftrightarrow>
     (\<forall>b. seen live cache s (kd, k) (OBinding b) \<longrightarrow> b_roleRef b = clusterRoleRef role)"

text \<open>A right binding in the cache is a right binding on the server: the cache can be believed.\<close>

definition believed :: "('s \<Rightarrow> table) \<Rightarrow> ('s \<Rightarrow> table) \<Rightarrow> kind \<Rightarrow> string \<Rightarrow> string \<Rightarrow> subject list \<Rightarrow>
    objkey \<Rightarrow> 's \<Rightarrow> bool" where
  "believed live cache kd owner role subjects k s \<longleftrightarrow>
     (\<forall>b. cache s (kd, k) = Some (OBinding b) \<longrightarrow> grants owner role subjects b \<longrightarrow>
        granted live kd owner role subjects k s)"

lemma refersTo_touches:
  assumes "touches live cache Y s s'" and "refersTo live cache kd role k s"
    and "\<And>b. live s' (kd, k) = Some (OBinding b) \<Longrightarrow> b_roleRef b = clusterRoleRef role"
  shows "refersTo live cache kd role k s'"
  using touches_cache [OF assms(1), of "(kd, k)"] assms(2,3)
  unfolding refersTo_def seen_def by auto

lemma granted_refers: "granted live kd owner role subjects k s \<Longrightarrow>
    live s (kd, k) = Some (OBinding b) \<Longrightarrow> b_roleRef b = clusterRoleRef role"
  by (auto simp: granted_def grants_def)

section \<open>Ensuring one binding\<close>

text \<open>
  The function both reconcilers have, at either kind of binding: \<open>lns\<close> is the namespace they log.
\<close>

definition ensureBinding :: "'s env \<Rightarrow> kind \<Rightarrow> string \<Rightarrow> ('s, binding) kind_client \<Rightarrow> string \<Rightarrow> string \<Rightarrow>
    string \<Rightarrow> subject list \<Rightarrow> (binding \<Rightarrow> string) \<Rightarrow> string \<Rightarrow> string \<Rightarrow> ('s, unit) io" where
  "ensureBinding r kd kn cl namespace name role subjects lns okd owner =
     (let want = clusterRoleRef role; key = (namespace, name); fresh = binding_template namespace name
      in bindE (attempt (api VGet kd key (k_get cl key)))
        (\<lambda>got.
           bindE (case got of
               Inl e \<Rightarrow> ret fresh
             | Inr obj \<Rightarrow>
                 if b_roleRef obj \<noteq> want then
                   bindE (api VDelete kd (b_key obj) (k_delete cl obj))
                     (\<lambda>_. bindE (logResourceDeleted kn (lns obj) (om_name (b_meta obj)) okd owner)
                       (\<lambda>_. ret fresh))
                 else ret obj)
             (\<lambda>obj.
                bindE (api VCreateOrUpdate kd (b_key obj)
                    (k_createOrUpdate cl (mutateBinding owner want subjects) obj))
                  (\<lambda>(res, b). logResourceChange res kn (lns b) (om_name (b_meta b)) okd owner))))"

section \<open>At one kind of binding\<close>

locale binding_laws = kind_laws live cache kd OBinding b_meta strip_binding nf cl
  for live cache :: "'s \<Rightarrow> table" and kd :: kind and nf :: "error \<Rightarrow> bool"
    and cl :: "('s, binding) kind_client"
begin

text \<open>The \<open>CreateOrUpdate\<close> that ends it.\<close>

lemma cou_binding:
  assumes "k_createOrUpdate cl (mutateBinding owner (clusterRoleRef role) subjects) ob s
      = (Inr (res, ob'), s')"
    and "believed live cache kd owner role subjects (b_key ob) s"
  shows "granted live kd owner role subjects (b_key ob) s'"
proof -
  let ?x = "(kd, b_key ob)"
  have "cou_done live cache ?x OBinding strip_binding
      (mutateBinding owner (clusterRoleRef role) subjects) ob s s' res ob'"
    by (rule cou_result [OF assms(1)])
  then consider "cache s ?x = Some (OBinding ob')" "grants owner role subjects ob'" "live s' ?x = live s ?x"
    | base sent where "live s' ?x = Some (OBinding ob')" "strip_binding ob' = strip_binding sent"
      "mutateBinding owner (clusterRoleRef role) subjects base = Inr sent"
    unfolding cou_done_def mutateBinding_fixed by (auto split: if_splits)
  then show ?thesis
  proof cases
    case 1
    then show ?thesis using assms(2) by (auto simp: believed_def granted_def)
  next
    case 2
    then show ?thesis using mutateBinding_grants unfolding granted_def by blast
  qed
qed

lemma wp_finish_binding:
  assumes "b_key ob = k" and "believed live cache kd owner role subjects k (ext w)"
    and "\<And>w'. touches live cache {(kd, k)} (ext w) (ext w') \<Longrightarrow>
      granted live kd owner role subjects k (ext w') \<Longrightarrow> Q (Inr ()) w'"
    and "\<And>e w'. Q (Inl e) w'"
  shows "wp (bindE (api VCreateOrUpdate kd k
        (k_createOrUpdate cl (mutateBinding owner (clusterRoleRef role) subjects) ob))
      (\<lambda>(res, b). logResourceChange res kn (lns b) (om_name (b_meta b)) okd owner)) Q w"
  unfolding wp_bindE
proof (rule wpI, goal_cases)
  case (1 x w')
  then have call: "k_createOrUpdate cl (mutateBinding owner (clusterRoleRef role) subjects) ob
      (ext w) = (x, ext w')" by (auto dest: api_result)
  show ?case
  proof (cases x)
    case (Inr y)
    obtain res b where y: "y = (res, b)" by (cases y)
    have "granted live kd owner role subjects k (ext w')"
      using cou_binding [of owner role subjects ob "ext w" res b "ext w'"] call Inr y assms(1,2) by simp
    moreover have "touches live cache {(kd, k)} (ext w) (ext w')"
      using cou_frame [OF call] assms(1) by simp
    ultimately show ?thesis
      using assms(3) by (auto simp: Inr y intro!: wp_logResourceChange)
  qed (simp add: assms(4))
qed

text \<open>Reading changes nothing, and a cache that could be believed still can.\<close>

lemma read_believed:
  assumes "cache s (kd, k) = live s (kd, k) \<or>
      granted live kd owner role subjects k s \<and> refersTo live cache kd role k s"
    and "touches live cache {} s s'"
  shows "believed live cache kd owner role subjects k s'"
    and "refersTo live cache kd role k s \<Longrightarrow> refersTo live cache kd role k s'"
    and "still live cache y s s'"
proof -
  have l: "live s' (kd, k) = live s (kd, k)"
    and c: "cache s' (kd, k) = cache s (kd, k) \<or> cache s' (kd, k) = live s' (kd, k)"
    using touches_live [OF assms(2)] touches_cache [OF assms(2), of "(kd, k)"] by simp_all
  then show "believed live cache kd owner role subjects k s'"
    using assms(1) unfolding believed_def granted_def by auto
  show "refersTo live cache kd role k s \<Longrightarrow> refersTo live cache kd role k s'"
    using l c unfolding refersTo_def seen_def by auto
  show "still live cache y s s'" by (rule touches_still [OF assms(2)]) simp
qed

text \<open>The last step of \<open>ensureBinding\<close>, from a state reached without touching anything else.\<close>

lemma wp_ensure_finish:
  assumes "b_key ob = k" and "believed live cache kd owner role subjects k (ext w1)"
    and "refersTo live cache kd role k s \<Longrightarrow> refersTo live cache kd role k (ext w1)"
    and "\<And>y. y \<noteq> (kd, k) \<Longrightarrow> still live cache y s (ext w1)"
    and "\<And>w'. granted live kd owner role subjects k (ext w') \<Longrightarrow>
      (refersTo live cache kd role k s \<Longrightarrow> refersTo live cache kd role k (ext w')) \<Longrightarrow>
      (\<And>y. y \<noteq> (kd, k) \<Longrightarrow> still live cache y s (ext w')) \<Longrightarrow> Q (Inr ()) w'"
    and "\<And>e w'. Q (Inl e) w'"
  shows "wp (bindE (api VCreateOrUpdate kd k
      (k_createOrUpdate cl (mutateBinding owner (clusterRoleRef role) subjects) ob))
      (\<lambda>(res, b). logResourceChange res kn (lns b) (om_name (b_meta b)) okd owner)) Q w1"
proof (rule wp_finish_binding [OF assms(1,2)], goal_cases)
  case (1 w')
  have "still live cache y s (ext w')" if "y \<noteq> (kd, k)" for y
    using still_touches [OF assms(4) 1(1)] that by simp
  moreover have "refersTo live cache kd role k (ext w')" if "refersTo live cache kd role k s"
    using refersTo_touches [OF 1(1)] granted_refers [OF 1(2)] assms(3) [OF that] by blast
  ultimately show ?case using assms(5) 1(2) by blast
qed (rule assms(6))

text \<open>
  The whole of \<open>ensureBinding\<close>. On success the right binding is there, whatever was there
  before; nothing else moved; and where nothing had to be replaced nothing will have to be.
\<close>

lemma wp_ensureBinding:
  assumes "cache (ext w) (kd, k) = live (ext w) (kd, k) \<or>
      granted live kd owner role subjects k (ext w) \<and> refersTo live cache kd role k (ext w)"
    and "k = (namespace, name)"
    and "\<And>w'. granted live kd owner role subjects k (ext w') \<Longrightarrow>
      (refersTo live cache kd role k (ext w) \<Longrightarrow> refersTo live cache kd role k (ext w')) \<Longrightarrow>
      (\<And>y. y \<noteq> (kd, k) \<Longrightarrow> still live cache y (ext w) (ext w')) \<Longrightarrow> Q (Inr ()) w'"
    and "\<And>e w'. Q (Inl e) w'"
  shows "wp (ensureBinding r kd kn cl namespace name role subjects lns okd owner) Q w"
proof -
  let ?x = "(kd, k)"
  have fresh: "b_key (binding_template namespace name) = k"
    by (simp add: assms(2) meta_key_def binding_template_def empty_meta_def)
  note finish = wp_ensure_finish [where s = "ext w" and Q = Q, OF _ _ _ _ assms(3,4), unfolded wp_bindE]
  note read = read_believed [OF assms(1)]
  show ?thesis
    unfolding ensureBinding_def Let_def assms(2) [symmetric] wp_bindE wp_attempt
  proof (rule wp_get, goal_cases)
    case (2 e s')
    then show ?case by (simp add: fresh) (rule finish [OF fresh]; simp add: read)
  next
    case (1 ob s')
    have key: "b_key ob = k" using cache_key 1(2) by blast
    show ?case
    proof (cases "b_roleRef ob = clusterRoleRef role")
      case True
      then show ?thesis
        using 1(1) by (simp add: key) (rule finish [OF key]; simp add: read)
    next
      case False
      with 1(2) have not_right: "\<not> refersTo live cache kd role k (ext w)"
        unfolding refersTo_def seen_def by blast
      with assms(1) 1(2) have both: "cache (ext w) ?x = Some (OBinding ob)" "live (ext w) ?x = Some (OBinding ob)"
        by auto
      let ?w1 = "w\<lparr>ext := s', trace := trace w @ [Api VGet kd (fst k) (snd k) True]\<rparr>"
      have l: "live s' ?x = Some (OBinding ob)" and c: "cache s' ?x = Some (OBinding ob)"
        using touches_live [OF 1(1), of ?x] touches_cache [OF 1(1), of ?x] both by auto
      have deleted: "believed live cache kd owner role subjects k s''"
        if "touches live cache {?x} s' s''" for s''
        using touches_cache [OF that, of ?x] c False
        unfolding believed_def granted_def grants_def by auto
      show ?thesis
        unfolding sum.case if_P [OF False] bindE_assoc wp_bindE [of "api VDelete _ _ _"] key
      proof (rule wp_delete, goal_cases)
        case (1 s'')
        then have t: "touches live cache {?x} s' s''" by (simp add: key)
        have "still live cache y (ext w) s''" if "y \<noteq> ?x" for y
          using still_touches [OF read(3) t] \<open>touches live cache {} (ext w) s'\<close> that by simp
        then show ?case
          by (simp add: fresh)
            (rule wp_logResourceDeleted, simp add: fresh, rule finish [OF fresh];
             simp add: deleted [OF t] not_right)
      qed (simp add: assms(4))
    qed
  qed
qed

text \<open>The loop of deletions, at bindings.\<close>

lemma wp_drop_loop:
  assumes "nf = isNotFound r"
    and "\<forall>b. live (ext w) (kd, b_key b) = Some (OBinding b) \<longrightarrow>
      own (b_meta b) \<longrightarrow> b_key b \<in> W \<or> terminating (b_meta b) \<or> b \<in> set items"
    and "\<And>it. it \<in> set items \<Longrightarrow> \<not> rm it \<Longrightarrow> b_key it \<in> W \<or> terminating (b_meta it)"
  shows "wp (for_each (\<lambda>it. if rm it then deleteTolerant r kd cl b_meta
      (logResourceDeleted (kn it) (ns it) (n it) (ok it) (on it)) it else ret ()) items)
    (\<lambda>x w'. x = Inr () \<longrightarrow> revokedAt live kd own W (ext w')) w"
  unfolding revokedAt_def by (rule wp_prune_loop [OF assms])

end

section \<open>Every wanted binding is granted\<close>

definition roleExists :: "('s \<Rightarrow> table) \<Rightarrow> 's \<Rightarrow> string \<Rightarrow> bool" where
  "roleExists live s role \<longleftrightarrow> live s (KClusterRole, ([], role)) \<noteq> None"

definition missingRef :: "string \<Rightarrow> invalid_reference" where
  "missingRef role = \<lparr>ir_clusterRole = role, ir_reason = ''ClusterRole not found''\<rparr>"

definition missing :: "('s \<Rightarrow> table) \<Rightarrow> 's \<Rightarrow> (access_mapping \<times> string) list \<Rightarrow> invalid_reference list" where
  "missing live s es = map (missingRef \<circ> snd) (filter (\<lambda>e. \<not> roleExists live s (snd e)) es)"

definition wantedAt :: "('s \<Rightarrow> table) \<Rightarrow> (access_mapping \<times> string \<Rightarrow> objkey) \<Rightarrow> 's \<Rightarrow> (access_mapping \<times> string) list \<Rightarrow> objkey set" where
  "wantedAt live key s es = key ` {e \<in> set es. roleExists live s (snd e)}"

text \<open>Entries of one name ask for one binding; this can fail only where two hashes collide.\<close>

definition consistentAt :: "(access_mapping \<times> string \<Rightarrow> objkey) \<Rightarrow> (access_mapping \<times> string) list \<Rightarrow> bool" where
  "consistentAt key es \<longleftrightarrow>
     (\<forall>e \<in> set es. \<forall>e' \<in> set es. key e = key e' \<longrightarrow>
        snd e = snd e' \<and> subjectsFor (fst e) = subjectsFor (fst e'))"

text \<open>A name the spec asks for twice is not taken by a binding of another role.\<close>

definition repairableAt :: "('s \<Rightarrow> table) \<Rightarrow> kind \<Rightarrow> (access_mapping \<times> string \<Rightarrow> objkey) \<Rightarrow>
    (access_mapping \<times> string) list \<Rightarrow> 's \<Rightarrow> bool" where
  "repairableAt live kd key es s \<longleftrightarrow>
     (\<forall>e \<in> set es.
        (\<forall>b. live s (kd, key e) = Some (OBinding b) \<longrightarrow>
           b_roleRef b = clusterRoleRef (snd e)) \<or>
        count_list (map key es) (key e) = 1)"

text \<open>The server holds the right binding for an entry.\<close>

definition entryGrantedAt :: "('s \<Rightarrow> table) \<Rightarrow> kind \<Rightarrow> string \<Rightarrow> (access_mapping \<times> string \<Rightarrow> objkey) \<Rightarrow> 's \<Rightarrow> access_mapping \<times> string \<Rightarrow> bool" where
  "entryGrantedAt live kd owner key s e = granted live kd owner (snd e) (subjectsFor (fst e)) (key e) s"

lemma granted_still:
  "granted live kd owner role subjects k s \<Longrightarrow> still live cache (kd, k) s s' \<Longrightarrow>
     granted live kd owner role subjects k s'"
  by (simp add: granted_def still_def)

lemma refersTo_still:
  "refersTo live cache kd role k s \<Longrightarrow> still live cache (kd, k) s s' \<Longrightarrow> refersTo live cache kd role k s'"
  by (auto simp: refersTo_def still_def seen_def)

text \<open>The invariant of the loop: \<open>s\<close> is the state it started from.\<close>

definition bindingLoopAt :: "('s \<Rightarrow> table) \<Rightarrow> ('s \<Rightarrow> table) \<Rightarrow> kind \<Rightarrow> string \<Rightarrow> (access_mapping \<times> string \<Rightarrow> objkey) \<Rightarrow> 's \<Rightarrow>
    (access_mapping \<times> string) list \<Rightarrow> invalid_reference list \<times> objkey set \<Rightarrow> 's \<Rightarrow> bool" where
  "bindingLoopAt live cache kd owner key s done acc s' \<longleftrightarrow>
     acc = (missing live s done, wantedAt live key s done) \<and>
     (\<forall>k. still live cache (KClusterRole, k) s s') \<and>
     (\<forall>k. k \<notin> snd acc \<longrightarrow> still live cache (kd, k) s s') \<and>
     (\<forall>e \<in> set done. roleExists live s (snd e) \<longrightarrow> entryGrantedAt live kd owner key s' e \<and>
        (refersTo live cache kd (snd e) (key e) s \<longrightarrow>
           refersTo live cache kd (snd e) (key e) s'))"

text \<open>The entries already done keep their bindings: one that shares the binding just written agrees with it.\<close>

lemma bindingLoop_kept:
  assumes "bindingLoopAt live cache kd owner key s done acc s'"
    and "granted live kd owner role (subjectsFor am) k s''"
    and "refersTo live cache kd role k s' \<Longrightarrow> refersTo live cache kd role k s''"
    and "\<And>y. y \<noteq> (kd, k) \<Longrightarrow> still live cache y s' s''"
    and "key e = k \<Longrightarrow> snd e = role \<and> subjectsFor (fst e) = subjectsFor am"
    and "e \<in> set done" and "roleExists live s (snd e)"
  shows "entryGrantedAt live kd owner key s'' e \<and>
    (refersTo live cache kd (snd e) (key e) s \<longrightarrow> refersTo live cache kd (snd e) (key e) s'')"
proof -
  have J: "entryGrantedAt live kd owner key s' e \<and>
      (refersTo live cache kd (snd e) (key e) s \<longrightarrow> refersTo live cache kd (snd e) (key e) s')"
    using assms(1,6,7) unfolding bindingLoopAt_def by blast
  show ?thesis
  proof (cases "key e = k")
    case True
    then show ?thesis using assms(5) J assms(2,3) by (auto simp: entryGrantedAt_def)
  next
    case False
    then have "still live cache (kd, key e) s' s''" using assms(4) by simp
    then show ?thesis
      using J granted_still [of live kd owner _ _ _ s' cache s'']
        refersTo_still [of live cache kd _ _ s' s''] by (simp add: entryGrantedAt_def)
  qed
qed

text \<open>The step of the loop, given what \<open>ensureRoleBinding\<close> does.\<close>

lemma bindingLoop_step:
  assumes "bindingLoopAt live cache kd owner key s done acc s'" and "roleExists live s role"
    and "granted live kd owner role (subjectsFor am) (key (am, role)) s''"
    and "refersTo live cache kd role (key (am, role)) s' \<Longrightarrow>
      refersTo live cache kd role (key (am, role)) s''"
    and "\<And>y. y \<noteq> (kd, key (am, role)) \<Longrightarrow> still live cache y s' s''"
    and "consistentAt key es" and "kd \<noteq> KClusterRole" and "es = done @ (am, role) # todo"
  shows "bindingLoopAt live cache kd owner key s (done @ [(am, role)])
    (fst acc, insert (key (am, role)) (snd acc)) s''"
proof -
  let ?k = "key (am, role)"
  have J: "acc = (missing live s done, wantedAt live key s done)"
    "\<And>k. still live cache (KClusterRole, k) s s'"
    "\<And>k. k \<notin> snd acc \<Longrightarrow> still live cache (kd, k) s s'"
    using assms(1) unfolding bindingLoopAt_def by blast+
  have same: "snd e = role \<and> subjectsFor (fst e) = subjectsFor am"
    if "e \<in> set done" "key e = ?k" for e
    using assms(6,8) that unfolding consistentAt_def by (metis Un_iff fst_conv snd_conv list.set_intros(1) set_append)
  have e: "entryGrantedAt live kd owner key s'' e \<and> (refersTo live cache kd (snd e) (key e) s \<longrightarrow>
      refersTo live cache kd (snd e) (key e) s'')"
    if "e \<in> set done" "roleExists live s (snd e)" for e
    by (rule bindingLoop_kept [OF assms(1,3-5) same [OF that(1)] that])
  have new: "refersTo live cache kd role ?k s \<Longrightarrow> refersTo live cache kd role ?k s''"
  proof (cases "?k \<in> snd acc")
    case True
    assume "refersTo live cache kd role ?k s"
    moreover from True J(1) obtain e where "e \<in> set done" "roleExists live s (snd e)" "?k = key e"
      by (auto simp: wantedAt_def)
    ultimately show ?thesis using e [of e] same [of e] by simp
  next
    case False
    assume "refersTo live cache kd role ?k s"
    moreover have "still live cache (kd, ?k) s s'" by (rule J(3) [OF False])
    ultimately have "refersTo live cache kd role ?k s'" by (rule refersTo_still)
    then show ?thesis by (rule assms(4))
  qed
  have rest: "still live cache y s s''" if "still live cache y s s'" "y \<noteq> (kd, ?k)" for y
    by (rule still_trans [OF that(1) assms(5) [OF that(2)]])
  show ?thesis
    unfolding bindingLoopAt_def
  proof (intro conjI)
    show "(fst acc, insert ?k (snd acc)) =
        (missing live s (done @ [(am, role)]), wantedAt live key s (done @ [(am, role)]))"
      using J(1) assms(2) by (auto simp: missing_def wantedAt_def)
    show "\<forall>k. still live cache (KClusterRole, k) s s''"
      using assms(7) by (auto intro!: rest J(2))
    show "\<forall>k. k \<notin> snd (fst acc, insert ?k (snd acc)) \<longrightarrow> still live cache (kd, k) s s''"
      by (auto intro!: rest J(3))
    show "\<forall>e \<in> set (done @ [(am, role)]). roleExists live s (snd e) \<longrightarrow> entryGrantedAt live kd owner key s'' e \<and>
        (refersTo live cache kd (snd e) (key e) s \<longrightarrow>
         refersTo live cache kd (snd e) (key e) s'')"
      using e new assms(3) by (auto simp: entryGrantedAt_def)
  qed
qed

lemma bindingLoop_read:
  assumes "bindingLoopAt live cache kd owner key s done acc s'" and "touches live cache {} s' s''"
  shows "bindingLoopAt live cache kd owner key s done acc s''"
proof -
  have st: "still live cache x s' s''" for x by (rule touches_still [OF assms(2)]) simp
  show ?thesis
    using assms(1) unfolding bindingLoopAt_def entryGrantedAt_def
    by (meson st still_trans granted_still refersTo_still)
qed

lemma bindingLoop_missing:
  assumes "bindingLoopAt live cache kd owner key s done acc s'" and "\<not> roleExists live s role"
  shows "bindingLoopAt live cache kd owner key s (done @ [(am, role)]) (fst acc @ [missingRef role], snd acc) s'"
proof -
  have "wantedAt live key s (done @ [(am, role)]) = wantedAt live key s done"
    using assms(2) by (auto simp: wantedAt_def)
  moreover have "missing live s (done @ [(am, role)]) = missing live s done @ [missingRef role]"
    using assms(2) by (simp add: missing_def)
  ultimately show ?thesis
    using assms unfolding bindingLoopAt_def by auto
qed

text \<open>What the loop may start from: informers that are fresh where it looks.\<close>

definition loopReadyAt :: "('s \<Rightarrow> table) \<Rightarrow> ('s \<Rightarrow> table) \<Rightarrow> kind \<Rightarrow> (access_mapping \<times> string \<Rightarrow> objkey) \<Rightarrow>
    (access_mapping \<times> string) list \<Rightarrow> 's \<Rightarrow> bool" where
  "loopReadyAt live cache kd key es s \<longleftrightarrow>
     fresh live cache KClusterRole s \<and>
     (\<forall>k \<in> key ` set es. cache s (kd, k) = live s (kd, k)) \<and>
     consistentAt key es \<and> repairableAt live kd key es s"

text \<open>At each entry, the key is untouched so far or holds the right binding for it already.\<close>

lemma bindingLoop_ready:
  assumes "bindingLoopAt live cache kd owner key s done acc s'" and "loopReadyAt live cache kd key es s"
    and "es = done @ e # todo"
  shows "cache s' (kd, key e) = live s' (kd, key e) \<or>
    entryGrantedAt live kd owner key s' e \<and> refersTo live cache kd (snd e) (key e) s'"
proof (cases "key e \<in> snd acc")
  case False
  then have "still live cache (kd, key e) s s'"
    using assms(1) unfolding bindingLoopAt_def by blast
  moreover have "key e \<in> key ` set es"
    using assms(3) by simp
  ultimately show ?thesis
    using assms(2) by (auto simp: loopReadyAt_def still_def)
next
  case True
  then obtain e' where e': "e' \<in> set done" "roleExists live s (snd e')" "key e = key e'"
    using assms(1) by (auto simp: bindingLoopAt_def wantedAt_def)
  then have same: "snd e' = snd e" "subjectsFor (fst e') = subjectsFor (fst e)"
    using assms(2,3) unfolding loopReadyAt_def consistentAt_def by auto
  have J: "entryGrantedAt live kd owner key s' e'" "refersTo live cache kd (snd e') (key e') s \<Longrightarrow>
      refersTo live cache kd (snd e') (key e') s'"
    using assms(1) e'(1,2) unfolding bindingLoopAt_def by blast+
  have "1 \<le> count_list (map key done) (key e)"
    using e'(1,3) by (metis count_list_0_iff image_eqI less_one linorder_not_less list.set_map)
  then have "count_list (map key es) (key e) \<noteq> 1"
    using assms(3) by simp
  moreover have "e \<in> set es" using assms(3) by simp
  ultimately have "\<forall>b. live s (kd, key e) = Some (OBinding b) \<longrightarrow>
      b_roleRef b = clusterRoleRef (snd e)"
    using assms(2) unfolding loopReadyAt_def repairableAt_def by blast
  moreover have "cache s (kd, key e) = live s (kd, key e)"
    using assms(2) \<open>e \<in> set es\<close> by (simp add: loopReadyAt_def image_eqI)
  ultimately have "refersTo live cache kd (snd e) (key e) s"
    by (simp add: refersTo_def seen_def)
  with J e'(3) same show ?thesis by (simp add: entryGrantedAt_def)
qed

section \<open>Outcomes\<close>

text \<open>The error inside the one a reconcile returns.\<close>

fun passError :: "reconcile_error option \<Rightarrow> error option" where
  "passError None = None"
| "passError (Some (Retry e)) = Some e"
| "passError (Some (Terminal e)) = Some e"

lemma passError_terminal [simp]: "passError (terminal r e) = e"
  by (cases e) (simp_all add: terminal_def)

definition invalidOf :: "error + invalid_reference list \<Rightarrow> invalid_reference list" where
  "invalidOf y = (case y of Inl _ \<Rightarrow> [] | Inr xs \<Rightarrow> xs)"

lemma merge_field_same: "merge_field b n b = n"
  by (simp add: merge_field_def)

section \<open>At both kinds\<close>

sublocale kube_env \<subseteq> rbl: binding_laws live cache KRoleBinding "isNotFound r" "e_rb r"
  by unfold_locales

sublocale kube_env \<subseteq> crbl: binding_laws live cache KClusterRoleBinding "isNotFound r" "e_crb r"
  by unfold_locales

end
