(* ===== verification/Mns_Safety.thy ===== *)
theory Mns_Safety
  imports Mns_Frame Binding_Sync
begin

text \<open>
  Safety of a ManagedNamespace pass, as instances of the invariants it keeps: it makes no request it
  is not entitled to, it leaves every object alone that neither is its own nor was seen to be owned,
  and once the grants dropped from the spec are revoked no later step brings one back.
\<close>

section \<open>Confinement\<close>

sublocale kube_env \<subseteq> confined: mns_reconcile r live cache "emits (mnsRequest mns) w0"
    "mnsRequest mns" UNIV "\<lambda>_ _. True" mns
  for mns :: managed_namespace and w0 :: "'s world"
  by unfold_locales (auto simp: request_def mnsRevokes_Request mnsFinal_Request
      mnsProvisions_Request)

sublocale kube_env \<subseteq> final: mns_finalizing r live cache "emits (mnsFinal mns) w0"
    "mnsFinal mns" UNIV "\<lambda>_ _. True" mns
  for mns :: managed_namespace and w0 :: "'s world"
  by unfold_locales (auto simp: request_def mnsRevokes_Final)

sublocale kube_env \<subseteq> revoking: mns_revoking r live cache "emits (mnsRevokes mns) w0"
    "mnsRevokes mns" UNIV "\<lambda>_ _. True" mns
  for mns :: managed_namespace and w0 :: "'s world"
  by unfold_locales (auto simp: request_def)

section \<open>Bystanders\<close>

text \<open>
  An object that is neither generated by this ManagedNamespace nor the resource itself, and that
  neither the server nor the cache shows with the owner's labels in the owner's namespace.
\<close>

definition mnsSelf :: "managed_namespace \<Rightarrow> kind \<times> objkey" where
  "mnsSelf mns = (KManagedNamespace, meta_key (mn_meta mns))"

definition bystander :: "('s \<Rightarrow> table) \<Rightarrow> ('s \<Rightarrow> table) \<Rightarrow> managed_namespace \<Rightarrow>
    kind \<times> objkey \<Rightarrow> 's \<Rightarrow> bool" where
  "bystander live cache mns x s \<longleftrightarrow>
     x \<notin> mnsGenerated mns \<and> (\<forall>ob. seen live cache s x ob \<longrightarrow> \<not> mnsOwned mns x ob)"

lemma bystander_touches:
  assumes "touches live cache Y s s'" and "bystander live cache mns x s" and "x \<notin> Y"
  shows "bystander live cache mns x s' \<and> live s' x = live s x"
  using touches_live [OF assms(1,3)] touches_cache [OF assms(1), of x] assms(2)
  unfolding bystander_def seen_def by auto

text \<open>\<open>sync\<close> leaves every bystander alone, the resource itself among them.\<close>

sublocale kube_env \<subseteq> spared: mns_pass r live cache
    "\<lambda>w. bystander live cache mns x (ext w) \<and> live (ext w) x = v"
    "\<lambda>_. True" "mnsGenerated mns" "\<lambda>y ob. mnsOwned mns y ob \<or> y \<in> mnsGenerated mns" mns
  for mns :: managed_namespace and x :: "kind \<times> objkey" and v :: "obj option"
proof (unfold_locales, goal_cases)
  case (2 w s' vb y ok)
  then show ?case using bystander_touches [OF 2(2), of mns x] by auto
next
  case (3 w y s' vb ok)
  then have "y \<noteq> x" by (auto simp: bystander_def)
  with 3 show ?case using bystander_touches [OF 3(2), of mns x] by auto
next
  case (4 w w1 y ob s' ok)
  then have "y \<noteq> x" by (auto simp: bystander_def)
  with 4 show ?case using bystander_touches [OF 4(5), of mns x] by auto
qed (auto simp: mnsOwned_def mnsGenerated_def mnsProvided_def)

text \<open>The whole pass leaves every bystander alone but for the resource it is about.\<close>

sublocale kube_env \<subseteq> untouched: mns_reconcile r live cache
    "\<lambda>w. x \<noteq> mnsSelf mns \<and> bystander live cache mns x (ext w) \<and> live (ext w) x = v"
    "\<lambda>_. True" "insert (mnsSelf mns) (mnsGenerated mns)"
    "\<lambda>y ob. mnsOwned mns y ob \<or> y \<in> mnsGenerated mns" mns
  for mns :: managed_namespace and x :: "kind \<times> objkey" and v :: "obj option"
proof (unfold_locales, goal_cases)
  case (2 w s' vb y ok)
  then show ?case using bystander_touches [OF 2(2), of mns x] by auto
next
  case (3 w y s' vb ok)
  then have "y \<noteq> x" by (auto simp: bystander_def)
  with 3 show ?case using bystander_touches [OF 3(2), of mns x] by auto
next
  case (4 w w1 y ob s' ok)
  then have "y \<noteq> x" by (auto simp: bystander_def)
  with 4 show ?case using bystander_touches [OF 4(5), of mns x] by auto
qed (auto simp: mnsOwned_def mnsGenerated_def mnsProvided_def mnsSelf_def)

text \<open>A pass over a terminating resource changes nothing but RoleBindings and the resource.\<close>

sublocale kube_env \<subseteq> retained: mns_finalizing r live cache
    "\<lambda>w. fst x \<noteq> KRoleBinding \<and> x \<noteq> mnsSelf mns \<and> live (ext w) x = v"
    "\<lambda>_. True" "{mnsSelf mns}" "\<lambda>y ob. fst y = KRoleBinding" mns
  for mns :: managed_namespace and x :: "kind \<times> objkey" and v :: "obj option"
proof (unfold_locales, goal_cases)
  case (2 w s' vb y ok)
  then show ?case using touches_live [OF 2(2), of x] by auto
next
  case (3 w y s' vb ok)
  then show ?case using touches_live [OF 3(2), of x] by auto
next
  case (4 w w1 y ob s' ok)
  then have "y \<noteq> x" by auto
  with 4 show ?case using touches_live [OF 4(5), of x] by auto
qed (auto simp: mnsSelf_def)

section \<open>Revocation\<close>

text \<open>The owned bindings of a ManagedNamespace.\<close>

abbreviation revoked :: "('s \<Rightarrow> table) \<Rightarrow> managed_namespace \<Rightarrow> objkey set \<Rightarrow> 's \<Rightarrow> bool" where
  "revoked live mns W s \<equiv> revokedAt live KRoleBinding (selects (ownedBy mns)) W s"

abbreviation noneOwned :: "('s \<Rightarrow> table) \<Rightarrow> managed_namespace \<Rightarrow> 's \<Rightarrow> bool" where
  "noneOwned live mns s \<equiv> noneOwnedAt live KRoleBinding (selects (ownedBy mns)) s"

text \<open>Once that holds, the steps that follow keep it: they write wanted bindings only.\<close>

sublocale kube_env \<subseteq> revocation: mns_reconcile r live cache
    "\<lambda>w. revoked live mns (specBindings mns) (ext w)"
    "\<lambda>_. True" "insert (mnsSelf mns) (mnsGenerated mns)" "\<lambda>_ _. True" mns
  for mns :: managed_namespace
proof (unfold_locales, goal_cases)
  case (2 w s' vb y ok)
  have "revoked live mns (specBindings mns) s'"
    using touches_live [OF 2(2)] by (intro revoked_step [OF 2(1)]) simp
  then show ?case by simp
next
  case (3 w y s' vb ok)
  then have "live s' (KRoleBinding, k) = live (ext w) (KRoleBinding, k)" if "k \<notin> specBindings mns" for k
  proof -
    have "y \<noteq> (KRoleBinding, k)" using that 3(3) by (auto simp: mnsGenerated_def mnsProvided_def mnsSelf_def)
    then show ?thesis using touches_live [OF 3(2)] by simp
  qed
  with 3(1) show ?case by (simp add: revoked_step)
next
  case (4 w w1 y ob s' ok)
  have "live s' (KRoleBinding, k) = live (ext w) (KRoleBinding, k) \<or>
      (\<forall>b. live s' (KRoleBinding, k) = Some (OBinding b) \<longrightarrow> terminating (b_meta b))" for k
    using 4(6) touches_live [OF 4(5), of "(KRoleBinding, k)"]
    by (cases "y = (KRoleBinding, k)") (auto simp: dropped_def)
  with 4(1) show ?case by (simp add: revoked_step)
qed (auto simp: mnsSelf_def mnsGenerated_def)

context kube_env begin

text \<open>A prune that succeeds, started on a fresh cache, has revoked what it was told not to keep.\<close>

lemma wp_pruneBindings:
  assumes "fresh live cache KRoleBinding (ext w)"
  shows "wp (pruneBindings r mns (Some W)) (\<lambda>x w'. x = Inr () \<longrightarrow> revoked live mns W (ext w')) w"
  unfolding pruneBindings_def wp_bindE
proof (rule rb.wp_list, goal_cases)
  case (1 items s')
  have "live s' = live (ext w)" using touches_live [OF 1(1)] by auto
  then show ?case
    using 1(2) unfolding sum.case
    by (intro rbl.wp_drop_loop) (auto simp: freshD [OF assms])
qed simp

text \<open>
  However a sync ends, the grants the spec dropped are revoked; or the revocation itself failed, and
  then nothing else was attempted.
\<close>

lemma sync_revokes:
  assumes "fresh live cache KRoleBinding (ext w)" and "sync r mns w = (x, w')"
  shows "revoked live mns (specBindings mns) (ext w') \<or> (isl x \<and> emits (mnsRevokes mns) w w')"
proof -
  obtain y w1 where p: "pruneBindings r mns (Some (specBindings mns)) w = (y, w1)"
    by (cases "pruneBindings r mns (Some (specBindings mns)) w")
  have ev: "emits (mnsRevokes mns) w w1"
    using keepsD [OF revoking.keeps_pruneBindings, of mns w w] p by simp
  show ?thesis
  proof (cases y)
    case (Inl e)
    with p assms(2) have "x = Inl e" "w' = w1" by (auto simp: sync_def bindE_def)
    with ev show ?thesis by simp
  next
    case (Inr u)
    have "y = Inr () \<longrightarrow> revoked live mns (specBindings mns) (ext w1)"
      using wpD [OF wp_pruneBindings [OF assms(1)] p] .
    moreover from p Inr assms(2) have "bindE (ensureNamespace r mns)
        (\<lambda>_. bindE (reconcileQuota r mns) (\<lambda>_. reconcileBindings r mns)) w1 = (x, w')"
      by (simp add: sync_def bindE_def)
    then have "revoked live mns (specBindings mns) (ext w1) \<Longrightarrow>
        revoked live mns (specBindings mns) (ext w')"
      by (rule keepsD [rotated 2])
        (intro keeps_bindE revocation.keeps_ensureNamespace revocation.keeps_reconcileQuota
          revocation.keeps_reconcileBindings)+
    ultimately show ?thesis using Inr by simp
  qed
qed

text \<open>Finalizing: done means nothing owned was left, not done that what is left is going.\<close>

lemma live_owned_list:
  assumes "api VLiveList KRoleBinding k (e_live_rb r (ownedBy mns)) w = (x, w1)"
  shows "live (ext w1) = live (ext w)"
    and "x = Inr items \<Longrightarrow> b \<in> set items \<longleftrightarrow>
      live (ext w) (KRoleBinding, b_key b) = Some (OBinding b) \<and> selects (ownedBy mns) (b_meta b)"
  using assms touches_live [OF live_rb_frame] live_rb_items by (auto dest!: api_result)

lemma finalizeBindings_done:
  assumes "finalizeBindings r mns w = (Inr True, w')"
  shows "live (ext w') = live (ext w)" and "\<forall>b. live (ext w) (KRoleBinding, b_key b) =
    Some (OBinding b) \<longrightarrow> \<not> selects (ownedBy mns) (b_meta b)"
proof -
  from assms obtain items w1 where 1:
    "api VLiveList KRoleBinding (mn_name mns, []) (e_live_rb r (ownedBy mns)) w = (Inr items, w1)"
    unfolding finalizeBindings_def by (blast dest: bindE_result)
  with assms have "items = [] \<and> w' = w1"
    by (auto simp: finalizeBindings_def bindE_def ret_def split: if_splits prod.splits sum.splits)
  with live_owned_list [OF 1] show "live (ext w') = live (ext w)"
    and "\<forall>b. live (ext w) (KRoleBinding, b_key b) =
      Some (OBinding b) \<longrightarrow> \<not> selects (ownedBy mns) (b_meta b)" by auto
qed

lemma finalizeBindings_revokes:
  "wp (finalizeBindings r mns) (\<lambda>x w'. \<not> isl x \<longrightarrow> revoked live mns {} (ext w')) w"
  unfolding finalizeBindings_def wp_bindE
proof (rule wpI, goal_cases)
  case (1 x w1)
  show ?case
  proof (cases x)
    case (Inr items)
    note list = live_owned_list [OF 1]
    have "wp (for_each (\<lambda>it. if \<not> terminating (b_meta it) then deleteTolerant r KRoleBinding (e_rb r) b_meta
          (logResourceDeleted ''RoleBinding'' (om_namespace (b_meta it)) (om_name (b_meta it))
            ''ManagedNamespace'' (mn_name mns)) it else ret ()) items)
        (\<lambda>x w'. x = Inr () \<longrightarrow> revoked live mns {} (ext w')) w1"
      using list(2) [OF Inr] by (intro rbl.wp_drop_loop) (auto simp: list(1))
    then have "wp (for_each (\<lambda>it. if terminating (b_meta it) then ret () else
          deleteTolerant r KRoleBinding (e_rb r) b_meta
          (logResourceDeleted ''RoleBinding'' (om_namespace (b_meta it)) (om_name (b_meta it))
            ''ManagedNamespace'' (mn_name mns)) it) items)
        (\<lambda>x w'. case x of Inl e \<Rightarrow> True | Inr _ \<Rightarrow> revoked live mns {} (ext w')) w1"
      unfolding if_not by (rule wp_conseq) (auto split: sum.split)
    moreover have "revoked live mns {} (ext w1)" if "items = []"
      using list(2) [OF Inr] that by (auto simp: revokedAt_def list(1))
    ultimately show ?thesis using Inr by (auto elim!: wp_conseq split: sum.splits)
  qed simp
qed

lemma finalizeBindings_progress:
  assumes "finalizeBindings r mns w = (Inr gone, w')"
  shows "revoked live mns {} (ext w') \<and>
    (gone \<longrightarrow> noneOwned live mns (ext w') \<and> live (ext w') = live (ext w))"
  using wpD [OF finalizeBindings_revokes assms] finalizeBindings_done [of mns w w'] assms
  by (auto simp: noneOwnedAt_def)

section \<open>The finalizer\<close>

lemma self_bystander: "bystander live cache mns (mnsSelf mns) s"
  by (auto simp: bystander_def mnsSelf_def mnsGenerated_def mnsProvided_def mnsOwned_def)

text \<open>
  A pass that changes a terminating resource on the server (it can only take the finalizer away, and
  with it the resource) has seen on the server itself that no owned binding is left.
\<close>

lemma Reconcile_finalizer:
  assumes "cache (ext w) (KManagedNamespace, q) = Some (OManagedNamespace mns)"
    and "terminating (mn_meta mns)" and "Reconcile r q w = (x, w')"
    and "live (ext w') (KManagedNamespace, q) \<noteq> live (ext w) (KManagedNamespace, q)"
  shows "noneOwned live mns (ext w')"
proof -
  have key: "mnsSelf mns = (KManagedNamespace, q)"
    using mns.cache_key [OF assms(1)] by (simp add: mnsSelf_def)
  let ?v = "live (ext w) (KManagedNamespace, q)"
  have "wp (Reconcile r q) (\<lambda>_ w'. live (ext w') (KManagedNamespace, q) \<noteq> ?v \<longrightarrow> noneOwned live mns (ext w')) w"
    unfolding Reconcile_def wp_bindE wp_attempt
  proof (rule mns.wp_get, goal_cases)
    case (1 ob s')
    then have ob: "ob = mns" using assms(1) by simp
    let ?w = "w\<lparr>ext := s', trace := trace w @ [Api VGet KManagedNamespace (fst q) (snd q) True]\<rparr>"
    have s': "live s' = live (ext w)" using touches_live [OF 1(1)] by auto
    obtain g w1 where fin: "finalizeBindings r mns ?w = (g, w1)" by (cases "finalizeBindings r mns ?w")
    have same: "live (ext w1) (KManagedNamespace, q) = ?v"
      using keepsD [OF spared.keeps_finalizeBindings [where x = "mnsSelf mns" and v = ?v] _ fin]
        self_bystander [of mns] s' key
      by simp
    have last: "wp (patchFinalizer r mns m) (\<lambda>_ w'. noneOwned live mns (ext w')) (w1\<lparr>trace := t\<rparr>)"
      if "g = Inr True" for m t
    proof -
      have "noneOwned live mns (ext w1)"
        using finalizeBindings_done [OF fin [unfolded that]] by (simp add: noneOwnedAt_def)
      then show ?thesis
        unfolding patchFinalizer_def wp_attempt
        by (intro mns.wp_patch) (auto dest: noneOwned_touches)
    qed
    have "wp (finalizeBindings r mns) Q ?w = Q g w1" for Q using fin by (simp add: wp_def)
    then show ?case
      using same by (auto simp: ob assms(2) split: sum.split intro!: wp_conseq [OF last])
  next
    case (2 e s')
    then show ?case using touches_live [OF 2(1)] by auto
  qed
  then show ?thesis using assms(3,4) wpD by fastforce
qed

section \<open>Whole passes\<close>

lemma Reconcile_confined:
  assumes "cache (ext w) (KManagedNamespace, q) = Some (OManagedNamespace mns)"
    and "Reconcile r q w = (x, w')"
  shows "emits (mnsRequest mns) w w'"
  by (rule confined.Reconcile_keeps [OF assms(1) _ assms(2)]) simp

lemma Reconcile_final_confined:
  assumes "cache (ext w) (KManagedNamespace, q) = Some (OManagedNamespace mns)"
    and "terminating (mn_meta mns)" and "Reconcile r q w = (x, w')"
  shows "emits (mnsFinal mns) w w'"
  by (rule final.Reconcile_terminating_keeps [OF assms(1) _ assms(2,3)]) simp

lemma Reconcile_untouched:
  assumes "cache (ext w) (KManagedNamespace, q) = Some (OManagedNamespace mns)"
    and "Reconcile r q w = (x, w')" and "y \<noteq> mnsSelf mns" and "bystander live cache mns y (ext w)"
  shows "live (ext w') y = live (ext w) y"
  using untouched.Reconcile_keeps [OF assms(1) _ assms(2), of y "live (ext w) y"] assms(3,4) by simp

lemma Reconcile_retains:
  assumes "cache (ext w) (KManagedNamespace, q) = Some (OManagedNamespace mns)"
    and "terminating (mn_meta mns)" and "Reconcile r q w = (x, w')"
    and "fst y \<noteq> KRoleBinding" and "y \<noteq> mnsSelf mns"
  shows "live (ext w') y = live (ext w) y"
  using retained.Reconcile_terminating_keeps [OF assms(1) _ assms(2,3), of y "live (ext w) y"] assms(4,5)
  by simp

text \<open>A pass never ends with an error of its own: every error is in the result it returns.\<close>

lemma sync_spares_self:
  "sync r mns w = (x, w') \<Longrightarrow> live (ext w') (mnsSelf mns) = live (ext w) (mnsSelf mns)"
  using keepsD [OF spared.keeps_sync [where x = "mnsSelf mns" and v = "live (ext w) (mnsSelf mns)"]]
    self_bystander by blast

end

end
