(* ===== verification/Mns_Convergence.thy ===== *)
theory Mns_Convergence
  imports Mns_Safety
begin

text \<open>
  A sync that completes has made the server's state what the spec describes: this follows the
  bindings through the loop of \<open>reconcileBindings\<close> and then through the whole of \<open>sync\<close>.
\<close>

section \<open>The loop over the mappings\<close>

text \<open>The role references \<open>reconcileBindings\<close> works through, in order.\<close>

definition entries :: "managed_namespace \<Rightarrow> (access_mapping \<times> string) list" where
  "entries mns = concat (map mappingEntries (sp_accessMappings (mn_spec mns)))"

definition entryKey :: "managed_namespace \<Rightarrow> access_mapping \<times> string \<Rightarrow> objkey" where
  "entryKey mns e = keyed mns (fst e) (snd e)"

lemma entries_iff:
  "(am, role) \<in> set (entries mns) \<longleftrightarrow> am \<in> set (sp_accessMappings (mn_spec mns)) \<and>
     mappingErrors am = [] \<and> role \<in> set (am_clusterRoles am)"
  by (auto simp: entries_def mappingEntries_def simp del: mappingErrors_Nil_iff)

lemma specBindings_entries: "specBindings mns = entryKey mns ` set (entries mns)"
proof -
  have "k \<in> specBindings mns \<longleftrightarrow> k \<in> entryKey mns ` set (entries mns)" for k
    unfolding specBindings_iff
  proof
    assume "k \<in> entryKey mns ` set (entries mns)"
    then show "\<exists>am \<in> set (sp_accessMappings (mn_spec mns)). subjectsFor am \<noteq> [] \<and>
        (\<exists>role \<in> set (am_clusterRoles am). k = keyed mns am role)"
      by (force simp: entries_iff entryKey_def)
  next
    assume "\<exists>am \<in> set (sp_accessMappings (mn_spec mns)). subjectsFor am \<noteq> [] \<and>
        (\<exists>role \<in> set (am_clusterRoles am). k = keyed mns am role)"
    then obtain am role where 1: "am \<in> set (sp_accessMappings (mn_spec mns))"
        "subjectsFor am \<noteq> []" "role \<in> set (am_clusterRoles am)" "k = keyed mns am role"
      by blast
    then have "am_clusterRoles am \<noteq> []" by auto
    with 1 have "(am, role) \<in> set (entries mns)" by (simp add: entries_iff)
    with 1(4) show "k \<in> entryKey mns ` set (entries mns)"
      by (force simp: entryKey_def)
  qed
  then show ?thesis by blast
qed

text \<open>
  A proof rule: an invariant of the entries done so far that log lines do not disturb carries
  through the nested loops.
\<close>

lemma wp_binding_loop:
  assumes "I [] ([], {}) w"
    and "\<And>done acc w xs i. I done acc w \<Longrightarrow> I done acc (w\<lparr>trace := trace w @ [LogError xs i]\<rparr>)"
    and "\<And>done am role todo acc w. entries mns = done @ (am, role) # todo \<Longrightarrow> I done acc w \<Longrightarrow>
      wp (bindRole r mns (subjectKey am) (subjectsFor am) acc role)
        (\<lambda>x w'. case x of Inl e \<Rightarrow> Q (Inl e) w' | Inr acc' \<Rightarrow> I (done @ [(am, role)]) acc' w') w"
    and "\<And>acc w. I (entries mns) acc w \<Longrightarrow> Q (Inr acc) w"
  shows "wp (fold_io (bindMapping r mns) ([], {}) (List.enumerate 0 (sp_accessMappings (mn_spec mns)))) Q w"
proof (rule wp_fold_io [where I = "\<lambda>ds. I (concat (map (mappingEntries \<circ> snd) ds))"], goal_cases)
  case 1
  then show ?case using assms(1) by simp
next
  case (2 ds iam todo acc w)
  obtain i am where iam: "iam = (i, am)" by (cases iam)
  let ?ds = "concat (map (mappingEntries \<circ> snd) ds)"
  have "map snd (List.enumerate 0 (sp_accessMappings (mn_spec mns))) = map snd ds @ am # map snd todo"
    using 2(1) iam by simp
  then have all: "entries mns = ?ds @ mappingEntries am @ concat (map (mappingEntries \<circ> snd) todo)"
    by (simp add: entries_def flip: map_map)
  let ?P = "\<lambda>x w'. case x of Inl e \<Rightarrow> Q (Inl e) w'
    | Inr acc' \<Rightarrow> I (concat (map (mappingEntries \<circ> snd) (ds @ [iam]))) acc' w'"
  have roles: "wp (fold_io (bindRole r mns (subjectKey am) (subjectsFor am)) acc (am_clusterRoles am)) ?P w1"
    if valid: "mappingErrors am = []" and I: "I ?ds acc w1" for w1
  proof (rule wp_fold_io [where I = "\<lambda>rs. I (?ds @ map (Pair am) rs)"], goal_cases)
    case (2 rs role rest acc' w2)
    from 2 all valid have "wp (bindRole r mns (subjectKey am) (subjectsFor am) acc' role)
        (\<lambda>x w'. case x of Inl e \<Rightarrow> Q (Inl e) w'
          | Inr acc' \<Rightarrow> I ((?ds @ map (Pair am) rs) @ [(am, role)]) acc' w') w2"
      by (intro assms(3)) (simp_all add: mappingEntries_def del: mappingErrors_Nil_iff)
    then show ?case by (rule wp_conseq) (auto split: sum.splits)
  qed (use I valid in \<open>auto simp: iam mappingEntries_def simp del: mappingErrors_Nil_iff\<close>)
  show ?case
    unfolding bindMapping_def iam prod.case wp_bindE
  proof (rule wp_for_each [where I = "\<lambda>_. I ?ds acc"], goal_cases)
    case (2 msgs m ms w1)
    then show ?case using assms(2) by simp
  next
    case (3 w1)
    then show ?case
      using roles [OF _ 3, unfolded iam] by (auto simp: iam mappingEntries_def simp del: mappingErrors_Nil_iff)
  qed (rule 2(2))
next
  case (3 acc w)
  moreover have "concat (map (mappingEntries \<circ> snd) (List.enumerate 0 (sp_accessMappings (mn_spec mns))))
      = entries mns"
    by (simp add: entries_def flip: map_map)
  ultimately show ?case using assms(4) by simp
qed

section \<open>The bindings of one ManagedNamespace\<close>

abbreviation wanted :: "('s \<Rightarrow> table) \<Rightarrow> managed_namespace \<Rightarrow> 's \<Rightarrow> (access_mapping \<times> string) list \<Rightarrow> objkey set" where
  "wanted live mns s es \<equiv> wantedAt live (entryKey mns) s es"

abbreviation namesConsistent :: "managed_namespace \<Rightarrow> bool" where
  "namesConsistent mns \<equiv> consistentAt (entryKey mns) (entries mns)"

abbreviation repairable :: "('s \<Rightarrow> table) \<Rightarrow> managed_namespace \<Rightarrow> 's \<Rightarrow> bool" where
  "repairable live mns s \<equiv> repairableAt live KRoleBinding (entryKey mns) (entries mns) s"

abbreviation entryGranted :: "('s \<Rightarrow> table) \<Rightarrow> managed_namespace \<Rightarrow> 's \<Rightarrow> access_mapping \<times> string \<Rightarrow> bool" where
  "entryGranted live mns s e \<equiv> entryGrantedAt live KRoleBinding (mn_name mns) (entryKey mns) s e"

abbreviation bindingLoop :: "('s \<Rightarrow> table) \<Rightarrow> ('s \<Rightarrow> table) \<Rightarrow> managed_namespace \<Rightarrow> 's \<Rightarrow>
    (access_mapping \<times> string) list \<Rightarrow> invalid_reference list \<times> objkey set \<Rightarrow> 's \<Rightarrow> bool" where
  "bindingLoop live cache mns s done acc s' \<equiv>
     bindingLoopAt live cache KRoleBinding (mn_name mns) (entryKey mns) s done acc s'"

abbreviation loopReady :: "('s \<Rightarrow> table) \<Rightarrow> ('s \<Rightarrow> table) \<Rightarrow> managed_namespace \<Rightarrow> 's \<Rightarrow> bool" where
  "loopReady live cache mns s \<equiv> loopReadyAt live cache KRoleBinding (entryKey mns) (entries mns) s"

text \<open>\<open>ensureRoleBinding\<close> is the shared function, at RoleBindings of the managed namespace.\<close>

lemma ensureRoleBinding_eq:
  "ensureRoleBinding r mns name role subjects =
     ensureBinding r KRoleBinding ''RoleBinding'' (e_rb r) (mn_name mns) name role subjects
       (\<lambda>b. om_namespace (b_meta b)) ''ManagedNamespace'' (mn_name mns)"
  by (simp add: ensureRoleBinding_def ensureBinding_def)

context kube_env begin

lemma wp_bindRole:
  assumes "bindingLoop live cache mns s done acc (ext w)" and "loopReady live cache mns s"
    and "entries mns = done @ (am, role) # todo"
  shows "wp (bindRole r mns (subjectKey am) (subjectsFor am) acc role)
    (\<lambda>x w'. \<forall>acc'. x = Inr acc' \<longrightarrow>
       bindingLoop live cache mns s (done @ [(am, role)]) acc' (ext w')) w"
proof -
  let ?x = "(KClusterRole, [], role)"
  have still: "still live cache ?x s (ext w)" using assms(1) unfolding bindingLoopAt_def by blast
  moreover have "cache s ?x = live s ?x" using assms(2) by (simp add: loopReadyAt_def freshD)
  ultimately have role: "cache (ext w) ?x = live s ?x" by (auto simp: still_def)
  have key: "entryKey mns (am, role) = (mn_name mns, BindingName (mn_name mns) (subjectKey am) role)"
    by (simp add: entryKey_def keyed_def)
  show ?thesis
    unfolding bindRole_def Let_def wp_bindE wp_attempt
  proof (rule role.wp_get, goal_cases)
    case (2 e s')
    then have "isNotFound r e \<Longrightarrow> \<not> roleExists live s role" using role by (simp add: roleExists_def)
    then show ?case
      using bindingLoop_missing [OF bindingLoop_read [OF assms(1) 2(1)]] by (simp add: missingRef_def)
  next
    case (1 cr s')
    let ?w1 = "w\<lparr>ext := s', trace := trace w @ [Api VGet KClusterRole [] role True]\<rparr>"
    have ex: "roleExists live s role" using 1(2) role by (simp add: roleExists_def)
    have J: "bindingLoop live cache mns s done acc s'" by (rule bindingLoop_read [OF assms(1) 1(1)])
    have "wp (ensureRoleBinding r mns (BindingName (mn_name mns) (subjectKey am) role) role (subjectsFor am))
        (\<lambda>x w'. \<not> isl x \<longrightarrow> bindingLoop live cache mns s (done @ [(am, role)])
           (fst acc, insert (entryKey mns (am, role)) (snd acc)) (ext w')) ?w1"
    unfolding ensureRoleBinding_eq
    proof (rule rbl.wp_ensureBinding [OF _ key], goal_cases)
      case 1
      then show ?case
        using bindingLoop_ready [OF J assms(2,3)] by (simp add: entryGrantedAt_def)
    next
      case (2 w')
      then show ?case
        using assms(2) bindingLoop_step [OF J ex 2(1) _ _ _ _ assms(3)] by (simp add: loopReadyAt_def)
    qed simp
    then show ?case
      by (simp add: key) (erule wp_conseq, auto split: sum.splits)
  qed
qed

end

section \<open>What a completed sync has established\<close>

text \<open>
  The bindings are in sync with the spec, for the roles that existed in \<open>s\<close>: each entry whose role
  exists has its binding, and no other owned binding is in force.
\<close>

definition bindingsSynced ::
  "('s \<Rightarrow> table) \<Rightarrow> managed_namespace \<Rightarrow> 's \<Rightarrow> 's \<Rightarrow> bool" where
  "bindingsSynced live mns s s' \<longleftrightarrow>
     (\<forall>e \<in> set (entries mns). roleExists live s (snd e) \<longrightarrow> entryGranted live mns s' e) \<and>
     revoked live mns (wanted live mns s (entries mns)) s'"

text \<open>Provisioning moves nothing but Namespaces and quotas.\<close>

sublocale kube_env \<subseteq> provision: mns_provisioning r live cache
    "\<lambda>w. fst x \<noteq> KNamespace \<and> fst x \<noteq> KResourceQuota \<and> still live cache x s (ext w)"
    "\<lambda>_. True" "{y. fst y = KNamespace \<or> fst y = KResourceQuota}" "\<lambda>y _. fst y = KResourceQuota" mns
  for mns :: managed_namespace and x :: "kind \<times> objkey" and s :: 's
proof (unfold_locales, goal_cases)
  case (2 w s' vb y ok)
  then show ?case using still_touches [OF _ 2(2), of x s] by auto
next
  case (3 w y s' vb ok)
  then have "x \<noteq> y" by auto
  with 3 show ?case using still_touches [OF _ 3(2), of x s] by auto
next
  case (4 w w1 y ob s' ok)
  then have "x \<noteq> y" by auto
  with 4 show ?case using still_touches [OF _ 4(5), of x s] by auto
qed (auto simp: mnsProvided_def)

context kube_env begin

text \<open>A prune does not move what it was told to keep.\<close>

lemma wp_prune_still:
  assumes "fst x \<noteq> KRoleBinding \<or> snd x \<in> W"
  shows "wp (pruneBindings r mns (Some W)) (\<lambda>_ w'. still live cache x (ext w) (ext w')) w"
  unfolding pruneBindings_def
  by (rule keeps_wp [OF rb.keeps_prune_still]) (use assms in auto)

lemma bindingLoop_end:
  assumes "bindingLoop live cache mns (ext w0) (entries mns) (invalid, want) (ext w)"
    and "loopReady live cache mns (ext w0)" and "revoked live mns (specBindings mns) (ext w)"
  shows "invalid = missing live (ext w0) (entries mns) \<and>
    wp (pruneBindings r mns (Some want))
      (\<lambda>x w'. x = Inr () \<longrightarrow> bindingsSynced live mns (ext w0) (ext w')) w"
proof
  have J: "invalid = missing live (ext w0) (entries mns)" "want = wanted live mns (ext w0) (entries mns)"
    "\<And>k. k \<notin> want \<Longrightarrow> still live cache (KRoleBinding, k) (ext w0) (ext w)"
    "\<And>e. e \<in> set (entries mns) \<Longrightarrow> roleExists live (ext w0) (snd e) \<Longrightarrow> entryGranted live mns (ext w) e"
    using assms(1) unfolding bindingLoopAt_def by auto
  then show "invalid = missing live (ext w0) (entries mns)" by simp
  have known: "cache (ext w) (KRoleBinding, k) = live (ext w) (KRoleBinding, k)"
    if "k \<in> specBindings mns" "k \<notin> want" for k
    using J(3) [OF that(2)] assms(2) that(1) by (auto simp: loopReadyAt_def still_def specBindings_entries)
  have "wp (pruneBindings r mns (Some want)) (\<lambda>x w'. x = Inr () \<longrightarrow> revoked live mns want (ext w')) w"
    unfolding pruneBindings_def wp_bindE
  proof (rule rb.wp_list, goal_cases)
    case (1 items s')
    have same: "live s' = live (ext w)" using touches_live [OF 1(1)] by auto
    have "\<forall>b. live (ext w) (KRoleBinding, b_key b) = Some (OBinding b) \<longrightarrow> selects (ownedBy mns) (b_meta b) \<longrightarrow>
        b_key b \<in> want \<or> terminating (b_meta b) \<or> b \<in> set items"
      using 1(2) assms(3) known unfolding revokedAt_def by metis
    then show ?case
      unfolding sum.case by (intro rbl.wp_drop_loop) (auto simp: same)
  qed simp
  moreover have "wp (pruneBindings r mns (Some want))
      (\<lambda>x w'. \<forall>k \<in> want. still live cache (KRoleBinding, k) (ext w) (ext w')) w"
    by (rule wpI) (auto intro: wpD [OF wp_prune_still, rotated])
  ultimately show "wp (pruneBindings r mns (Some want))
      (\<lambda>x w'. x = Inr () \<longrightarrow> bindingsSynced live mns (ext w0) (ext w')) w"
  proof (rule wp_conj [THEN wp_conseq], goal_cases)
    case (1 x w')
    have "entryGranted live mns (ext w') e"
      if e: "e \<in> set (entries mns)" "roleExists live (ext w0) (snd e)" for e
    proof -
      have "entryKey mns e \<in> want" using e J(2) by (auto simp: wantedAt_def)
      then have "still live cache (KRoleBinding, entryKey mns e) (ext w) (ext w')" using 1 by blast
      with J(4) [OF e] show ?thesis unfolding entryGrantedAt_def by (rule granted_still)
    qed
    with 1 J(2) show ?case by (simp add: bindingsSynced_def)
  qed
qed

text \<open>\<open>reconcileBindings\<close> from a state where the spec's revocations have been made.\<close>

lemma wp_reconcileBindings:
  assumes "loopReady live cache mns (ext w)" and "revoked live mns (specBindings mns) (ext w)"
  shows "wp (reconcileBindings r mns) (\<lambda>x w'. \<forall>invalid. x = Inr invalid \<longrightarrow>
    invalid = missing live (ext w) (entries mns) \<and> bindingsSynced live mns (ext w) (ext w')) w"
  unfolding reconcileBindings_def wp_bindE
proof (rule wp_binding_loop [where I = "\<lambda>done acc w'. bindingLoop live cache mns (ext w) done acc (ext w') \<and>
      revoked live mns (specBindings mns) (ext w')"], goal_cases)
  case 1
  then show ?case using assms(2) by (simp add: bindingLoopAt_def missing_def wantedAt_def)
next
  case (2 "done" acc w1 xs i)
  then show ?case by simp
next
  case (3 "done" am role todo acc w1)
  have e: "(am, role) \<in> set (entries mns)" using 3(1) by simp
  have "wp (bindRole r mns (subjectKey am) (subjectsFor am) acc role)
      (\<lambda>_ w'. revoked live mns (specBindings mns) (ext w')) w1"
    using e 3(2) by (intro keeps_wp [OF revocation.keeps_bindRole]) (auto simp only: entries_iff)
  from wp_conj [OF wp_bindRole [OF conjunct1 [OF 3(2)] assms(1) 3(1)] this] show ?case
    by (rule wp_conseq) (simp split: sum.split)
next
  case (4 acc w1)
  obtain invalid want where acc: "acc = (invalid, want)" by (cases acc)
  have "wp (pruneBindings r mns (Some want))
      (\<lambda>x w'. x = Inr () \<longrightarrow> bindingsSynced live mns (ext w) (ext w')) w1"
    and "invalid = missing live (ext w) (entries mns)"
    using bindingLoop_end [of mns w invalid want w1] 4 assms(1) by (simp_all add: acc)
  then show ?case by (simp add: acc) (erule wp_conseq, auto split: sum.splits)
qed

text \<open>
  A sync that returns without an error, begun with fresh informers, has put the bindings in sync and
  reports exactly the missing roles, in the order of the spec.
\<close>

lemma sync_converges:
  assumes "fresh live cache KRoleBinding (ext w)" and "fresh live cache KClusterRole (ext w)"
    and "namesConsistent mns" and "repairable live mns (ext w)"
    and "sync r mns w = (Inr invalid, w')"
  shows "invalid = missing live (ext w) (entries mns) \<and> bindingsSynced live mns (ext w) (ext w')"
proof -
  from assms(5) obtain u1 w1 u2 w2 u3 w3 where
    1: "pruneBindings r mns (Some (specBindings mns)) w = (Inr u1, w1)" and
    2: "ensureNamespace r mns w1 = (Inr u2, w2)" and
    3: "reconcileQuota r mns w2 = (Inr u3, w3)" and
    4: "reconcileBindings r mns w3 = (Inr invalid, w')"
    unfolding sync_def by (blast dest!: bindE_result)
  have rev: "revoked live mns (specBindings mns) (ext w3)"
    using wpD [OF wp_pruneBindings [OF assms(1)] 1]
      keepsD [OF revocation.keeps_ensureNamespace _ 2] keepsD [OF revocation.keeps_reconcileQuota _ 3]
    by simp
  have still: "still live cache x (ext w) (ext w3)"
    if "fst x \<noteq> KRoleBinding \<or> snd x \<in> specBindings mns" "fst x \<noteq> KNamespace" "fst x \<noteq> KResourceQuota" for x
    using wpD [OF wp_prune_still [OF that(1)] 1] that
      keepsD [OF provision.keeps_ensureNamespace [where x = x and s = "ext w"] _ 2]
      keepsD [OF provision.keeps_reconcileQuota [where x = x and s = "ext w"] _ 3]
    by simp
  have rb: "live (ext w3) (KRoleBinding, k) = live (ext w) (KRoleBinding, k)"
    "cache (ext w3) (KRoleBinding, k) = live (ext w) (KRoleBinding, k)" if "k \<in> specBindings mns" for k
    using still [of "(KRoleBinding, k)"] that freshD [OF assms(1), of k] by (auto simp: still_def)
  have role: "live (ext w3) (KClusterRole, k) = live (ext w) (KClusterRole, k)"
    "cache (ext w3) (KClusterRole, k) = live (ext w) (KClusterRole, k)" for k
    using still [of "(KClusterRole, k)"] freshD [OF assms(2), of k] by (auto simp: still_def)
  have "roleExists live (ext w3) = roleExists live (ext w)"
    by (simp add: fun_eq_iff roleExists_def role)
  then have same: "missing live (ext w3) = missing live (ext w)"
      "bindingsSynced live mns (ext w3) = bindingsSynced live mns (ext w)"
    by (simp_all add: fun_eq_iff missing_def bindingsSynced_def wantedAt_def)
  have "entryKey mns e \<in> specBindings mns" if "e \<in> set (entries mns)" for e
    using that by (simp add: specBindings_entries)
  then have "loopReady live cache mns (ext w3)"
    using assms(3,4) rb role unfolding loopReadyAt_def fresh_def repairableAt_def by auto
  from wpD [OF wp_reconcileBindings [OF this rev] 4] show ?thesis by (simp add: same)
qed

end

end
