(* ===== verification/Cluster_Access.thy ===== *)
theory Cluster_Access
  imports Binding_Ops
begin

text \<open>
  \<open>internal/controller/clusteraccess.go\<close>: the reconciler of ClusterAccessMappings. It has the shape
  of the other one without a namespace and quotas, and with one difference of order: here stale
  bindings are pruned only after every wanted one has been ensured.
\<close>

section \<open>Finalizing and pruning\<close>

definition camOwned :: "cluster_access_mapping \<Rightarrow> list_option list" where
  "camOwned cam = [MatchingLabels (ownerLabelMap (ca_name cam))]"

definition camFinalizeBindings :: "'s env \<Rightarrow> cluster_access_mapping \<Rightarrow> ('s, bool) io" where
  "camFinalizeBindings r cam =
     bindE (api VLiveList KClusterRoleBinding ([], []) (e_live_crb r (camOwned cam)))
       (\<lambda>items.
          if items = [] then ret True
          else bindE
            (for_each (\<lambda>it.
               if terminating (b_meta it) then ret ()
               else deleteTolerant r KClusterRoleBinding (e_crb r) b_meta
                 (logResourceDeleted ''ClusterRoleBinding'' [] (om_name (b_meta it))
                    ''ClusterAccessMapping'' (ca_name cam)) it) items)
            (\<lambda>_. ret False))"

definition camPrune ::
  "'s env \<Rightarrow> cluster_access_mapping \<Rightarrow> string set option \<Rightarrow> ('s, unit) io" where
  "camPrune r cam want =
     bindE (api VList KClusterRoleBinding ([], []) (k_list (e_crb r) (camOwned cam)))
       (for_each (\<lambda>it.
          if (case want of None \<Rightarrow> True | Some W \<Rightarrow> om_name (b_meta it) \<notin> W) then
            deleteTolerant r KClusterRoleBinding (e_crb r) b_meta
              (logResourceDeleted ''ClusterRoleBinding'' [] (om_name (b_meta it))
                 ''ClusterAccessMapping'' (ca_name cam)) it
          else ret ()))"

section \<open>Ensuring one binding\<close>

definition camEnsure ::
  "'s env \<Rightarrow> cluster_access_mapping \<Rightarrow> string \<Rightarrow> string \<Rightarrow> subject list \<Rightarrow> ('s, unit) io" where
  "camEnsure r cam name role subjects =
     (let want = clusterRoleRef role; key = ([], name); fresh = binding_template [] name
      in bindE (attempt (api VGet KClusterRoleBinding key (k_get (e_crb r) key)))
        (\<lambda>got.
           bindE (case got of
               Inl e \<Rightarrow> ret fresh
             | Inr obj \<Rightarrow>
                 if b_roleRef obj \<noteq> want then
                   bindE (api VDelete KClusterRoleBinding (b_key obj) (k_delete (e_crb r) obj))
                     (\<lambda>_. bindE (logResourceDeleted ''ClusterRoleBinding'' []
                         (om_name (b_meta obj)) ''ClusterAccessMapping'' (ca_name cam))
                       (\<lambda>_. ret fresh))
                 else ret obj)
             (\<lambda>obj.
                bindE (api VCreateOrUpdate KClusterRoleBinding (b_key obj)
                    (k_createOrUpdate (e_crb r) (mutateBinding (ca_name cam) want subjects) obj))
                  (\<lambda>(res, b).
                     logResourceChange res ''ClusterRoleBinding'' []
                       (om_name (b_meta b)) ''ClusterAccessMapping'' (ca_name cam)))))"

section \<open>A pass\<close>

text \<open>The loop body of \<open>sync\<close>; the locals are \<open>invalid\<close> and \<open>want\<close>.\<close>

definition camBindRole ::
  "'s env \<Rightarrow> cluster_access_mapping \<Rightarrow> string \<Rightarrow> subject list \<Rightarrow>
   invalid_reference list \<times> string set \<Rightarrow> string \<Rightarrow>
   ('s, invalid_reference list \<times> string set) io" where
  "camBindRole r cam key subjects acc role =
     bindE (attempt (api VGet KClusterRole ([], role) (k_get (e_role r) ([], role))))
       (\<lambda>got. case got of
           Inl e \<Rightarrow>
             if \<not> isNotFound r e then throw e
             else ret (fst acc @ [\<lparr>ir_clusterRole = role, ir_reason = ''ClusterRole not found''\<rparr>], snd acc)
         | Inr _ \<Rightarrow>
             (let name = BindingName (ca_name cam) key role in
              bindE (camEnsure r cam name role subjects)
                (\<lambda>_. ret (fst acc, insert name (snd acc)))))"

definition camSync :: "'s env \<Rightarrow> cluster_access_mapping \<Rightarrow> ('s, invalid_reference list) io" where
  "camSync r cam =
     (let am = ca_spec cam in
      bindE (for_each (\<lambda>msg. emit (LogError [msg,
          ''Skipping access mapping that should have been rejected by CRD validation'',
          ca_name cam] None)) (mappingErrors am))
        (\<lambda>_. bindE
           (if mappingErrors am = [] then
              fold_io (camBindRole r cam (subjectKey am) (subjectsFor am)) ([], {}) (am_clusterRoles am)
            else ret ([], {}))
           (\<lambda>(invalid, want). bindE (camPrune r cam (Some want)) (\<lambda>_. ret invalid))))"

definition camStatus ::
  "'s env \<Rightarrow> cluster_access_mapping \<Rightarrow> invalid_reference list \<Rightarrow> error option \<Rightarrow> ('s, unit) io" where
  "camStatus r cam invalid syncErr =
     bindE (if syncErr = None then emit (GaugeSet ''clusteraccessmapping'' (ca_name cam) (length invalid))
            else ret ())
       (\<lambda>_. bindE (gets (\<lambda>s.
            let gen = om_generation (ca_meta cam);
                st = ca_status cam;
                st' = (if syncErr = None
                       then st\<lparr>cs_observedGeneration := gen, cs_invalidReferences := invalid\<rparr> else st);
                cond = readyCondition r gen ''ClusterRoleBindings are in sync'' invalid syncErr
            in cam\<lparr>ca_status :=
                 st'\<lparr>cs_conditions := setStatusCondition r s (cs_conditions st') cond\<rparr>\<rparr>))
         (\<lambda>cam'. api VStatusPatch KClusterAccessMapping (meta_key (ca_meta cam))
            (k_statusPatch (e_cam r) cam cam')))"

definition camPatchFinalizer ::
  "'s env \<Rightarrow> cluster_access_mapping \<Rightarrow> object_meta \<Rightarrow> ('s, error + unit) io" where
  "camPatchFinalizer r cam m =
     attempt (api VPatch KClusterAccessMapping (meta_key (ca_meta cam))
       (k_patch (e_cam r) True cam (cam\<lparr>ca_meta := m\<rparr>)))"

definition camReconcile :: "'s env \<Rightarrow> objkey \<Rightarrow> ('s, result \<times> reconcile_error option) io" where
  "camReconcile r q =
     bindE (attempt (api VGet KClusterAccessMapping q (k_get (e_cam r) q)))
       (\<lambda>got. case got of
          Inl e \<Rightarrow> ret (empty_result, if isNotFound r e then None else Some (Retry e))
        | Inr cam \<Rightarrow>
            if terminating (ca_meta cam) then
              bindE (attempt (camFinalizeBindings r cam))
                (\<lambda>gone. case gone of
                   Inl e \<Rightarrow> ret (empty_result, Some (Retry e))
                 | Inr g \<Rightarrow>
                     if \<not> g then ret (empty_result\<lparr>r_requeueAfter := finalizerRetryAfter\<rparr>, None)
                     else bindE (emit (GaugeDelete ''clusteraccessmapping'' (ca_name cam)))
                       (\<lambda>_. bindE (camPatchFinalizer r cam (removeFinalizer r (ca_meta cam) Finalizer))
                         (\<lambda>p. ret (empty_result, map_option Retry (as_error p)))))
            else if \<not> containsFinalizer r (ca_meta cam) Finalizer then
              bindE (camPatchFinalizer r cam (addFinalizer r (ca_meta cam) Finalizer))
                (\<lambda>p. ret (empty_result\<lparr>r_requeue := True\<rparr>, map_option Retry (as_error p)))
            else
              bindE (attempt (camSync r cam))
                (\<lambda>s. let syncErr = as_error s;
                         invalid = (case s of Inl _ \<Rightarrow> [] | Inr xs \<Rightarrow> xs)
                  in bindE (attempt (camStatus r cam invalid syncErr))
                    (\<lambda>st. case st of
                       Inl e \<Rightarrow> ret (empty_result, map_option Retry (errors_join [syncErr, Some e]))
                     | Inr _ \<Rightarrow> ret (empty_result, terminal r syncErr))))"

section \<open>What triggers a pass\<close>

definition camAllRequests :: "'s env \<Rightarrow> object_meta \<Rightarrow> ('s, objkey list) io" where
  "camAllRequests r obj =
     bindE (attempt (api VList KClusterAccessMapping ([], []) (k_list (e_cam r) [])))
       (\<lambda>l. case l of
          Inl e \<Rightarrow>
            bindE (emit (LogError [error_text (jsonErrorText r) e,
                ''Unable to list ClusterAccessMappings while enqueueing ClusterRole dependents'',
                om_name obj] None))
              (\<lambda>_. ret [])
        | Inr items \<Rightarrow> ret (map (\<lambda>c. meta_key (ca_meta c)) items))"

definition camEnqueued :: "'s env \<Rightarrow> kind \<Rightarrow> object_meta \<Rightarrow> ('s, objkey list) io" where
  "camEnqueued r kd obj =
     (case kd of
        KClusterAccessMapping \<Rightarrow> ret [meta_key obj]
      | KClusterRole \<Rightarrow> camAllRequests r obj
      | KClusterRoleBinding \<Rightarrow> ret (ownerRequests obj)
      | _ \<Rightarrow> ret [])"

end
