(* ===== verification/Cam_Frame.thy ===== *)
theory Cam_Frame
  imports Cluster_Access Binding_Sync
begin

text \<open>
  What a pass over one ClusterAccessMapping is entitled to do, and that it does no more. The shape is
  that of \<open>Mns_Frame\<close>: the requests it may make, the objects that are its own, and one proof per
  operation that it keeps every invariant of \<open>pass_invariant\<close> for these.
\<close>

section \<open>Entitlement\<close>

definition camEntries :: "cluster_access_mapping \<Rightarrow> (access_mapping \<times> string) list" where
  "camEntries cam = mappingEntries (ca_spec cam)"

definition camKey :: "cluster_access_mapping \<Rightarrow> access_mapping \<times> string \<Rightarrow> objkey" where
  "camKey cam e = ([], BindingName (ca_name cam) (subjectKey (fst e)) (snd e))"

text \<open>The keys of the bindings the spec asks for.\<close>

definition camBindings :: "cluster_access_mapping \<Rightarrow> objkey set" where
  "camBindings cam = camKey cam ` set (camEntries cam)"

fun camRevokes :: "event \<Rightarrow> bool" where
  "camRevokes (Api v kd ns nm ok) =
     (kd = KClusterRoleBinding \<and> (v = VList \<or> v = VLiveList \<or> v = VDelete))"
| "camRevokes (LogInfo xs) = True"
| "camRevokes ev = False"

fun camFinal :: "cluster_access_mapping \<Rightarrow> event \<Rightarrow> bool" where
  "camFinal cam (Api v kd ns nm ok) =
     (case (kd, v) of
        (KClusterRoleBinding, VDelete) \<Rightarrow> True
      | (KClusterRoleBinding, VList) \<Rightarrow> True
      | (KClusterRoleBinding, VLiveList) \<Rightarrow> True
      | (KClusterAccessMapping, VGet) \<Rightarrow> (ns, nm) = meta_key (ca_meta cam)
      | (KClusterAccessMapping, VPatch) \<Rightarrow> (ns, nm) = meta_key (ca_meta cam)
      | _ \<Rightarrow> False)"
| "camFinal cam (GaugeDelete c n) = (c = ''clusteraccessmapping'' \<and> n = ca_name cam)"
| "camFinal cam (LogInfo xs) = True"
| "camFinal cam ev = False"

fun camRequest :: "cluster_access_mapping \<Rightarrow> event \<Rightarrow> bool" where
  "camRequest cam (Api v kd ns nm ok) =
     (case (kd, v) of
        (KClusterRoleBinding, VDelete) \<Rightarrow> True
      | (KClusterRoleBinding, VList) \<Rightarrow> True
      | (KClusterRoleBinding, VLiveList) \<Rightarrow> True
      | (KClusterRoleBinding, VGet) \<Rightarrow> (ns, nm) \<in> camBindings cam
      | (KClusterRoleBinding, VCreateOrUpdate) \<Rightarrow> (ns, nm) \<in> camBindings cam
      | (KClusterRole, VGet) \<Rightarrow> ns = []
      | (KClusterAccessMapping, VGet) \<Rightarrow> (ns, nm) = meta_key (ca_meta cam)
      | (KClusterAccessMapping, VPatch) \<Rightarrow> (ns, nm) = meta_key (ca_meta cam)
      | (KClusterAccessMapping, VStatusPatch) \<Rightarrow> (ns, nm) = meta_key (ca_meta cam)
      | _ \<Rightarrow> False)"
| "camRequest cam (GaugeSet c n v) = (c = ''clusteraccessmapping'' \<and> n = ca_name cam)"
| "camRequest cam (GaugeDelete c n) = (c = ''clusteraccessmapping'' \<and> n = ca_name cam)"
| "camRequest cam ev = True"

lemma camRevokes_Final: "camRevokes ev \<Longrightarrow> camFinal cam ev"
  by (cases ev) (auto split: verb.splits kind.splits)

lemma camFinal_Request: "camFinal cam ev \<Longrightarrow> camRequest cam ev"
  by (cases ev) (auto split: verb.splits kind.splits)

definition camGenerated :: "cluster_access_mapping \<Rightarrow> (kind \<times> objkey) set" where
  "camGenerated cam = Pair KClusterRoleBinding ` camBindings cam"

definition camSelf :: "cluster_access_mapping \<Rightarrow> kind \<times> objkey" where
  "camSelf cam = (KClusterAccessMapping, meta_key (ca_meta cam))"

definition camOwns :: "cluster_access_mapping \<Rightarrow> kind \<times> objkey \<Rightarrow> obj \<Rightarrow> bool" where
  "camOwns cam x ob \<longleftrightarrow> fst x = KClusterRoleBinding \<and> owned_by (ca_name cam) (obj_meta ob)"

lemma selects_camOwned [simp]: "selects (camOwned cam) m \<longleftrightarrow> owned_by (ca_name cam) m"
  by (simp add: camOwned_def)

lemma camEntries_keys:
  "mappingErrors (ca_spec cam) = [] \<Longrightarrow> role \<in> set (am_clusterRoles (ca_spec cam)) \<Longrightarrow>
     ([], BindingName (ca_name cam) (subjectKey (ca_spec cam)) role) \<in> camBindings cam"
  by (force simp: camBindings_def camEntries_def mappingEntries_def camKey_def simp del: mappingErrors_Nil_iff)

text \<open>\<open>camEnsure\<close> is the shared function, at ClusterRoleBindings.\<close>

lemma camEnsure_eq:
  "camEnsure r cam name role subjects =
     ensureBinding r KClusterRoleBinding ''ClusterRoleBinding'' (e_crb r) [] name role subjects
       (\<lambda>b. []) ''ClusterAccessMapping'' (ca_name cam)"
  by (simp add: camEnsure_def ensureBinding_def)

section \<open>Every operation keeps every such invariant\<close>

text \<open>Revoking: list and delete.\<close>

locale cam_revoking = pass_invariant r live cache I req own droppable
  for r :: "'s env" and live cache :: "'s \<Rightarrow> table" and I :: "'s world \<Rightarrow> bool"
    and req :: "event \<Rightarrow> bool" and own :: "(kind \<times> objkey) set"
    and droppable :: "kind \<times> objkey \<Rightarrow> obj \<Rightarrow> bool" +
  fixes cam :: cluster_access_mapping
  assumes may_revoke: "camRevokes ev \<Longrightarrow> req ev"
    and owned_droppable: "owned_by (ca_name cam) (b_meta b) \<Longrightarrow>
      droppable (KClusterRoleBinding, k) (OBinding b)"
begin

lemma keeps_drop_binding:
  assumes "I w1" and "seen live cache (ext w1) (KClusterRoleBinding, b_key it) (OBinding it)"
    and "owned_by (ca_name cam) (b_meta it)"
  shows "keeps I (deleteTolerant r KClusterRoleBinding (e_crb r) b_meta
    (logResourceDeleted kn ns n ok on) it)"
  using assms
  by (intro keeps_deleteTolerant keeps_delete [OF crb_laws, where ?w1.0 = w1]
      keeps_logResourceDeleted may_revoke owned_droppable) auto

lemma keeps_camFinalizeBindings: "keeps I (camFinalizeBindings r cam)"
  unfolding camFinalizeBindings_def
proof (rule keeps_bindE, goal_cases)
  case 1
  show ?case by (rule keeps_read) (auto simp: may_revoke live_crb_frame)
next
  case (2 items w w')
  then have "keeps I (deleteTolerant r KClusterRoleBinding (e_crb r) b_meta
      (logResourceDeleted kn ns n ok on) it)" if "it \<in> set items" for it kn ns n ok on
    using that live_crb_items by (intro keeps_drop_binding [of w]) (auto dest!: api_result simp: seen_def)
  then show ?case by (auto intro!: keeps_bindE keeps_for_each)
qed

lemma keeps_camPrune: "keeps I (camPrune r cam want)"
  unfolding camPrune_def
proof (rule keeps_bindE, goal_cases)
  case 1
  show ?case by (rule keeps_read) (auto simp: may_revoke crb.list_frame)
next
  case (2 items w w')
  from 2(2) have call: "k_list (e_crb r) (camOwned cam) (ext w) = (Inr items, ext w')"
    by (auto dest: api_result)
  have "keeps I (deleteTolerant r KClusterRoleBinding (e_crb r) b_meta
      (logResourceDeleted kn ns n ok on) it)" if "it \<in> set items" for it kn ns n ok on
    using crb.list_seen [OF call that] 2(1)
    by (intro keeps_drop_binding [of w]) auto
  then show ?case by (auto intro!: keeps_for_each)
qed

end

text \<open>The pass over a terminating resource.\<close>

locale cam_finalizing = cam_revoking r live cache I req own droppable cam
  for r :: "'s env" and live cache :: "'s \<Rightarrow> table" and I :: "'s world \<Rightarrow> bool"
    and req :: "event \<Rightarrow> bool" and own :: "(kind \<times> objkey) set"
    and droppable :: "kind \<times> objkey \<Rightarrow> obj \<Rightarrow> bool" and cam :: cluster_access_mapping +
  assumes may_finalize: "camFinal cam ev \<Longrightarrow> req ev"
    and self_own: "camSelf cam \<in> own"
begin

lemma keeps_camPatchFinalizer: "keeps I (camPatchFinalizer r cam m)"
  unfolding camPatchFinalizer_def
  using cam.patch_frame self_own unfolding camSelf_def
  by (intro keeps_attempt keeps_own may_finalize) auto

text \<open>The first step of a pass, reading the resource.\<close>

lemma wp_read_self:
  assumes "cache (ext w) (KClusterAccessMapping, q) = Some (OClusterAccess cam)" and "I w"
    and "\<And>w'. I w' \<Longrightarrow> Q (Inr cam) w'" and "\<And>e w'. I w' \<Longrightarrow> Q (Inl e) w'"
  shows "wp (api VGet KClusterAccessMapping q (k_get (e_cam r) q)) Q w"
proof -
  have "meta_key (ca_meta cam) = q" using cam.cache_key assms(1) by blast
  then have ev: "req (Api VGet KClusterAccessMapping (fst q) (snd q) ok)" for ok
    by (intro may_finalize) auto
  show ?thesis
    using assms read [OF assms(2), of _ VGet "(KClusterAccessMapping, q)"] ev
    by (intro cam.wp_get) (auto simp: request_def)
qed

lemma camReconcile_terminating_keeps:
  assumes "cache (ext w) (KClusterAccessMapping, q) = Some (OClusterAccess cam)" and "I w"
    and "terminating (ca_meta cam)" and "camReconcile r q w = (x, w')"
  shows "I w'"
proof -
  have "wp (camReconcile r q) (\<lambda>_. I) w"
    unfolding camReconcile_def wp_bindE wp_attempt
    by (rule wp_read_self [OF assms(1,2)])
      (auto simp: assms(3) simp del: wp_bindE wp_attempt intro!: keeps_wp keeps_bindE keeps_attempt
        keeps_camFinalizeBindings keeps_camPatchFinalizer keeps_note may_finalize split: sum.split)
  then show ?thesis using assms(4) by (rule wpD)
qed

end

text \<open>Sync, which does not touch the resource itself.\<close>

locale cam_pass = cam_revoking r live cache I req own droppable cam
  for r :: "'s env" and live cache :: "'s \<Rightarrow> table" and I :: "'s world \<Rightarrow> bool"
    and req :: "event \<Rightarrow> bool" and own :: "(kind \<times> objkey) set"
    and droppable :: "kind \<times> objkey \<Rightarrow> obj \<Rightarrow> bool" and cam :: cluster_access_mapping +
  assumes may_request: "camRequest cam ev \<Longrightarrow> gaugeless ev \<Longrightarrow> req ev"
    and generated_own: "x \<in> camGenerated cam \<Longrightarrow> x \<in> own"
    and own_binding_droppable: "k \<in> camBindings cam \<Longrightarrow> droppable (KClusterRoleBinding, k) (OBinding b)"
begin

lemma keeps_camEnsure:
  assumes "([], name) \<in> camBindings cam"
  shows "keeps I (camEnsure r cam name role subjects)"
  unfolding camEnsure_def Let_def
proof (rule keeps_bindE, goal_cases)
  case 1
  show ?case
    using assms by (intro keeps_attempt keeps_read may_request) (auto simp: crb.get_frame)
next
  case (2 got w w')
  let ?key = "([], name)"
  have found: "cache (ext w) (KClusterRoleBinding, ?key) = Some (OBinding obj) \<and> b_key obj = ?key"
    if "got = Inr obj" for obj
    using 2(2) that crb.get_found crb.cache_key by (fastforce dest!: attempt_result api_result)
  have "keeps I (api VCreateOrUpdate KClusterRoleBinding (b_key obj)
      (k_createOrUpdate (e_crb r) (mutateBinding (ca_name cam) (clusterRoleRef role) subjects) obj))"
    if "b_key obj = ?key" for obj
    using that assms crb.cou_frame [of _ obj]
    by (intro keeps_own may_request generated_own) (auto simp: camGenerated_def)
  moreover have "keeps I (api VDelete KClusterRoleBinding (b_key obj) (k_delete (e_crb r) obj))"
    if "got = Inr obj" for obj
    using 2(1) found [OF that] assms
    by (intro keeps_delete [OF crb_laws, where ?w1.0 = w] may_request own_binding_droppable)
      (auto simp: seen_def)
  moreover have "b_key (binding_template [] name) = ?key"
    by (simp add: meta_key_def binding_template_def empty_meta_def)
  ultimately show ?case
    using found
    by (auto intro!: keeps_bindE keeps_logResourceChange keeps_logResourceDeleted may_request
        split: sum.split prod.split simp: bindE_assoc)
qed

lemma keeps_camBindRole:
  assumes "mappingErrors (ca_spec cam) = []" and "role \<in> set (am_clusterRoles (ca_spec cam))"
  shows "keeps I (camBindRole r cam (subjectKey (ca_spec cam)) (subjectsFor (ca_spec cam)) acc role)"
  unfolding camBindRole_def
  using camEntries_keys [OF assms]
  by (auto intro!: keeps_bindE keeps_attempt keeps_read keeps_camEnsure may_request
      split: sum.split simp: role.get_frame Let_def)

lemma keeps_camSync: "keeps I (camSync r cam)"
  unfolding camSync_def Let_def
  by (auto intro!: keeps_bindE keeps_for_each keeps_fold_io keeps_note keeps_camBindRole keeps_camPrune
      may_request simp del: mappingErrors_Nil_iff)

end

locale cam_reconcile = cam_pass r live cache I req own droppable cam +
    cam_finalizing r live cache I req own droppable cam
  for r :: "'s env" and live cache :: "'s \<Rightarrow> table" and I :: "'s world \<Rightarrow> bool"
    and req :: "event \<Rightarrow> bool" and own :: "(kind \<times> objkey) set"
    and droppable :: "kind \<times> objkey \<Rightarrow> obj \<Rightarrow> bool" and cam :: cluster_access_mapping +
  assumes may_report: "camRequest cam ev \<Longrightarrow> req ev"
begin

lemma keeps_camStatus: "keeps I (camStatus r cam invalid e)"
  unfolding camStatus_def
proof (intro keeps_bindE keeps_gets, goal_cases)
  case 1
  show ?case by (auto intro!: keeps_note may_report)
next
  case (2 u w w' cam' w1 w1')
  show ?case
    using cam.status_frame self_own unfolding camSelf_def by (intro keeps_own may_report) auto
qed

lemma camReconcile_keeps:
  assumes "cache (ext w) (KClusterAccessMapping, q) = Some (OClusterAccess cam)" and "I w"
    and "camReconcile r q w = (x, w')"
  shows "I w'"
proof -
  have "wp (camReconcile r q) (\<lambda>_. I) w"
    unfolding camReconcile_def wp_bindE wp_attempt
    by (rule wp_read_self [OF assms(1,2)])
      (auto simp: Let_def simp del: wp_bindE wp_attempt intro!: keeps_wp keeps_bindE keeps_attempt
        keeps_camFinalizeBindings keeps_camSync keeps_camStatus keeps_camPatchFinalizer keeps_note
        may_report split: sum.split)
  then show ?thesis using assms(3) by (rule wpD)
qed

end

end
