(* ===== verification/Cam_Sync.thy ===== *)
theory Cam_Sync
  imports Cam_Frame
begin

text \<open>
  The ClusterAccessMapping reconciler: confinement, bystanders, the finalizer, and what a completed
  sync has established.
\<close>

section \<open>Instances of the frame\<close>

sublocale kube_env \<subseteq> cam_confined: cam_reconcile r live cache "emits (camRequest cam) w0"
    "camRequest cam" UNIV "\<lambda>_ _. True" cam
  for cam :: cluster_access_mapping and w0 :: "'s world"
  by unfold_locales (auto simp: request_def camFinal_Request camRevokes_Final)

sublocale kube_env \<subseteq> cam_final: cam_finalizing r live cache "emits (camFinal cam) w0"
    "camFinal cam" UNIV "\<lambda>_ _. True" cam
  for cam :: cluster_access_mapping and w0 :: "'s world"
  by unfold_locales (auto simp: request_def camRevokes_Final)

text \<open>Objects that are neither generated nor seen with the owner's labels.\<close>

definition camBystander :: "('s \<Rightarrow> table) \<Rightarrow> ('s \<Rightarrow> table) \<Rightarrow> cluster_access_mapping \<Rightarrow>
    kind \<times> objkey \<Rightarrow> 's \<Rightarrow> bool" where
  "camBystander live cache cam x s \<longleftrightarrow>
     x \<notin> camGenerated cam \<and> (\<forall>ob. seen live cache s x ob \<longrightarrow> \<not> camOwns cam x ob)"

lemma camBystander_touches:
  assumes "touches live cache Y s s'" and "camBystander live cache cam x s" and "x \<notin> Y"
  shows "camBystander live cache cam x s' \<and> live s' x = live s x"
  using touches_live [OF assms(1,3)] touches_cache [OF assms(1), of x] assms(2)
  unfolding camBystander_def seen_def by auto

sublocale kube_env \<subseteq> cam_spared: cam_pass r live cache
    "\<lambda>w. camBystander live cache cam x (ext w) \<and> live (ext w) x = v"
    "\<lambda>_. True" "camGenerated cam" "\<lambda>y ob. camOwns cam y ob \<or> y \<in> camGenerated cam" cam
  for cam :: cluster_access_mapping and x :: "kind \<times> objkey" and v :: "obj option"
proof (unfold_locales, goal_cases)
  case (2 w s' vb y ok)
  then show ?case using camBystander_touches [OF 2(2), of cam x] by auto
next
  case (3 w y s' vb ok)
  then have "y \<noteq> x" by (auto simp: camBystander_def)
  with 3 show ?case using camBystander_touches [OF 3(2), of cam x] by auto
next
  case (4 w w1 y ob s' ok)
  then have "y \<noteq> x" by (auto simp: camBystander_def)
  with 4 show ?case using camBystander_touches [OF 4(5), of cam x] by auto
qed (auto simp: camOwns_def camGenerated_def)

sublocale kube_env \<subseteq> cam_untouched: cam_reconcile r live cache
    "\<lambda>w. x \<noteq> camSelf cam \<and> camBystander live cache cam x (ext w) \<and> live (ext w) x = v"
    "\<lambda>_. True" "insert (camSelf cam) (camGenerated cam)"
    "\<lambda>y ob. camOwns cam y ob \<or> y \<in> camGenerated cam" cam
  for cam :: cluster_access_mapping and x :: "kind \<times> objkey" and v :: "obj option"
proof (unfold_locales, goal_cases)
  case (2 w s' vb y ok)
  then show ?case using camBystander_touches [OF 2(2), of cam x] by auto
next
  case (3 w y s' vb ok)
  then have "y \<noteq> x" by (auto simp: camBystander_def)
  with 3 show ?case using camBystander_touches [OF 3(2), of cam x] by auto
next
  case (4 w w1 y ob s' ok)
  then have "y \<noteq> x" by (auto simp: camBystander_def)
  with 4 show ?case using camBystander_touches [OF 4(5), of cam x] by auto
qed (auto simp: camOwns_def camGenerated_def camSelf_def)

section \<open>Revoking and finalizing\<close>

abbreviation camRevoked :: "('s \<Rightarrow> table) \<Rightarrow> cluster_access_mapping \<Rightarrow> objkey set \<Rightarrow> 's \<Rightarrow> bool" where
  "camRevoked live cam W s \<equiv> revokedAt live KClusterRoleBinding (owned_by (ca_name cam)) W s"

abbreviation camNoneOwned :: "('s \<Rightarrow> table) \<Rightarrow> cluster_access_mapping \<Rightarrow> 's \<Rightarrow> bool" where
  "camNoneOwned live cam s \<equiv> noneOwnedAt live KClusterRoleBinding (owned_by (ca_name cam)) s"

text \<open>ClusterRoleBindings are told apart by name alone.\<close>

definition named :: "string set \<Rightarrow> objkey set" where
  "named W = {k. snd k \<in> W}"

lemma snd_b_key [simp]: "snd (b_key b) = om_name (b_meta b)"
  by (simp add: meta_key_def)

context kube_env begin

lemma live_cam_list:
  assumes "api VLiveList KClusterRoleBinding k (e_live_crb r (camOwned cam)) w = (x, w1)"
  shows "live (ext w1) = live (ext w)"
    and "x = Inr items \<Longrightarrow> b \<in> set items \<longleftrightarrow>
      live (ext w) (KClusterRoleBinding, b_key b) = Some (OBinding b) \<and> owned_by (ca_name cam) (b_meta b)"
  using assms touches_live [OF live_crb_frame] live_crb_items by (auto dest!: api_result)

lemma camFinalizeBindings_done:
  assumes "camFinalizeBindings r cam w = (Inr True, w')"
  shows "live (ext w') = live (ext w)" and "camNoneOwned live cam (ext w)"
proof -
  from assms obtain items w1 where 1:
    "api VLiveList KClusterRoleBinding ([], []) (e_live_crb r (camOwned cam)) w = (Inr items, w1)"
    unfolding camFinalizeBindings_def by (blast dest: bindE_result)
  with assms have "items = [] \<and> w' = w1"
    by (auto simp: camFinalizeBindings_def bindE_def ret_def split: if_splits prod.splits sum.splits)
  with live_cam_list [OF 1] show "live (ext w') = live (ext w)" and "camNoneOwned live cam (ext w)"
    by (auto simp: noneOwnedAt_def)
qed

lemma camFinalizeBindings_revokes:
  "wp (camFinalizeBindings r cam) (\<lambda>x w'. \<not> isl x \<longrightarrow> camRevoked live cam {} (ext w')) w"
  unfolding camFinalizeBindings_def wp_bindE
proof (rule wpI, goal_cases)
  case (1 x w1)
  show ?case
  proof (cases x)
    case (Inr items)
    note list = live_cam_list [OF 1]
    have "wp (for_each (\<lambda>it. if \<not> terminating (b_meta it) then deleteTolerant r KClusterRoleBinding (e_crb r) b_meta
          (logResourceDeleted ''ClusterRoleBinding'' [] (om_name (b_meta it))
            ''ClusterAccessMapping'' (ca_name cam)) it else ret ()) items)
        (\<lambda>x w'. x = Inr () \<longrightarrow> camRevoked live cam {} (ext w')) w1"
      using list(2) [OF Inr] by (intro crbl.wp_drop_loop) (auto simp: list(1))
    then have "wp (for_each (\<lambda>it. if terminating (b_meta it) then ret () else
          deleteTolerant r KClusterRoleBinding (e_crb r) b_meta
          (logResourceDeleted ''ClusterRoleBinding'' [] (om_name (b_meta it))
            ''ClusterAccessMapping'' (ca_name cam)) it) items)
        (\<lambda>x w'. case x of Inl e \<Rightarrow> True | Inr _ \<Rightarrow> camRevoked live cam {} (ext w')) w1"
      unfolding if_not by (rule wp_conseq) (auto split: sum.split)
    moreover have "camRevoked live cam {} (ext w1)" if "items = []"
      using list(2) [OF Inr] that by (auto simp: revokedAt_def list(1))
    ultimately show ?thesis using Inr by (auto elim!: wp_conseq split: sum.splits)
  qed simp
qed

lemma camFinalizeBindings_progress:
  assumes "camFinalizeBindings r cam w = (Inr gone, w')"
  shows "camRevoked live cam {} (ext w') \<and>
    (gone \<longrightarrow> camNoneOwned live cam (ext w') \<and> live (ext w') = live (ext w))"
  using wpD [OF camFinalizeBindings_revokes assms] camFinalizeBindings_done [of cam w w'] assms
  by (auto simp: noneOwnedAt_def)

text \<open>
  A prune that succeeds has revoked every owned binding not kept by name, if the informers were fresh
  at each key that may have to go.
\<close>

lemma wp_camPrune:
  assumes "\<And>k. snd k \<notin> W \<Longrightarrow>
    cache (ext w) (KClusterRoleBinding, k) = live (ext w) (KClusterRoleBinding, k)"
  shows "wp (camPrune r cam (Some W)) (\<lambda>x w'. x = Inr () \<longrightarrow> camRevoked live cam (named W) (ext w')) w"
  unfolding camPrune_def wp_bindE
proof (rule crb.wp_list, goal_cases)
  case (1 items s')
  have same: "live s' = live (ext w)" using touches_live [OF 1(1)] by auto
  have "\<forall>b. live (ext w) (KClusterRoleBinding, b_key b) = Some (OBinding b) \<longrightarrow>
      owned_by (ca_name cam) (b_meta b) \<longrightarrow>
      b_key b \<in> named W \<or> terminating (b_meta b) \<or> b \<in> set items"
    using 1(2) assms unfolding named_def by (metis (mono_tags) mem_Collect_eq selects_camOwned)
  then show ?case
    unfolding sum.case by (intro crbl.wp_drop_loop) (auto simp: same named_def)
qed simp

lemma wp_camPrune_still:
  assumes "fst x \<noteq> KClusterRoleBinding \<or> snd (snd x) \<in> W"
  shows "wp (camPrune r cam (Some W)) (\<lambda>_ w'. still live cache x (ext w) (ext w')) w"
  unfolding camPrune_def
  by (rule keeps_wp [OF crb.keeps_prune_still]) (use assms in auto)

text \<open>The resource changes on a terminating pass only once nothing owned is left on the server.\<close>

lemma camSelf_bystander: "camBystander live cache cam (camSelf cam) s"
  by (auto simp: camBystander_def camSelf_def camGenerated_def camOwns_def)

lemma camReconcile_finalizer:
  assumes "cache (ext w) (KClusterAccessMapping, q) = Some (OClusterAccess cam)"
    and "terminating (ca_meta cam)" and "camReconcile r q w = (x, w')"
    and "live (ext w') (KClusterAccessMapping, q) \<noteq> live (ext w) (KClusterAccessMapping, q)"
  shows "camNoneOwned live cam (ext w')"
proof -
  have key: "camSelf cam = (KClusterAccessMapping, q)"
    using cam.cache_key [OF assms(1)] by (simp add: camSelf_def)
  let ?v = "live (ext w) (KClusterAccessMapping, q)"
  have "wp (camReconcile r q) (\<lambda>_ w'. live (ext w') (KClusterAccessMapping, q) \<noteq> ?v \<longrightarrow> camNoneOwned live cam (ext w')) w"
    unfolding camReconcile_def wp_bindE wp_attempt
  proof (rule cam.wp_get, goal_cases)
    case (1 ob s')
    then have ob: "ob = cam" using assms(1) by simp
    let ?w = "w\<lparr>ext := s', trace := trace w @ [Api VGet KClusterAccessMapping (fst q) (snd q) True]\<rparr>"
    have s': "live s' = live (ext w)" using touches_live [OF 1(1)] by auto
    obtain g w1 where fin: "camFinalizeBindings r cam ?w = (g, w1)" by (cases "camFinalizeBindings r cam ?w")
    have same: "live (ext w1) (KClusterAccessMapping, q) = ?v"
      using keepsD [OF cam_spared.keeps_camFinalizeBindings [where x = "camSelf cam" and v = ?v] _ fin]
        camSelf_bystander [of cam] s' key
      by simp
    have last: "wp (camPatchFinalizer r cam m) (\<lambda>_ w'. camNoneOwned live cam (ext w')) (w1\<lparr>trace := t\<rparr>)"
      if "g = Inr True" for m t
    proof -
      have "camNoneOwned live cam (ext w1)"
        using camFinalizeBindings_done [OF fin [unfolded that]] by (simp add: noneOwnedAt_def)
      then show ?thesis
        unfolding camPatchFinalizer_def wp_attempt
        by (intro cam.wp_patch) (auto dest: noneOwned_touches)
    qed
    have "wp (camFinalizeBindings r cam) Q ?w = Q g w1" for Q using fin by (simp add: wp_def)
    then show ?case
      using same by (auto simp: ob assms(2) split: sum.split intro!: wp_conseq [OF last])
  next
    case (2 e s')
    then show ?case using touches_live [OF 2(1)] by auto
  qed
  then show ?thesis using assms(3,4) wpD by fastforce
qed

end

section \<open>What a completed sync has established\<close>

abbreviation camGranted :: "('s \<Rightarrow> table) \<Rightarrow> cluster_access_mapping \<Rightarrow> 's \<Rightarrow> access_mapping \<times> string \<Rightarrow> bool" where
  "camGranted live cam s e \<equiv> entryGrantedAt live KClusterRoleBinding (ca_name cam) (camKey cam) s e"

abbreviation camConsistent :: "cluster_access_mapping \<Rightarrow> bool" where
  "camConsistent cam \<equiv> consistentAt (camKey cam) (camEntries cam)"

abbreviation camRepairable :: "('s \<Rightarrow> table) \<Rightarrow> cluster_access_mapping \<Rightarrow> 's \<Rightarrow> bool" where
  "camRepairable live cam s \<equiv> repairableAt live KClusterRoleBinding (camKey cam) (camEntries cam) s"

text \<open>
  Each entry whose role existed in \<open>s\<close> has its binding, and no other owned binding is in force.
\<close>

definition camSynced :: "('s \<Rightarrow> table) \<Rightarrow> cluster_access_mapping \<Rightarrow> 's \<Rightarrow> 's \<Rightarrow> bool" where
  "camSynced live cam s s' \<longleftrightarrow>
     (\<forall>e \<in> set (camEntries cam). roleExists live s (snd e) \<longrightarrow> camGranted live cam s' e) \<and>
     camRevoked live cam (named (snd ` wantedAt live (camKey cam) s (camEntries cam))) s'"

context kube_env begin

text \<open>The loop body: the keys of the shared invariant are the wanted names without a namespace.\<close>

lemma wp_camBindRole:
  assumes "bindingLoopAt live cache KClusterRoleBinding (ca_name cam) (camKey cam) s done
      (fst acc, Pair [] ` snd acc) (ext w)"
    and "loopReadyAt live cache KClusterRoleBinding (camKey cam) (camEntries cam) s"
    and "camEntries cam = done @ (am, role) # todo"
  shows "wp (camBindRole r cam (subjectKey am) (subjectsFor am) acc role)
    (\<lambda>x w'. \<forall>acc'. x = Inr acc' \<longrightarrow>
       bindingLoopAt live cache KClusterRoleBinding (ca_name cam) (camKey cam) s (done @ [(am, role)])
         (fst acc', Pair [] ` snd acc') (ext w')) w"
proof -
  let ?x = "(KClusterRole, [], role)"
  have "still live cache ?x s (ext w)" using assms(1) unfolding bindingLoopAt_def by blast
  moreover have "cache s ?x = live s ?x" using assms(2) by (simp add: loopReadyAt_def freshD)
  ultimately have role: "cache (ext w) ?x = live s ?x" by (auto simp: still_def)
  have key: "camKey cam (am, role) = ([], BindingName (ca_name cam) (subjectKey am) role)"
    by (simp add: camKey_def)
  show ?thesis
    unfolding camBindRole_def Let_def wp_bindE wp_attempt
  proof (rule role.wp_get, goal_cases)
    case (2 e s')
    then have "isNotFound r e \<Longrightarrow> \<not> roleExists live s role" using role by (simp add: roleExists_def)
    then show ?case
      using bindingLoop_missing [OF bindingLoop_read [OF assms(1) 2(1)]] by (simp add: missingRef_def)
  next
    case (1 cr s')
    let ?w1 = "w\<lparr>ext := s', trace := trace w @ [Api VGet KClusterRole [] role True]\<rparr>"
    have ex: "roleExists live s role" using 1(2) role by (simp add: roleExists_def)
    note J = bindingLoop_read [OF assms(1) 1(1)]
    have "wp (camEnsure r cam (BindingName (ca_name cam) (subjectKey am) role) role (subjectsFor am))
        (\<lambda>x w'. \<not> isl x \<longrightarrow> bindingLoopAt live cache KClusterRoleBinding (ca_name cam) (camKey cam) s
           (done @ [(am, role)]) (fst acc, insert (camKey cam (am, role)) (Pair [] ` snd acc)) (ext w')) ?w1"
      unfolding camEnsure_eq
    proof (rule crbl.wp_ensureBinding [OF _ key], goal_cases)
      case 1
      then show ?case
        using bindingLoop_ready [OF J assms(2,3)] by (simp add: entryGrantedAt_def)
    next
      case (2 w')
      then show ?case
        using assms(2) bindingLoop_step [OF J ex 2(1) _ _ _ _ assms(3)] by (simp add: loopReadyAt_def)
    qed simp
    then show ?case
      by (simp add: key) (erule wp_conseq, auto split: sum.splits)
  qed
qed

text \<open>
  A sync that returns without an error, begun with fresh informers, has put the bindings in sync and
  reports exactly the missing roles, in the order of the spec.
\<close>

text \<open>The prune at the end of a sync, from a loop that went through every role.\<close>

lemma wp_camSync_finish:
  assumes "fresh live cache KClusterRoleBinding s"
    and J: "bindingLoopAt live cache KClusterRoleBinding (ca_name cam) (camKey cam) s (camEntries cam)
      (fst acc, Pair [] ` snd acc) (ext w1)"
  shows "wp (bindE (camPrune r cam (Some (snd acc))) (\<lambda>_. ret (fst acc))) (\<lambda>x w'. \<forall>invalid. x = Inr invalid \<longrightarrow>
    invalid = missing live s (camEntries cam) \<and> camSynced live cam s (ext w')) w1"
proof -
  have inv: "fst acc = missing live s (camEntries cam)"
    and want: "Pair [] ` snd acc = wantedAt live (camKey cam) s (camEntries cam)"
    and still: "\<And>k. k \<notin> Pair [] ` snd acc \<Longrightarrow> still live cache (KClusterRoleBinding, k) s (ext w1)"
    and ok: "\<And>e. e \<in> set (camEntries cam) \<Longrightarrow> roleExists live s (snd e) \<Longrightarrow> camGranted live cam (ext w1) e"
    using J unfolding bindingLoopAt_def by auto
  have names: "snd ` wantedAt live (camKey cam) s (camEntries cam) = snd acc"
    by (simp add: want [symmetric] image_image)
  have known: "cache (ext w1) (KClusterRoleBinding, k) = live (ext w1) (KClusterRoleBinding, k)"
    if "snd k \<notin> snd acc" for k
  proof -
    have "k \<notin> Pair [] ` snd acc" using that by auto
    then show ?thesis using still [of k] freshD [OF assms(1), of k] by (auto simp: still_def)
  qed
  have "wp (camPrune r cam (Some (snd acc)))
      (\<lambda>x w'. \<forall>n \<in> snd acc. still live cache (KClusterRoleBinding, [], n) (ext w1) (ext w')) w1"
    by (rule wpI) (auto intro: wpD [OF wp_camPrune_still, rotated])
  moreover have "wp (camPrune r cam (Some (snd acc)))
      (\<lambda>x w'. x = Inr () \<longrightarrow> camRevoked live cam (named (snd acc)) (ext w')) w1"
    by (rule wp_camPrune) (rule known)
  ultimately have "wp (camPrune r cam (Some (snd acc)))
      (\<lambda>x w'. x = Inr () \<longrightarrow> camSynced live cam s (ext w')) w1"
  proof (rule wp_conj [THEN wp_conseq], goal_cases)
    case (1 x w')
    have "camGranted live cam (ext w') e"
      if e: "e \<in> set (camEntries cam)" "roleExists live s (snd e)" for e
    proof -
      have "camKey cam e \<in> Pair [] ` snd acc" using e want by (auto simp: wantedAt_def)
      then have "still live cache (KClusterRoleBinding, camKey cam e) (ext w1) (ext w')" using 1 by auto
      with ok [OF e] show ?thesis unfolding entryGrantedAt_def by (rule granted_still)
    qed
    with 1 show ?case by (simp add: camSynced_def names)
  qed
  then show ?thesis
    by (simp add: inv) (erule wp_conseq, auto split: sum.splits)
qed

text \<open>The loop over the roles, which runs only where the spec is valid.\<close>

lemma wp_camSync_loop:
  fixes w cam
  defines "J \<equiv> \<lambda>done acc w'. bindingLoopAt live cache KClusterRoleBinding (ca_name cam) (camKey cam) (ext w) done
    (fst acc, Pair [] ` snd acc) (ext w')"
  assumes ready: "loopReadyAt live cache KClusterRoleBinding (camKey cam) (camEntries cam) (ext w)"
    and "ext w1 = ext w"
    and fin: "\<And>acc w'. J (camEntries cam) acc w' \<Longrightarrow> Q (Inr acc) w'"
    and err: "\<And>e w'. Q (Inl e) w'"
  shows "wp (if mappingErrors (ca_spec cam) = [] then
      fold_io (camBindRole r cam (subjectKey (ca_spec cam)) (subjectsFor (ca_spec cam))) ([], {})
        (am_clusterRoles (ca_spec cam))
    else ret ([], {})) Q w1"
proof (cases "mappingErrors (ca_spec cam) = []")
  case False
  then have "camEntries cam = []" by (simp add: camEntries_def mappingEntries_def del: mappingErrors_Nil_iff)
  then show ?thesis
    using False fin [of "([], {})" w1] assms(3)
    by (simp add: J_def bindingLoopAt_def missing_def wantedAt_def del: mappingErrors_Nil_iff)
next
  case True
  let ?am = "ca_spec cam"
  from True have es: "camEntries cam = map (Pair ?am) (am_clusterRoles ?am)"
    by (simp add: camEntries_def mappingEntries_def del: mappingErrors_Nil_iff)
  have "wp (fold_io (camBindRole r cam (subjectKey ?am) (subjectsFor ?am)) ([], {}) (am_clusterRoles ?am)) Q w1"
  proof (rule wp_fold_io [where I = "\<lambda>rs acc w. J (map (Pair ?am) rs) acc w"], goal_cases)
    case 1
    then show ?case using assms(3) by (simp add: J_def bindingLoopAt_def missing_def wantedAt_def)
  next
    case (2 rs role rest acc w2)
    then have "camEntries cam = map (Pair ?am) rs @ (?am, role) # map (Pair ?am) rest" by (simp add: es)
    from wp_camBindRole [OF 2(2) [unfolded J_def] ready this] show ?case
      by (rule wp_conseq) (auto simp: J_def err split: sum.splits)
  next
    case (3 acc w2)
    then show ?case using fin [of acc w2] by (simp add: es)
  qed
  with True show ?thesis by (simp del: mappingErrors_Nil_iff)
qed

lemma camSync_converges:
  assumes "fresh live cache KClusterRoleBinding (ext w)" and "fresh live cache KClusterRole (ext w)"
    and "camConsistent cam" and "camRepairable live cam (ext w)"
  shows "wp (camSync r cam) (\<lambda>x w'. \<forall>invalid. x = Inr invalid \<longrightarrow>
    invalid = missing live (ext w) (camEntries cam) \<and> camSynced live cam (ext w) (ext w')) w"
  unfolding camSync_def Let_def wp_bindE [of "for_each _ _"]
proof (rule wp_for_each [where I = "\<lambda>_ w'. ext w' = ext w"], goal_cases)
  case (3 w1)
  have ready: "loopReadyAt live cache KClusterRoleBinding (camKey cam) (camEntries cam) (ext w)"
    using assms by (auto simp: loopReadyAt_def freshD)
  show ?case
    unfolding sum.case wp_bindE
  proof (rule wp_camSync_loop [OF ready 3], goal_cases)
    case (1 acc w')
    from wp_camSync_finish [OF assms(1) 1] show ?case by (cases acc) simp
  qed simp
qed auto

section \<open>Whole passes\<close>

lemma camReconcile_confined:
  assumes "cache (ext w) (KClusterAccessMapping, q) = Some (OClusterAccess cam)"
    and "camReconcile r q w = (x, w')"
  shows "emits (camRequest cam) w w'"
  by (rule cam_confined.camReconcile_keeps [OF assms(1) _ assms(2)]) simp

lemma camReconcile_final_confined:
  assumes "cache (ext w) (KClusterAccessMapping, q) = Some (OClusterAccess cam)"
    and "terminating (ca_meta cam)" and "camReconcile r q w = (x, w')"
  shows "emits (camFinal cam) w w'"
  by (rule cam_final.camReconcile_terminating_keeps [OF assms(1) _ assms(2,3)]) simp

lemma camReconcile_untouched:
  assumes "cache (ext w) (KClusterAccessMapping, q) = Some (OClusterAccess cam)"
    and "camReconcile r q w = (x, w')" and "y \<noteq> camSelf cam" and "camBystander live cache cam y (ext w)"
  shows "live (ext w') y = live (ext w) y"
  using cam_untouched.camReconcile_keeps [OF assms(1) _ assms(2), of y "live (ext w) y"] assms(3,4) by simp

end

end
