(* ===== verification/Gauge.thy ===== *)
theory Gauge
  imports Mns_Safety Cam_Sync
begin

text \<open>
  \<open>internal/controller/metrics.go\<close>: the gauge of invalid references, by controller and name, and who moves
  it. A series is there from its first \<open>Set\<close> until it is deleted.
\<close>

fun gauge_event :: "event \<Rightarrow> (string \<times> string \<rightharpoonup> nat) \<Rightarrow> (string \<times> string \<rightharpoonup> nat)" where
  "gauge_event (GaugeSet c n v) g = g((c, n) \<mapsto> v)"
| "gauge_event (GaugeDelete c n) g = g((c, n) := None)"
| "gauge_event ev g = g"

text \<open>\<open>invalidReferences\<close> after what happened so far.\<close>

definition invalidReferences :: "event list \<Rightarrow> (string \<times> string \<rightharpoonup> nat)" where
  "invalidReferences evs = fold gauge_event evs Map.empty"

lemma invalidReferences_append [simp]:
  "invalidReferences (evs @ evs') = fold gauge_event evs' (invalidReferences evs)"
  by (simp add: invalidReferences_def)

lemma still_events: "list_all gaugeless evs \<Longrightarrow> fold gauge_event evs g = g"
proof (induction evs)
  case (Cons ev evs)
  then show ?case by (cases ev) simp_all
qed simp

lemma emits_still: "emits gaugeless w w' \<Longrightarrow> invalidReferences (trace w') = invalidReferences (trace w)"
  by (auto simp: emits_def still_events)

text \<open>No sync moves the gauge.\<close>

lemma sync_events_still: "mnsRevokes mns ev \<Longrightarrow> gaugeless ev" "mnsProvisions mns ev \<Longrightarrow> gaugeless ev"
  by (cases ev; simp)+

lemma camRevokes_still: "camRevokes ev \<Longrightarrow> gaugeless ev"
  by (cases ev) simp_all

sublocale kube_env \<subseteq> ungauged: mns_pass r live cache "emits gaugeless w0" gaugeless UNIV "\<lambda>_ _. True" mns
  for mns :: managed_namespace and w0 :: "'s world"
  by unfold_locales (auto simp: request_def sync_events_still)

sublocale kube_env \<subseteq> cam_ungauged: cam_pass r live cache "emits gaugeless w0" gaugeless UNIV "\<lambda>_ _. True" cam
  for cam :: cluster_access_mapping and w0 :: "'s world"
  by unfold_locales (auto simp: request_def camRevokes_still)

context kube_env begin

lemma sync_still: "sync r mns w = (x, w') \<Longrightarrow> invalidReferences (trace w') = invalidReferences (trace w)"
  using keepsD [OF ungauged.keeps_sync, of w w] by (intro emits_still) auto

lemma camSync_still: "camSync r cam w = (x, w') \<Longrightarrow> invalidReferences (trace w') = invalidReferences (trace w)"
  using keepsD [OF cam_ungauged.keeps_camSync, of w w] by (intro emits_still) auto

end

text \<open>A status patch sets the gauge if the pass had no error, before the patch is sent.\<close>

lemma status_gauge:
  "status r mns invalid e w = (x, w') \<Longrightarrow> invalidReferences (trace w') =
     (if e = None then (invalidReferences (trace w))((''managednamespace'', mn_name mns) \<mapsto> length invalid)
      else invalidReferences (trace w))"
  by (auto simp: status_def bindE_def emit_def ret_def gets_def api_def Let_def split: prod.splits)

lemma camStatus_gauge:
  "camStatus r cam invalid e w = (x, w') \<Longrightarrow> invalidReferences (trace w') =
     (if e = None then (invalidReferences (trace w))((''clusteraccessmapping'', ca_name cam) \<mapsto> length invalid)
      else invalidReferences (trace w))"
  by (auto simp: camStatus_def bindE_def emit_def ret_def gets_def api_def Let_def split: prod.splits)

text \<open>With the finalizer goes the series: the pass that lets a resource go has deleted it.\<close>

context kube_env begin

lemma Reconcile_series_gone:
  assumes "cache (ext w) (KManagedNamespace, q) = Some (OManagedNamespace mns)"
    and "terminating (mn_meta mns)" and "Reconcile r q w = (x, w')"
    and "live (ext w') (KManagedNamespace, q) \<noteq> live (ext w) (KManagedNamespace, q)"
  shows "invalidReferences (trace w') (''managednamespace'', mn_name mns) = None"
proof -
  have key: "mnsSelf mns = (KManagedNamespace, q)"
    using mns.cache_key [OF assms(1)] by (simp add: mnsSelf_def)
  let ?v = "live (ext w) (KManagedNamespace, q)"
  have "wp (Reconcile r q) (\<lambda>_ w'. live (ext w') (KManagedNamespace, q) \<noteq> ?v \<longrightarrow>
      invalidReferences (trace w') (''managednamespace'', mn_name mns) = None) w"
    unfolding Reconcile_def wp_bindE wp_attempt
  proof (rule mns.wp_get, goal_cases)
    case (1 ob s')
    then have ob: "ob = mns" using assms(1) by simp
    let ?w = "w\<lparr>ext := s', trace := trace w @ [Api VGet KManagedNamespace (fst q) (snd q) True]\<rparr>"
    have s': "live s' = live (ext w)" using touches_live [OF 1(1)] by auto
    obtain g w1 where fin: "finalizeBindings r mns ?w = (g, w1)" by (cases "finalizeBindings r mns ?w")
    have same: "live (ext w1) (KManagedNamespace, q) = ?v"
      using keepsD [OF spared.keeps_finalizeBindings [where x = "mnsSelf mns" and v = ?v] _ fin]
        self_bystander [of mns] s' key
      by simp
    have last: "wp (patchFinalizer r mns m) (\<lambda>_ w'. invalidReferences (trace w') (''managednamespace'', mn_name mns) = None)
        (w1\<lparr>trace := trace w1 @ [GaugeDelete ''managednamespace'' (mn_name mns)]\<rparr>)" for m
      by (auto simp: wp_def patchFinalizer_def attempt_def api_def split: prod.split)
    have "wp (finalizeBindings r mns) Q ?w = Q g w1" for Q using fin by (simp add: wp_def)
    then show ?case
      using same by (auto simp: ob assms(2) split: sum.split intro!: wp_conseq [OF last])
  next
    case (2 e s')
    then show ?case using touches_live [OF 2(1)] by auto
  qed
  then show ?thesis using assms(3,4) wpD by fastforce
qed

lemma camReconcile_series_gone:
  assumes "cache (ext w) (KClusterAccessMapping, q) = Some (OClusterAccess cam)"
    and "terminating (ca_meta cam)" and "camReconcile r q w = (x, w')"
    and "live (ext w') (KClusterAccessMapping, q) \<noteq> live (ext w) (KClusterAccessMapping, q)"
  shows "invalidReferences (trace w') (''clusteraccessmapping'', ca_name cam) = None"
proof -
  have key: "camSelf cam = (KClusterAccessMapping, q)"
    using cam.cache_key [OF assms(1)] by (simp add: camSelf_def)
  let ?v = "live (ext w) (KClusterAccessMapping, q)"
  have "wp (camReconcile r q) (\<lambda>_ w'. live (ext w') (KClusterAccessMapping, q) \<noteq> ?v \<longrightarrow>
      invalidReferences (trace w') (''clusteraccessmapping'', ca_name cam) = None) w"
    unfolding camReconcile_def wp_bindE wp_attempt
  proof (rule cam.wp_get, goal_cases)
    case (1 ob s')
    then have ob: "ob = cam" using assms(1) by simp
    let ?w = "w\<lparr>ext := s', trace := trace w @ [Api VGet KClusterAccessMapping (fst q) (snd q) True]\<rparr>"
    have s': "live s' = live (ext w)" using touches_live [OF 1(1)] by auto
    obtain g w1 where fin: "camFinalizeBindings r cam ?w = (g, w1)" by (cases "camFinalizeBindings r cam ?w")
    have same: "live (ext w1) (KClusterAccessMapping, q) = ?v"
      using keepsD [OF cam_spared.keeps_camFinalizeBindings [where x = "camSelf cam" and v = ?v] _ fin]
        camSelf_bystander [of cam] s' key
      by simp
    have last: "wp (camPatchFinalizer r cam m) (\<lambda>_ w'. invalidReferences (trace w') (''clusteraccessmapping'', ca_name cam) = None)
        (w1\<lparr>trace := trace w1 @ [GaugeDelete ''clusteraccessmapping'' (ca_name cam)]\<rparr>)" for m
      by (auto simp: wp_def camPatchFinalizer_def attempt_def api_def split: prod.split)
    have "wp (camFinalizeBindings r cam) Q ?w = Q g w1" for Q using fin by (simp add: wp_def)
    then show ?case
      using same by (auto simp: ob assms(2) split: sum.split intro!: wp_conseq [OF last])
  next
    case (2 e s')
    then show ?case using touches_live [OF 2(1)] by auto
  qed
  then show ?thesis using assms(3,4) wpD by fastforce
qed

end

end
