(* ===== verification/Mns_Status.thy ===== *)
theory Mns_Status
  imports Mns_Convergence Gauge
begin

text \<open>
  What a pass over a live ManagedNamespace reports: the shape of the pass, the status patch, and what
  the server then holds, for a pass that completed and for one that failed part-way.
\<close>

section \<open>The shape of a pass\<close>

context kube_env begin

text \<open>
  A pass over a resource that lives and carries the finalizer either fails to read it, or runs
  \<open>sync\<close> and then \<open>status\<close> with its outcome.
\<close>

lemma Reconcile_active:
  assumes "cache (ext w) (KManagedNamespace, q) = Some (OManagedNamespace mns)"
    and "\<not> terminating (mn_meta mns)" and "Finalizer \<in> set (om_finalizers (mn_meta mns))"
    and "Reconcile r q w = (x, w')"
  obtains (unread) e s' where "x = Inr (empty_result, Some (Retry e))"
      "touches live cache {} (ext w) s'"
      "w' = w\<lparr>ext := s', trace := trace w @ [Api VGet KManagedNamespace (fst q) (snd q) False]\<rparr>"
  | (ran) s1 y w2 st where "touches live cache {} (ext w) s1"
      "sync r mns (w\<lparr>ext := s1, trace := trace w @ [Api VGet KManagedNamespace (fst q) (snd q) True]\<rparr>)
         = (y, w2)"
      "status r mns (invalidOf y) (as_error y) w2 = (st, w')"
      "x = Inr (empty_result, case st of
         Inl e \<Rightarrow> map_option Retry (errors_join [as_error y, Some e])
       | Inr _ \<Rightarrow> terminal r (as_error y))"
proof -
  obtain g s1 where g: "k_get (e_mns r) q (ext w) = (g, s1)" by (cases "k_get (e_mns r) q (ext w)")
  have t: "touches live cache {} (ext w) s1" by (rule mns.get_frame [OF g])
  show ?thesis
  proof (cases g)
    case (Inl e)
    then have "\<not> isNotFound r e" using mns.get_missing [of q "ext w" e s1] g assms(1) by auto
    with Inl show ?thesis
      using assms(4) t g
      by (intro unread) (auto simp: Reconcile_def bindE_def attempt_def api_def ret_def)
  next
    case (Inr ob)
    then have ob: "ob = mns" using mns.get_found g assms(1) by fastforce
    let ?w1 = "w\<lparr>ext := s1, trace := trace w @ [Api VGet KManagedNamespace (fst q) (snd q) True]\<rparr>"
    obtain y w2 where y: "sync r mns ?w1 = (y, w2)" by (cases "sync r mns ?w1")
    obtain st w3 where st: "status r mns (invalidOf y) (as_error y) w2 = (st, w3)"
      by (cases "status r mns (invalidOf y) (as_error y) w2")
    have "Reconcile r q w = (Inr (empty_result, case st of
         Inl e \<Rightarrow> map_option Retry (errors_join [as_error y, Some e])
       | Inr _ \<Rightarrow> terminal r (as_error y)), w3)"
      using g Inr assms(2,3) y st [unfolded invalidOf_def]
      by (simp add: Reconcile_def bindE_def attempt_def api_def ret_def ob containsFinalizer_iff Let_def
          split: sum.split)
    with assms(4) st show ?thesis by (intro ran [OF t y]) auto
  qed
qed

end

section \<open>The status patch\<close>

text \<open>
  What the status says after a pass with outcome \<open>e\<close>, against the status \<open>st\<close> it started from.
\<close>

definition reports :: "'s env \<Rightarrow> int \<Rightarrow> error option \<Rightarrow> invalid_reference list \<Rightarrow> mns_status \<Rightarrow> mns_status \<Rightarrow> bool" where
  "reports r gen e invalid st st' \<longleftrightarrow>
     (\<exists>c \<in> set (ms_conditions st'). c_type c = ''Ready'' \<and> c_observedGeneration c = gen \<and>
        (case e of
           Some err \<Rightarrow> c_status c = ''False'' \<and> c_reason c = ''SyncFailed'' \<and>
             c_message c = conditionMessage r err
         | None \<Rightarrow> c_status c = (if invalid = [] then ''True'' else ''False'') \<and>
             c_reason c = (if invalid = [] then ''Reconciled'' else ''InvalidReferences''))) \<and>
     (case e of
        Some _ \<Rightarrow> ms_observedGeneration st' = ms_observedGeneration st \<and>
          ms_invalidReferences st' = ms_invalidReferences st
      | None \<Rightarrow> ms_observedGeneration st' = gen \<and> ms_invalidReferences st' = invalid)"

context kube_env begin

lemma wp_status:
  assumes "live (ext w) (mnsSelf mns) = Some (OManagedNamespace mns)"
  shows "wp (status r mns invalid e) (\<lambda>x w'.
    last (trace w') = Api VStatusPatch KManagedNamespace (om_namespace (mn_meta mns)) (mn_name mns) (\<not> isl x) \<and>
    (\<forall>y. y \<noteq> mnsSelf mns \<longrightarrow> live (ext w') y = live (ext w) y) \<and>
    (\<not> isl x \<longrightarrow> (\<exists>cur. live (ext w') (mnsSelf mns) = Some (OManagedNamespace cur) \<and>
       mn_spec cur = mn_spec mns \<and> strip_meta (mn_meta cur) = strip_meta (mn_meta mns) \<and>
       reports r (om_generation (mn_meta mns)) e invalid (mn_status mns) (mn_status cur)))) w"
proof -
  define st where "st = (if e = None then (mn_status mns)
    \<lparr>ms_observedGeneration := om_generation (mn_meta mns), ms_invalidReferences := invalid\<rparr> else mn_status mns)"
  define cond where "cond = readyCondition r (om_generation (mn_meta mns))
    ''Namespace, quotas, and bindings are in sync'' invalid e"
  define new where "new s = mns\<lparr>mn_status := st\<lparr>ms_conditions := setStatusCondition r s (ms_conditions st) cond\<rparr>\<rparr>"
    for s
  have rep: "reports r (om_generation (mn_meta mns)) e invalid (mn_status mns) (mn_status cur)"
    if "mns_merged mns (new s) mns cur" for cur s
  proof -
    have conds: "ms_conditions (mn_status cur) = setStatusCondition r s (ms_conditions st) cond"
      and rest: "ms_observedGeneration (mn_status cur) = ms_observedGeneration st"
        "ms_invalidReferences (mn_status cur) = ms_invalidReferences st"
      using that by (simp_all add: mns_merged_def merge_field_same new_def)
    obtain c where c: "c \<in> set (ms_conditions (mn_status cur))" "same_condition c cond"
      using setStatusCondition_sets conds by metis
    then show ?thesis
      using rest unfolding reports_def
      by (intro conjI bexI [OF _ c(1)])
        (auto simp: same_conditionD cond_def readyCondition_def st_def split: option.split)
  qed
  have patch: "wp (api VStatusPatch KManagedNamespace (meta_key (mn_meta mns)) (k_statusPatch (e_mns r) mns (new s)))
      (\<lambda>x w'. last (trace w') =
          Api VStatusPatch KManagedNamespace (om_namespace (mn_meta mns)) (mn_name mns) (\<not> isl x) \<and>
        (\<forall>y. y \<noteq> mnsSelf mns \<longrightarrow> live (ext w') y = live (ext w) y) \<and>
        (\<not> isl x \<longrightarrow> (\<exists>cur. live (ext w') (mnsSelf mns) = Some (OManagedNamespace cur) \<and>
           mn_spec cur = mn_spec mns \<and> strip_meta (mn_meta cur) = strip_meta (mn_meta mns) \<and>
           reports r (om_generation (mn_meta mns)) e invalid (mn_status mns) (mn_status cur)))) (w\<lparr>trace := t\<rparr>)" for s t
  proof (rule mns.wp_statusPatch, goal_cases)
    case (1 s' cur cur')
    then have "cur = mns" using assms by (simp add: mnsSelf_def)
    moreover have "live s' y = live (ext w) y" if "y \<noteq> mnsSelf mns" for y
      using touches_live [OF 1(1)] that by (simp add: mnsSelf_def)
    ultimately show ?case using 1(3,4) rep by (auto simp: meta_key_def mnsSelf_def mns_merged_def)
  next
    case (2 e s')
    have "live s' y = live (ext w) y" if "y \<noteq> mnsSelf mns" for y
      using touches_live [OF 2] that by (simp add: mnsSelf_def)
    then show ?case by (simp add: meta_key_def)
  qed
  show ?thesis
    using patch [of "ext w" "trace w"] patch [of "ext w" "trace w @ [_]"]
    by (cases e) (simp_all add: status_def Let_def new_def st_def cond_def)
qed

text \<open>
  The status a pass leaves on the server, when the informers were fresh at the resource: the outcome
  of the pass on the current generation, and after a failure the last good findings untouched.
\<close>

lemma Reconcile_reports:
  assumes "cache (ext w) (KManagedNamespace, q) = Some (OManagedNamespace mns)"
    and "live (ext w) (KManagedNamespace, q) = Some (OManagedNamespace mns)"
    and "\<not> terminating (mn_meta mns)" and "Finalizer \<in> set (om_finalizers (mn_meta mns))"
    and "Reconcile r q w = (Inr (res, err), w')"
    and "last (trace w') = Api VStatusPatch KManagedNamespace (fst q) (snd q) True"
  shows "\<exists>cur. live (ext w') (KManagedNamespace, q) = Some (OManagedNamespace cur) \<and>
    mn_spec cur = mn_spec mns \<and>
    reports r (om_generation (mn_meta mns)) (passError err) (ms_invalidReferences (mn_status cur))
      (mn_status mns) (mn_status cur) \<and>
    invalidReferences (trace w') =
      (if passError err = None
       then (invalidReferences (trace w))((''managednamespace'', mn_name mns) \<mapsto> length (ms_invalidReferences (mn_status cur)))
       else invalidReferences (trace w))"
proof -
  have key: "mnsSelf mns = (KManagedNamespace, q)"
    using mns.cache_key [OF assms(1)] by (simp add: mnsSelf_def)
  show ?thesis
    using assms(1,3,4,5)
  proof (cases rule: Reconcile_active)
    case (unread e s')
    with assms(6) show ?thesis by simp
  next
    case (ran s1 y w2 st)
    let ?w1 = "w\<lparr>ext := s1, trace := trace w @ [Api VGet KManagedNamespace (fst q) (snd q) True]\<rparr>"
    have "live s1 (mnsSelf mns) = Some (OManagedNamespace mns)"
      using touches_live [OF ran(1), of "mnsSelf mns"] assms(2) key by simp
    then have "live (ext w2) (mnsSelf mns) = Some (OManagedNamespace mns)"
      using keepsD [OF spared.keeps_sync [where x = "mnsSelf mns" and v = "Some (OManagedNamespace mns)"] _ ran(2)]
        self_bystander [of mns] by simp
    from wpD [OF wp_status [OF this] ran(3)] assms(6)
    obtain cur u where "st = Inr u" "live (ext w') (mnsSelf mns) = Some (OManagedNamespace cur)"
      "mn_spec cur = mn_spec mns"
      "reports r (om_generation (mn_meta mns)) (as_error y) (invalidOf y) (mn_status mns) (mn_status cur)"
      by (cases st) auto
    moreover have "reports r g e (ms_invalidReferences st') s0 st'"
      if "reports r g e i s0 st'" for g e i s0 st'
      using that by (cases e) (auto simp: reports_def)
    moreover have "invalidReferences (trace w') =
        (if as_error y = None then (invalidReferences (trace w))((''managednamespace'', mn_name mns) \<mapsto> length (invalidOf y))
         else invalidReferences (trace w))"
      using status_gauge [OF ran(3)] sync_still [OF ran(2)] by simp
    moreover have "as_error y = None \<Longrightarrow> ms_invalidReferences (mn_status cur) = invalidOf y"
      using \<open>reports _ _ (as_error y) _ _ _\<close> by (simp add: reports_def)
    ultimately show ?thesis using ran(4) key by auto
  qed
qed

text \<open>
  A pass that ends without an error, begun with fresh informers: bindings in sync, and the status
  lists exactly the roles that were missing.
\<close>

lemma Reconcile_converges:
  assumes "cache (ext w) (KManagedNamespace, q) = Some (OManagedNamespace mns)"
    and "\<not> terminating (mn_meta mns)" and "Finalizer \<in> set (om_finalizers (mn_meta mns))"
    and "fresh live cache KRoleBinding (ext w)" and "fresh live cache KClusterRole (ext w)"
    and "live (ext w) (KManagedNamespace, q) = Some (OManagedNamespace mns)"
    and "namesConsistent mns" and "repairable live mns (ext w)"
    and "Reconcile r q w = (Inr (res, None), w')"
    and "last (trace w') = Api VStatusPatch KManagedNamespace (fst q) (snd q) True"
  shows "bindingsSynced live mns (ext w) (ext w')"
    and "\<exists>cur. live (ext w') (KManagedNamespace, q) = Some (OManagedNamespace cur) \<and>
      ms_invalidReferences (mn_status cur) = missing live (ext w) (entries mns)"
proof -
  have key: "mnsSelf mns = (KManagedNamespace, q)"
    using mns.cache_key [OF assms(1)] by (simp add: mnsSelf_def)
  have "bindingsSynced live mns (ext w) (ext w') \<and>
    (\<exists>cur. live (ext w') (KManagedNamespace, q) = Some (OManagedNamespace cur) \<and>
      ms_invalidReferences (mn_status cur) = missing live (ext w) (entries mns))"
    using assms(1-3,9)
  proof (cases rule: Reconcile_active)
    case (unread e s')
    with assms(10) show ?thesis by simp
  next
    case (ran s1 y w2 st)
    let ?w1 = "w\<lparr>ext := s1, trace := trace w @ [Api VGet KManagedNamespace (fst q) (snd q) True]\<rparr>"
    have live: "live s1 = live (ext w)" using touches_live [OF ran(1)] by auto
    have fresh: "fresh live cache kd s1" if "fresh live cache kd (ext w)" for kd
      using touches_cache [OF ran(1)] that live unfolding fresh_def by metis
    have "live (ext w2) (mnsSelf mns) = Some (OManagedNamespace mns)"
      using keepsD [OF spared.keeps_sync [where x = "mnsSelf mns" and v = "Some (OManagedNamespace mns)"] _ ran(2)]
        self_bystander [of mns] live assms(6) key by simp
    from wpD [OF wp_status [OF this] ran(3)] assms(10)
    obtain cur u where st: "st = Inr u" "live (ext w') (mnsSelf mns) = Some (OManagedNamespace cur)"
      "reports r (om_generation (mn_meta mns)) (as_error y) (invalidOf y) (mn_status mns) (mn_status cur)"
      and rest: "\<forall>y. y \<noteq> mnsSelf mns \<longrightarrow> live (ext w') y = live (ext w2) y"
      by (cases st) auto
    with ran(4) obtain invalid where y: "y = Inr invalid"
      by (cases y) (auto simp: as_error_def terminal_def)
    have "invalid = missing live s1 (entries mns) \<and> bindingsSynced live mns s1 (ext w2)"
      using sync_converges [of ?w1 mns invalid w2] fresh assms(4,5,7,8) ran(2) y
      by (simp add: live repairableAt_def)
    moreover have "missing live s1 = missing live (ext w)"
        "bindingsSynced live mns s1 = bindingsSynced live mns (ext w)"
      by (simp_all add: fun_eq_iff missing_def bindingsSynced_def wantedAt_def roleExists_def live)
    moreover have "live (ext w') (KRoleBinding, k) = live (ext w2) (KRoleBinding, k)" for k
      by (rule rest [rule_format]) (simp add: mnsSelf_def)
    then have "bindingsSynced live mns (ext w) (ext w') = bindingsSynced live mns (ext w) (ext w2)"
      by (simp add: bindingsSynced_def revokedAt_def entryGrantedAt_def granted_def)
    ultimately show ?thesis
      using st y key by (simp add: reports_def as_error_def invalidOf_def)
  qed
  then show "bindingsSynced live mns (ext w) (ext w')"
    and "\<exists>cur. live (ext w') (KManagedNamespace, q) = Some (OManagedNamespace cur) \<and>
      ms_invalidReferences (mn_status cur) = missing live (ext w) (entries mns)" by auto
qed

end

end
