(* ===== verification/Adoption.thy ===== *)
theory Adoption
  imports Mns_Status
begin

text \<open>
  The first pass over a new ManagedNamespace puts the finalizer on it and does nothing else; the second
  provisions. Two passes, with the informers catching up between them, composed.
\<close>

section \<open>The first pass\<close>

text \<open>Nothing but the resource was touched, and it was read and patched and nothing more.\<close>

definition adopted :: "('s \<Rightarrow> table) \<Rightarrow> kind \<Rightarrow> objkey \<Rightarrow> 's world \<Rightarrow> 's world \<Rightarrow> bool" where
  "adopted live kd q w w' \<longleftrightarrow>
     (\<forall>y. y \<noteq> (kd, q) \<longrightarrow> live (ext w') y = live (ext w) y) \<and>
     emits (\<lambda>ev. \<exists>v ok. (v = VGet \<or> v = VPatch) \<and> ev = Api v kd (fst q) (snd q) ok) w w'"

context kube_env begin

lemma Reconcile_adopts:
  assumes "cache (ext w) (KManagedNamespace, q) = Some (OManagedNamespace mns)"
    and "\<not> terminating (mn_meta mns)" and "Finalizer \<notin> set (om_finalizers (mn_meta mns))"
  shows "wp (Reconcile r q) (\<lambda>x w'. adopted live KManagedNamespace q w w' \<and>
      (\<forall>res. x = Inr (res, None) \<and> r_requeue res \<longrightarrow>
         (\<exists>cur. live (ext w') (KManagedNamespace, q) = Some (OManagedNamespace cur) \<and>
            strip_mns cur = strip_mns (mns\<lparr>mn_meta := addFinalizer r (mn_meta mns) Finalizer\<rparr>)))) w"
  unfolding Reconcile_def wp_bindE wp_attempt
proof (rule mns.wp_get, goal_cases)
  case (1 ob s')
  then have ob: "ob = mns" using assms(1) by simp
  have key: "meta_key (mn_meta mns) = q" using mns.cache_key assms(1) by blast
  have kept: "om_finalizers (addFinalizer r (mn_meta mns) Finalizer) \<noteq> []"
    by (simp add: addFinalizer_eq)
  have same: "live s'' y = live (ext w) y"
    if "touches live cache {(KManagedNamespace, q)} s' s''" and "y \<noteq> (KManagedNamespace, q)" for s'' y
    using touches_live [OF that(1), of y] touches_live [OF 1(1), of y] that(2) by simp
  have "wp (patchFinalizer r mns (addFinalizer r (mn_meta mns) Finalizer))
      (\<lambda>p w'. \<exists>p'. p = Inr p' \<and> adopted live KManagedNamespace q w w' \<and>
         (p' = Inr () \<longrightarrow> (\<exists>cur. live (ext w') (KManagedNamespace, q) = Some (OManagedNamespace cur) \<and>
            strip_mns cur = strip_mns (mns\<lparr>mn_meta := addFinalizer r (mn_meta mns) Finalizer\<rparr>))))
      (w\<lparr>ext := s', trace := trace w @ [Api VGet KManagedNamespace (fst q) (snd q) True]\<rparr>)"
    unfolding patchFinalizer_def wp_attempt
    by (rule mns.wp_patch) (use same kept in \<open>auto simp: key adopted_def emits_def\<close>)
  then show ?case
    using assms(2,3)
    by (auto simp: ob containsFinalizer_iff as_error_def elim!: wp_conseq split: sum.split)
next
  case (2 e s')
  then show ?case using touches_live [OF 2(1)] by (auto simp: empty_result_def adopted_def emits_def)
qed

end

section \<open>Two passes\<close>

text \<open>What the later pass reads differs from the first in its metadata only, and so asks for the same.\<close>

lemma same_mns:
  assumes "strip_mns cur = strip_mns (mns\<lparr>mn_meta := m\<rparr>)" and "om_name m = om_name (mn_meta mns)"
    and "om_namespace m = om_namespace (mn_meta mns)"
  shows "mn_spec cur = mn_spec mns" and "mn_name cur = mn_name mns"
    and "om_namespace (mn_meta cur) = om_namespace (mn_meta mns)"
    and "om_finalizers (mn_meta cur) = om_finalizers m"
    and "om_deletionTimestamp (mn_meta cur) = om_deletionTimestamp m"
  using arg_cong [OF assms(1), of mn_spec] strip_meta_eqD [of "mn_meta cur" m] arg_cong [OF assms(1), of mn_meta] assms(2,3)
  by (simp_all add: strip_mns_def)

lemma entries_same: "mn_spec a = mn_spec b \<Longrightarrow> entries a = entries b"
  by (simp add: entries_def)

lemma entryKey_same: "mn_name a = mn_name b \<Longrightarrow> entryKey a = entryKey b"
  by (simp add: fun_eq_iff entryKey_def keyed_def)

lemma bindingsSynced_same:
  assumes "mn_spec a = mn_spec b" and "mn_name a = mn_name b"
  shows "bindingsSynced live a = bindingsSynced live b"
  using entries_same [OF assms(1)] entryKey_same [OF assms(2)] assms(2)
  by (intro ext) (simp add: bindingsSynced_def ownedBy_def)

context kube_env begin

lemma two_passes_converge:
  assumes "cache (ext w) (KManagedNamespace, q) = Some (OManagedNamespace mns)"
    and "\<not> terminating (mn_meta mns)" and "Finalizer \<notin> set (om_finalizers (mn_meta mns))"
    and "Reconcile r q w = (Inr (res, None), w1)" and "r_requeue res"
    and "live (ext w2) = live (ext w1)" and "fresh live cache KManagedNamespace (ext w2)"
    and "fresh live cache KRoleBinding (ext w2)" and "fresh live cache KClusterRole (ext w2)"
    and "namesConsistent mns" and "repairable live mns (ext w1)"
    and "Reconcile r q w2 = (Inr (res', None), w3)"
    and "last (trace w3) = Api VStatusPatch KManagedNamespace (fst q) (snd q) True"
  shows "adopted live KManagedNamespace q w w1 \<and>
    (\<exists>cur. live (ext w1) (KManagedNamespace, q) = Some (OManagedNamespace cur) \<and>
       mn_spec cur = mn_spec mns \<and> Finalizer \<in> set (om_finalizers (mn_meta cur))) \<and>
    bindingsSynced live mns (ext w1) (ext w3) \<and>
    (\<exists>cur. live (ext w3) (KManagedNamespace, q) = Some (OManagedNamespace cur) \<and>
       ms_invalidReferences (mn_status cur) = missing live (ext w1) (entries mns))"
proof -
  let ?m = "addFinalizer r (mn_meta mns) Finalizer"
  obtain cur where first: "adopted live KManagedNamespace q w w1"
    and cur: "live (ext w1) (KManagedNamespace, q) = Some (OManagedNamespace cur)"
      "strip_mns cur = strip_mns (mns\<lparr>mn_meta := ?m\<rparr>)"
    using wpD [OF Reconcile_adopts [OF assms(1-3)] assms(4)] assms(5) by blast
  note same = same_mns [OF cur(2)]
  have meta: "mn_spec cur = mn_spec mns" "mn_name cur = mn_name mns"
    "Finalizer \<in> set (om_finalizers (mn_meta cur))" "\<not> terminating (mn_meta cur)"
    using same assms(2) by (auto simp: addFinalizer_eq terminating_def)
  have now: "cache (ext w2) (KManagedNamespace, q) = Some (OManagedNamespace cur)"
    "live (ext w2) (KManagedNamespace, q) = Some (OManagedNamespace cur)"
    using cur(1) assms(6) freshD [OF assms(7), of q] by simp_all
  note asks = entries_same [OF meta(1)] entryKey_same [OF meta(2)] bindingsSynced_same [OF meta(1,2)]
  have at_w1: "repairableAt live kd key es (ext w2) = repairableAt live kd key es (ext w1)"
    "missing live (ext w2) es = missing live (ext w1) es" for kd key es
    using assms(6) by (simp_all add: repairableAt_def missing_def roleExists_def refersTo_def)
  have "bindingsSynced live mns (ext w2) (ext w3) \<and>
    (\<exists>cur. live (ext w3) (KManagedNamespace, q) = Some (OManagedNamespace cur) \<and>
       ms_invalidReferences (mn_status cur) = missing live (ext w1) (entries mns))"
    using Reconcile_converges [OF now(1) meta(4,3) assms(8,9) now(2) _ _ assms(12,13)] assms(10,11)
    by (simp add: asks at_w1)
  moreover have "bindingsSynced live mns (ext w2) = bindingsSynced live mns (ext w1)"
    using assms(6) by (simp add: fun_eq_iff bindingsSynced_def wantedAt_def roleExists_def)
  ultimately show ?thesis using first cur(1) meta by auto
qed

end

end
