(* ===== verification/Cam_Status.thy ===== *)
theory Cam_Status
  imports Cam_Sync Gauge
begin

text \<open>
  What a pass over a live ClusterAccessMapping reports, as \<open>Mns_Status\<close> has it for the other
  resource.
\<close>

section \<open>The shape of a pass\<close>

context kube_env begin

text \<open>
  A pass over a resource that lives and carries the finalizer either fails to read it, or runs
  \<open>sync\<close> and then \<open>status\<close> with its outcome.
\<close>

lemma camReconcile_active:
  assumes "cache (ext w) (KClusterAccessMapping, q) = Some (OClusterAccess cam)"
    and "\<not> terminating (ca_meta cam)" and "Finalizer \<in> set (om_finalizers (ca_meta cam))"
    and "camReconcile r q w = (x, w')"
  obtains (unread) e s' where "x = Inr (empty_result, Some (Retry e))"
      "touches live cache {} (ext w) s'"
      "w' = w\<lparr>ext := s', trace := trace w @ [Api VGet KClusterAccessMapping (fst q) (snd q) False]\<rparr>"
  | (ran) s1 y w2 st where "touches live cache {} (ext w) s1"
      "camSync r cam (w\<lparr>ext := s1, trace := trace w @ [Api VGet KClusterAccessMapping (fst q) (snd q) True]\<rparr>)
         = (y, w2)"
      "camStatus r cam (invalidOf y) (as_error y) w2 = (st, w')"
      "x = Inr (empty_result, case st of
         Inl e \<Rightarrow> map_option Retry (errors_join [as_error y, Some e])
       | Inr _ \<Rightarrow> terminal r (as_error y))"
proof -
  obtain g s1 where g: "k_get (e_cam r) q (ext w) = (g, s1)" by (cases "k_get (e_cam r) q (ext w)")
  have t: "touches live cache {} (ext w) s1" by (rule cam.get_frame [OF g])
  show ?thesis
  proof (cases g)
    case (Inl e)
    then have "\<not> isNotFound r e" using cam.get_missing [of q "ext w" e s1] g assms(1) by auto
    with Inl show ?thesis
      using assms(4) t g
      by (intro unread) (auto simp: camReconcile_def bindE_def attempt_def api_def ret_def)
  next
    case (Inr ob)
    then have ob: "ob = cam" using cam.get_found g assms(1) by fastforce
    let ?w1 = "w\<lparr>ext := s1, trace := trace w @ [Api VGet KClusterAccessMapping (fst q) (snd q) True]\<rparr>"
    obtain y w2 where y: "camSync r cam ?w1 = (y, w2)" by (cases "camSync r cam ?w1")
    obtain st w3 where st: "camStatus r cam (invalidOf y) (as_error y) w2 = (st, w3)"
      by (cases "camStatus r cam (invalidOf y) (as_error y) w2")
    have "camReconcile r q w = (Inr (empty_result, case st of
         Inl e \<Rightarrow> map_option Retry (errors_join [as_error y, Some e])
       | Inr _ \<Rightarrow> terminal r (as_error y)), w3)"
      using g Inr assms(2,3) y st [unfolded invalidOf_def]
      by (simp add: camReconcile_def bindE_def attempt_def api_def ret_def ob containsFinalizer_iff Let_def
          split: sum.split)
    with assms(4) st show ?thesis by (intro ran [OF t y]) auto
  qed
qed

end

section \<open>The status patch\<close>

text \<open>
  What the status says after a pass with outcome \<open>e\<close>, against the status \<open>st\<close> it started from.
\<close>

definition camReports :: "'s env \<Rightarrow> int \<Rightarrow> error option \<Rightarrow> invalid_reference list \<Rightarrow> cam_status \<Rightarrow> cam_status \<Rightarrow> bool" where
  "camReports r gen e invalid st st' \<longleftrightarrow>
     (\<exists>c \<in> set (cs_conditions st'). c_type c = ''Ready'' \<and> c_observedGeneration c = gen \<and>
        (case e of
           Some err \<Rightarrow> c_status c = ''False'' \<and> c_reason c = ''SyncFailed'' \<and>
             c_message c = conditionMessage r err
         | None \<Rightarrow> c_status c = (if invalid = [] then ''True'' else ''False'') \<and>
             c_reason c = (if invalid = [] then ''Reconciled'' else ''InvalidReferences''))) \<and>
     (case e of
        Some _ \<Rightarrow> cs_observedGeneration st' = cs_observedGeneration st \<and>
          cs_invalidReferences st' = cs_invalidReferences st
      | None \<Rightarrow> cs_observedGeneration st' = gen \<and> cs_invalidReferences st' = invalid)"

context kube_env begin

lemma wp_camStatus:
  assumes "live (ext w) (camSelf cam) = Some (OClusterAccess cam)"
  shows "wp (camStatus r cam invalid e) (\<lambda>x w'.
    last (trace w') = Api VStatusPatch KClusterAccessMapping (om_namespace (ca_meta cam)) (ca_name cam) (\<not> isl x) \<and>
    (\<forall>y. y \<noteq> camSelf cam \<longrightarrow> live (ext w') y = live (ext w) y) \<and>
    (\<not> isl x \<longrightarrow> (\<exists>cur. live (ext w') (camSelf cam) = Some (OClusterAccess cur) \<and>
       ca_spec cur = ca_spec cam \<and> strip_meta (ca_meta cur) = strip_meta (ca_meta cam) \<and>
       camReports r (om_generation (ca_meta cam)) e invalid (ca_status cam) (ca_status cur)))) w"
proof -
  define st where "st = (if e = None then (ca_status cam)
    \<lparr>cs_observedGeneration := om_generation (ca_meta cam), cs_invalidReferences := invalid\<rparr> else ca_status cam)"
  define cond where "cond = readyCondition r (om_generation (ca_meta cam))
    ''ClusterRoleBindings are in sync'' invalid e"
  define new where "new s = cam\<lparr>ca_status := st\<lparr>cs_conditions := setStatusCondition r s (cs_conditions st) cond\<rparr>\<rparr>"
    for s
  have rep: "camReports r (om_generation (ca_meta cam)) e invalid (ca_status cam) (ca_status cur)"
    if "cam_merged cam (new s) cam cur" for cur s
  proof -
    have conds: "cs_conditions (ca_status cur) = setStatusCondition r s (cs_conditions st) cond"
      and rest: "cs_observedGeneration (ca_status cur) = cs_observedGeneration st"
        "cs_invalidReferences (ca_status cur) = cs_invalidReferences st"
      using that by (simp_all add: cam_merged_def merge_field_same new_def)
    obtain c where c: "c \<in> set (cs_conditions (ca_status cur))" "same_condition c cond"
      using setStatusCondition_sets conds by metis
    then show ?thesis
      using rest unfolding camReports_def
      by (intro conjI bexI [OF _ c(1)])
        (auto simp: same_conditionD cond_def readyCondition_def st_def split: option.split)
  qed
  have patch: "wp (api VStatusPatch KClusterAccessMapping (meta_key (ca_meta cam)) (k_statusPatch (e_cam r) cam (new s)))
      (\<lambda>x w'. last (trace w') =
          Api VStatusPatch KClusterAccessMapping (om_namespace (ca_meta cam)) (ca_name cam) (\<not> isl x) \<and>
        (\<forall>y. y \<noteq> camSelf cam \<longrightarrow> live (ext w') y = live (ext w) y) \<and>
        (\<not> isl x \<longrightarrow> (\<exists>cur. live (ext w') (camSelf cam) = Some (OClusterAccess cur) \<and>
           ca_spec cur = ca_spec cam \<and> strip_meta (ca_meta cur) = strip_meta (ca_meta cam) \<and>
           camReports r (om_generation (ca_meta cam)) e invalid (ca_status cam) (ca_status cur)))) (w\<lparr>trace := t\<rparr>)" for s t
  proof (rule cam.wp_statusPatch, goal_cases)
    case (1 s' cur cur')
    then have "cur = cam" using assms by (simp add: camSelf_def)
    moreover have "live s' y = live (ext w) y" if "y \<noteq> camSelf cam" for y
      using touches_live [OF 1(1)] that by (simp add: camSelf_def)
    ultimately show ?case using 1(3,4) rep by (auto simp: meta_key_def camSelf_def cam_merged_def)
  next
    case (2 e s')
    have "live s' y = live (ext w) y" if "y \<noteq> camSelf cam" for y
      using touches_live [OF 2] that by (simp add: camSelf_def)
    then show ?case by (simp add: meta_key_def)
  qed
  show ?thesis
    using patch [of "ext w" "trace w"] patch [of "ext w" "trace w @ [_]"]
    by (cases e) (simp_all add: camStatus_def Let_def new_def st_def cond_def)
qed

text \<open>
  The status a pass leaves on the server, when the informers were fresh at the resource: the outcome
  of the pass on the current generation, and after a failure the last good findings untouched.
\<close>

lemma camReconcile_reports:
  assumes "cache (ext w) (KClusterAccessMapping, q) = Some (OClusterAccess cam)"
    and "live (ext w) (KClusterAccessMapping, q) = Some (OClusterAccess cam)"
    and "\<not> terminating (ca_meta cam)" and "Finalizer \<in> set (om_finalizers (ca_meta cam))"
    and "camReconcile r q w = (Inr (res, err), w')"
    and "last (trace w') = Api VStatusPatch KClusterAccessMapping (fst q) (snd q) True"
  shows "\<exists>cur. live (ext w') (KClusterAccessMapping, q) = Some (OClusterAccess cur) \<and>
    ca_spec cur = ca_spec cam \<and>
    camReports r (om_generation (ca_meta cam)) (passError err) (cs_invalidReferences (ca_status cur))
      (ca_status cam) (ca_status cur) \<and>
    invalidReferences (trace w') =
      (if passError err = None
       then (invalidReferences (trace w))((''clusteraccessmapping'', ca_name cam) \<mapsto> length (cs_invalidReferences (ca_status cur)))
       else invalidReferences (trace w))"
proof -
  have key: "camSelf cam = (KClusterAccessMapping, q)"
    using cam.cache_key [OF assms(1)] by (simp add: camSelf_def)
  show ?thesis
    using assms(1,3,4,5)
  proof (cases rule: camReconcile_active)
    case (unread e s')
    with assms(6) show ?thesis by simp
  next
    case (ran s1 y w2 st)
    let ?w1 = "w\<lparr>ext := s1, trace := trace w @ [Api VGet KClusterAccessMapping (fst q) (snd q) True]\<rparr>"
    have "live s1 (camSelf cam) = Some (OClusterAccess cam)"
      using touches_live [OF ran(1), of "camSelf cam"] assms(2) key by simp
    then have "live (ext w2) (camSelf cam) = Some (OClusterAccess cam)"
      using keepsD [OF cam_spared.keeps_camSync [where x = "camSelf cam" and v = "Some (OClusterAccess cam)"] _ ran(2)]
        camSelf_bystander [of cam] by simp
    from wpD [OF wp_camStatus [OF this] ran(3)] assms(6)
    obtain cur u where "st = Inr u" "live (ext w') (camSelf cam) = Some (OClusterAccess cur)"
      "ca_spec cur = ca_spec cam"
      "camReports r (om_generation (ca_meta cam)) (as_error y) (invalidOf y) (ca_status cam) (ca_status cur)"
      by (cases st) auto
    moreover have "camReports r g e (cs_invalidReferences st') s0 st'"
      if "camReports r g e i s0 st'" for g e i s0 st'
      using that by (cases e) (auto simp: camReports_def)
    moreover have "invalidReferences (trace w') =
        (if as_error y = None then (invalidReferences (trace w))((''clusteraccessmapping'', ca_name cam) \<mapsto> length (invalidOf y))
         else invalidReferences (trace w))"
      using camStatus_gauge [OF ran(3)] camSync_still [OF ran(2)] by simp
    moreover have "as_error y = None \<Longrightarrow> cs_invalidReferences (ca_status cur) = invalidOf y"
      using \<open>camReports _ _ (as_error y) _ _ _\<close> by (simp add: camReports_def)
    ultimately show ?thesis using ran(4) key by auto
  qed
qed

text \<open>
  A pass that ends without an error, begun with fresh informers: bindings in sync, and the status
  lists exactly the roles that were missing.
\<close>

lemma camReconcile_converges:
  assumes "cache (ext w) (KClusterAccessMapping, q) = Some (OClusterAccess cam)"
    and "\<not> terminating (ca_meta cam)" and "Finalizer \<in> set (om_finalizers (ca_meta cam))"
    and "fresh live cache KClusterRoleBinding (ext w)" and "fresh live cache KClusterRole (ext w)"
    and "live (ext w) (KClusterAccessMapping, q) = Some (OClusterAccess cam)"
    and "camConsistent cam" and "camRepairable live cam (ext w)"
    and "camReconcile r q w = (Inr (res, None), w')"
    and "last (trace w') = Api VStatusPatch KClusterAccessMapping (fst q) (snd q) True"
  shows "camSynced live cam (ext w) (ext w')"
    and "\<exists>cur. live (ext w') (KClusterAccessMapping, q) = Some (OClusterAccess cur) \<and>
      cs_invalidReferences (ca_status cur) = missing live (ext w) (camEntries cam)"
proof -
  have key: "camSelf cam = (KClusterAccessMapping, q)"
    using cam.cache_key [OF assms(1)] by (simp add: camSelf_def)
  have "camSynced live cam (ext w) (ext w') \<and>
    (\<exists>cur. live (ext w') (KClusterAccessMapping, q) = Some (OClusterAccess cur) \<and>
      cs_invalidReferences (ca_status cur) = missing live (ext w) (camEntries cam))"
    using assms(1-3,9)
  proof (cases rule: camReconcile_active)
    case (unread e s')
    with assms(10) show ?thesis by simp
  next
    case (ran s1 y w2 st)
    let ?w1 = "w\<lparr>ext := s1, trace := trace w @ [Api VGet KClusterAccessMapping (fst q) (snd q) True]\<rparr>"
    have live: "live s1 = live (ext w)" using touches_live [OF ran(1)] by auto
    have fresh: "fresh live cache kd s1" if "fresh live cache kd (ext w)" for kd
      using touches_cache [OF ran(1)] that live unfolding fresh_def by metis
    have "live (ext w2) (camSelf cam) = Some (OClusterAccess cam)"
      using keepsD [OF cam_spared.keeps_camSync [where x = "camSelf cam" and v = "Some (OClusterAccess cam)"] _ ran(2)]
        camSelf_bystander [of cam] live assms(6) key by simp
    from wpD [OF wp_camStatus [OF this] ran(3)] assms(10)
    obtain cur u where st: "st = Inr u" "live (ext w') (camSelf cam) = Some (OClusterAccess cur)"
      "camReports r (om_generation (ca_meta cam)) (as_error y) (invalidOf y) (ca_status cam) (ca_status cur)"
      and rest: "\<forall>y. y \<noteq> camSelf cam \<longrightarrow> live (ext w') y = live (ext w2) y"
      by (cases st) auto
    with ran(4) obtain invalid where y: "y = Inr invalid"
      by (cases y) (auto simp: as_error_def terminal_def)
    have "invalid = missing live s1 (camEntries cam) \<and> camSynced live cam s1 (ext w2)"
      using wpD [OF camSync_converges [of ?w1 cam] ran(2)] fresh assms(4,5,7,8) ran(2) y
      by (simp add: live repairableAt_def)
    moreover have "missing live s1 = missing live (ext w)"
        "camSynced live cam s1 = camSynced live cam (ext w)"
      by (simp_all add: fun_eq_iff missing_def camSynced_def wantedAt_def roleExists_def live)
    moreover have "live (ext w') (KClusterRoleBinding, k) = live (ext w2) (KClusterRoleBinding, k)" for k
      by (rule rest [rule_format]) (simp add: camSelf_def)
    then have "camSynced live cam (ext w) (ext w') = camSynced live cam (ext w) (ext w2)"
      by (simp add: camSynced_def revokedAt_def entryGrantedAt_def granted_def)
    ultimately show ?thesis
      using st y key by (simp add: camReports_def as_error_def invalidOf_def)
  qed
  then show "camSynced live cam (ext w) (ext w')"
    and "\<exists>cur. live (ext w') (KClusterAccessMapping, q) = Some (OClusterAccess cur) \<and>
      cs_invalidReferences (ca_status cur) = missing live (ext w) (camEntries cam)" by auto
qed

end

end
