(* ===== verification/Mem_Examples.thy ===== *)
theory Mem_Examples
  imports Mem_Cluster Adoption Cam_Status
begin

text \<open>
  Concrete clusters the properties are evaluated in: one ManagedNamespace and one
  ClusterAccessMapping, with mappings to a ClusterRole that exists (\<open>view\<close>) and one that does not, and
  a stale binding of each kind left by an earlier spec. Binding names are hashes; a run needs of them
  only that their length is 25.
\<close>

definition ex_meta :: "string \<Rightarrow> string \<Rightarrow> object_meta" where
  "ex_meta namespace name = empty_meta\<lparr>om_namespace := namespace, om_name := name, om_generation := 3\<rparr>"

definition ex_mapping :: access_mapping where
  "ex_mapping = \<lparr>am_group = ''devs'', am_users = [], am_clusterRoles = [''view'', ''gone'']\<rparr>"

definition ex_mns :: managed_namespace where
  "ex_mns = \<lparr>mn_meta = (ex_meta [] ''team-a'')\<lparr>om_finalizers := [Finalizer]\<rparr>,
     mn_spec = \<lparr>sp_labels = fmempty, sp_annotations = fmempty, sp_resourceQuotas = [],
       sp_accessMappings = [ex_mapping]\<rparr>,
     mn_status = \<lparr>ms_observedGeneration = 2, ms_conditions = [], ms_invalidReferences = []\<rparr>\<rparr>"

definition ex_cam :: cluster_access_mapping where
  "ex_cam = \<lparr>ca_meta = (ex_meta [] ''ops'')\<lparr>om_finalizers := [Finalizer]\<rparr>, ca_spec = ex_mapping\<lparr>am_clusterRoles := [''view'']\<rparr>,
     ca_status = \<lparr>cs_observedGeneration = 2, cs_conditions = [], cs_invalidReferences = []\<rparr>\<rparr>"

text \<open>The same resources on their way out.\<close>

definition ex_mns_leaving :: managed_namespace where
  "ex_mns_leaving = ex_mns\<lparr>mn_meta := (mn_meta ex_mns)\<lparr>om_deletionTimestamp := Some 7\<rparr>\<rparr>"

definition ex_cam_leaving :: cluster_access_mapping where
  "ex_cam_leaving = ex_cam\<lparr>ca_meta := (ca_meta ex_cam)\<lparr>om_deletionTimestamp := Some 7\<rparr>\<rparr>"

definition ex_stale :: "string \<Rightarrow> string \<Rightarrow> binding" where
  "ex_stale namespace owner = \<lparr>b_meta = (ex_meta namespace ''old'')\<lparr>om_labels := ownerLabels owner\<rparr>,
     b_roleRef = clusterRoleRef ''admin'', b_subjects = []\<rparr>"

definition ex_role :: "(kind \<times> objkey) \<times> obj" where
  "ex_role = ((KClusterRole, [], ''view''), OClusterRole \<lparr>cr_meta = ex_meta [] ''view''\<rparr>)"

definition ex_mns_store :: "managed_namespace \<Rightarrow> store" where
  "ex_mns_store mns = [((KManagedNamespace, [], ''team-a''), OManagedNamespace mns), ex_role,
     ((KRoleBinding, ''team-a'', ''old''), OBinding (ex_stale ''team-a'' ''team-a''))]"

definition ex_cam_store :: "cluster_access_mapping \<Rightarrow> store" where
  "ex_cam_store cam = [((KClusterAccessMapping, [], ''ops''), OClusterAccess cam), ex_role,
     ((KClusterRoleBinding, [], ''old''), OBinding (ex_stale [] ''ops''))]"

text \<open>A world with fresh informers and a schedule of faults.\<close>

definition ex_world :: "store \<Rightarrow> bool list \<Rightarrow> mem world" where
  "ex_world st faults = \<lparr>ext = \<lparr>mem_store = st, mem_seen = st, mem_lagging = False, mem_faults = faults,
     mem_version = 0\<rparr>, trace = []\<rparr>"

lemma ex_world_fresh [simp]: "mem_cache (ext (ex_world st fs)) = mem_live (ext (ex_world st fs))"
  by (simp add: ex_world_def mem_cache_def mem_live_def fun_eq_iff)

lemma ex_fresh [simp]: "fresh mem_live mem_cache kd (ext (ex_world st fs))"
  by (simp add: fresh_def)

lemma BindingName_neq:
  "length n \<noteq> 25 \<Longrightarrow> BindingName a b c \<noteq> n" "length n \<noteq> 25 \<Longrightarrow> n \<noteq> BindingName a b c"
  using length_BindingName by metis+

section \<open>Evaluation\<close>

lemmas eval_examples = ex_world_def ex_mns_store_def ex_cam_store_def ex_role_def ex_mns_def ex_cam_def
  ex_mns_leaving_def ex_cam_leaving_def ex_mapping_def ex_stale_def ex_meta_def empty_meta_def

lemmas eval_cluster = mem_env_def mem_client_def mem_call_def mem_list_def mem_live_list_def mem_get_def
  mem_delete_def mem_createOrUpdate_def mem_patch_def mem_statusPatch_def mem_commit_def mem_stamp_def
  store_list_def lookup_def fits_def mem_live_def mem_cache_def mem_isNotFound_def mem_isInvalid_def
  notFoundError_def conflictError_def mns_merge_def cam_merge_def mem_setCondition_def

lemmas eval_effects = bindE_def attempt_def api_def ret_def throw_def emit_def gets_def for_each_def
  Let_def logResourceDeleted_def logResourceChange_def deleteTolerant_def

lemmas eval_shared = subjectKey_def subjectsFor_def ownerLabels_def labels_match_def owned_by_iff selects_def
  meta_key_def map_filter_def BindingName_neq mappingErrors_def mutateBinding_def binding_template_def
  clusterRoleRef_def as_error_def errors_join_def terminal_def readyCondition_def empty_result_def
  terminating_def conditionMessage_def bound_message_def finalizerRetryAfter_def

lemmas eval_mns = sync_def ensureNamespace_def reconcileQuota_def reconcileBindings_def bindMapping_def
  bindRole_def ensureRoleBinding_def pruneQuotas_def pruneBindings_def specBindings_def ownedBy_def
  mutateNamespace_def namespace_template_def namespaceMetadataInventory_def gomap_str_def mutateLabels_def
  mutateAnnotations_def maps_Copy_def make_if_nil_def gomap_put_def empty_inventory_def wanted_inventory_def
  status_def patchFinalizer_def finalizeBindings_def Reconcile_def

lemmas eval_cam = camSync_def camBindRole_def camEnsure_def camPrune_def camOwned_def camStatus_def
  camPatchFinalizer_def camFinalizeBindings_def camReconcile_def

lemmas eval_all = eval_examples eval_cluster eval_effects eval_shared

lemma ex_entries:
  "entries ex_mns = [(ex_mapping, ''view''), (ex_mapping, ''gone'')]"
  "camEntries ex_cam = [(ex_mapping\<lparr>am_clusterRoles := [''view'']\<rparr>, ''view'')]"
  by (simp_all add: entries_def camEntries_def mappingEntries_def ex_mns_def ex_cam_def ex_mapping_def)

section \<open>The names of the example\<close>

text \<open>The names the program gives, computed through the whole of SHA-256.\<close>

lemma ex_name_view: "BindingName ''team-a'' ''g:devs'' ''view'' = ''k8sc-7d89374b2930e19e2d1a''"
  by code_simp

lemma ex_name_gone: "BindingName ''team-a'' ''g:devs'' ''gone'' = ''k8sc-fea31c5d3eb9d8652247''"
  by code_simp

lemma ex_keys [simp]:
  "entryKey ex_mns (ex_mapping, ''view'') = (''team-a'', ''k8sc-7d89374b2930e19e2d1a'')"
  "entryKey ex_mns (ex_mapping, ''gone'') = (''team-a'', ''k8sc-fea31c5d3eb9d8652247'')"
  by (simp_all add: entryKey_def keyed_def ex_mns_def ex_meta_def ex_mapping_def subjectKey_def
      ex_name_view ex_name_gone empty_meta_def)

lemma ex_consistent [simp]: "namesConsistent ex_mns" "camConsistent ex_cam"
  by (auto simp: consistentAt_def ex_entries)

lemma ex_repairable [simp]:
  "repairable mem_live ex_mns (ext (ex_world (ex_mns_store m) fs))"
  "camRepairable mem_live ex_cam (ext (ex_world (ex_cam_store c) fs))"
  by (simp_all add: repairableAt_def ex_entries)

section \<open>Facts about the examples\<close>

lemma ex_mns_facts [simp]:
  "\<not> terminating (mn_meta ex_mns)" "om_finalizers (mn_meta ex_mns) = [Finalizer]"
  "om_generation (mn_meta ex_mns) = 3" "mn_name ex_mns = ''team-a''"
  by (simp_all add: ex_mns_def ex_meta_def empty_meta_def terminating_def)

lemma ex_cam_facts [simp]:
  "\<not> terminating (ca_meta ex_cam)" "om_finalizers (ca_meta ex_cam) = [Finalizer]"
  "om_generation (ca_meta ex_cam) = 3" "ca_name ex_cam = ''ops''"
  by (simp_all add: ex_cam_def ex_meta_def empty_meta_def terminating_def)

lemma ex_leaving: "terminating (mn_meta ex_mns_leaving)" "terminating (ca_meta ex_cam_leaving)"
  by (simp_all add: ex_mns_leaving_def ex_cam_leaving_def terminating_def)

lemma ex_mns_live: "mem_live (ext (ex_world (ex_mns_store ex_mns) fs)) (KManagedNamespace, [], ''team-a'') =
    Some (OManagedNamespace ex_mns)"
  by (simp add: eval_all)

lemma ex_mns_cached: "mem_cache (ext (ex_world (ex_mns_store ex_mns) fs)) (KManagedNamespace, [], ''team-a'') =
    Some (OManagedNamespace ex_mns)"
  by (simp add: ex_mns_live)

lemma ex_cam_live: "mem_live (ext (ex_world (ex_cam_store ex_cam) fs)) (KClusterAccessMapping, [], ''ops'') =
    Some (OClusterAccess ex_cam)"
  by (simp add: eval_all)

lemma ex_cam_cached: "mem_cache (ext (ex_world (ex_cam_store ex_cam) fs)) (KClusterAccessMapping, [], ''ops'') =
    Some (OClusterAccess ex_cam)"
  by (simp add: ex_cam_live)

text \<open>A stranger's binding with the labels of \<open>team-a\<close> in another namespace.\<close>

definition ex_stranger_store :: store where
  "ex_stranger_store = [((KManagedNamespace, [], ''team-a''), OManagedNamespace ex_mns), ex_role,
     ((KRoleBinding, ''team-b'', ''old''), OBinding (ex_stale ''team-b'' ''team-a''))]"

lemma ex_stranger_cached: "mem_cache (ext (ex_world ex_stranger_store fs)) (KManagedNamespace, [], ''team-a'') =
    Some (OManagedNamespace ex_mns)"
  by (simp add: eval_all ex_stranger_store_def)

lemma ex_stranger_live: "mem_live (ext (ex_world ex_stranger_store fs)) (KRoleBinding, ''team-b'', ''old'') =
    Some (OBinding (ex_stale ''team-b'' ''team-a''))"
  by (simp add: eval_all ex_stranger_store_def)

lemma ex_stranger:
  "bystander mem_live mem_cache ex_mns (KRoleBinding, ''team-b'', ''old'') (ext (ex_world ex_stranger_store fs))"
proof -
  have "om_namespace (b_meta (ex_stale ''team-b'' ''team-a'')) = ''team-b''"
    by (simp add: ex_stale_def ex_meta_def empty_meta_def)
  then have "\<not> selects (ownedBy ex_mns) (obj_meta (OBinding (ex_stale ''team-b'' ''team-a'')))"
    by (simp add: selects_ownedBy)
  then show ?thesis
    by (auto simp: bystander_def seen_def ex_stranger_live mnsOwned_def mnsGenerated_def mnsProvided_def
        specBindings_entries ex_entries)
qed

text \<open>A terminating resource with its Namespace and no binding left.\<close>

definition ex_bare_store :: store where
  "ex_bare_store = [((KManagedNamespace, [], ''team-a''), OManagedNamespace ex_mns_leaving),
     ((KNamespace, [], ''team-a''), ONamespace \<lparr>ns_meta = (ex_meta [] ''team-a'')
        \<lparr>om_labels := ownerLabels ''team-a''\<rparr>\<rparr>)]"

lemma ex_bare_live: "mem_live (ext (ex_world ex_bare_store fs)) (KManagedNamespace, [], ''team-a'') =
    Some (OManagedNamespace ex_mns_leaving)"
  by (simp add: eval_all ex_bare_store_def)

lemma ex_bare_cached: "mem_cache (ext (ex_world ex_bare_store fs)) (KManagedNamespace, [], ''team-a'') =
    Some (OManagedNamespace ex_mns_leaving)"
  by (simp add: ex_bare_live)

lemma ex_bare_namespace: "mem_live (ext (ex_world ex_bare_store fs)) (KNamespace, [], ''team-a'') \<noteq> None"
  by (simp add: eval_all ex_bare_store_def)

section \<open>Runs\<close>

lemma ex_sync: "\<exists>w'. sync mem_env ex_mns (ex_world (ex_mns_store ex_mns) []) = (Inr [missingRef ''gone''], w')"
  by (simp add: eval_all eval_mns missingRef_def)

lemma ex_camSync: "\<exists>w'. camSync mem_env ex_cam (ex_world (ex_cam_store ex_cam) []) = (Inr [], w')"
  by (simp add: eval_all eval_cam)

lemma ex_Reconcile: "\<exists>w'. Reconcile mem_env ([], ''team-a'') (ex_world (ex_mns_store ex_mns) []) =
    (Inr (empty_result, None), w') \<and>
    last (trace w') = Api VStatusPatch KManagedNamespace [] ''team-a'' True"
  by (simp add: eval_all eval_mns)

lemma ex_camReconcile: "\<exists>w'. camReconcile mem_env ([], ''ops'') (ex_world (ex_cam_store ex_cam) []) =
    (Inr (empty_result, None), w') \<and>
    last (trace w') = Api VStatusPatch KClusterAccessMapping [] ''ops'' True"
  by (simp add: eval_all eval_cam)

text \<open>A resource nobody has adopted yet, and two passes over it.\<close>

definition ex_mns_new :: managed_namespace where
  "ex_mns_new = ex_mns\<lparr>mn_meta := (mn_meta ex_mns)\<lparr>om_finalizers := []\<rparr>\<rparr>"

lemma ex_new_facts:
  "\<not> terminating (mn_meta ex_mns_new)" "om_finalizers (mn_meta ex_mns_new) = []"
  "entries ex_mns_new = entries ex_mns" "entryKey ex_mns_new = entryKey ex_mns"
  by (simp_all add: ex_mns_new_def terminating_def ex_mns_def ex_meta_def empty_meta_def entries_same entryKey_same)

lemma ex_new_cached: "mem_cache (ext (ex_world (ex_mns_store ex_mns_new) fs)) (KManagedNamespace, [], ''team-a'') =
    Some (OManagedNamespace ex_mns_new)"
  by (simp add: eval_all ex_mns_new_def)

lemma ex_two_passes:
  "\<exists>w1 w3. Reconcile mem_env ([], ''team-a'') (ex_world (ex_mns_store ex_mns_new) []) =
       (Inr (empty_result\<lparr>r_requeue := True\<rparr>, None), w1) \<and>
     mem_seen (ext w1) = mem_store (ext w1) \<and> repairable mem_live ex_mns_new (ext w1) \<and>
     Reconcile mem_env ([], ''team-a'') w1 = (Inr (empty_result, None), w3) \<and>
     last (trace w3) = Api VStatusPatch KManagedNamespace [] ''team-a'' True"
  by (simp add: eval_all eval_mns ex_mns_new_def repairableAt_def entries_def mappingEntries_def entryKey_def
      keyed_def)

end
