(* ===== verification/Mns_Provision.thy ===== *)
theory Mns_Provision
  imports Mns_Convergence
begin

text \<open>
  What a completed sync has established beyond the bindings: the Namespace carries what the spec asks
  for and its inventory, every quota of the spec is there, and no other owned quota is in force.
\<close>

section \<open>The metadata a spec wants\<close>

definition wanted_label :: "managed_namespace \<Rightarrow> string \<Rightarrow> string option" where
  "wanted_label mns k =
     (if k = LabelOwnerName then Some (mn_name mns)
      else if k = LabelManagedBy then Some ManagedBy
      else fmlookup (sp_labels (mn_spec mns)) k)"

definition wanted_annotation :: "managed_namespace \<Rightarrow> string \<Rightarrow> string option" where
  "wanted_annotation mns k =
     (if k = AnnotationManagedMetadata then Some (json_Marshal (wanted_inventory (mn_spec mns)))
      else fmlookup (sp_annotations (mn_spec mns)) k)"

text \<open>One key after the mutation: wanted, or taken away as an old one, or as it was.\<close>

definition updated :: "('k \<Rightarrow> 'v option) \<Rightarrow> 'k list \<Rightarrow> ('k \<Rightarrow> 'v option) \<Rightarrow> 'k \<Rightarrow> 'v option" where
  "updated want old now k =
     (case want k of Some v \<Rightarrow> Some v | None \<Rightarrow> if k \<in> set old then None else now k)"

lemma updated_simps [simp]:
  "want k = Some v \<Longrightarrow> updated want old now k = Some v"
  "want k = None \<Longrightarrow> updated want old now k = (if k \<in> set old then None else now k)"
  by (simp_all add: updated_def)

lemma wanted_inventory_wanted:
  "k \<in> set (nm_labels (wanted_inventory (mn_spec mns))) \<Longrightarrow> wanted_label mns k \<noteq> None"
  "k \<in> set (nm_annotations (wanted_inventory (mn_spec mns))) \<Longrightarrow> wanted_annotation mns k \<noteq> None"
  by (auto simp: set_wanted_inventory wanted_label_def wanted_annotation_def)

lemma mutateNamespace_updated:
  assumes "namespaceMetadataInventory ns = Inr i"
  obtains ls as where
    "mutateNamespace mns ns = Inr (ns\<lparr>ns_meta := (ns_meta ns)\<lparr>om_labels := ls, om_annotations := as\<rparr>\<rparr>)"
    and "gomap_get ls = updated (wanted_label mns) (nm_labels i) (gomap_get (om_labels (ns_meta ns)))"
    and "gomap_get as = updated (wanted_annotation mns) (nm_annotations i) (gomap_get (om_annotations (ns_meta ns)))"
proof (rule mutateNamespace_Inr [OF assms, of mns], goal_cases)
  case (1 ls as)
  show ?thesis
    by (rule 1(1) [OF 1(2)])
      (auto simp: fun_eq_iff 1(3,4) updated_def wanted_label_def wanted_annotation_def split: option.split)
qed

section \<open>Settled Namespaces\<close>

text \<open>A Namespace the mutation of this spec would not change.\<close>

definition settled :: "managed_namespace \<Rightarrow> namespace_obj \<Rightarrow> bool" where
  "settled mns ns \<longleftrightarrow> mutateNamespace mns ns = Inr ns"

text \<open>It has every wanted label and annotation, and its inventory reads back as the spec's keys.\<close>

lemma settled_iff:
  assumes "good_keys (mn_spec mns)"
  shows "settled mns ns \<longleftrightarrow>
    namespaceMetadataInventory ns = Inr (wanted_inventory (mn_spec mns)) \<and>
    (\<forall>k v. wanted_label mns k = Some v \<longrightarrow> gomap_get (om_labels (ns_meta ns)) k = Some v) \<and>
    (\<forall>k v. wanted_annotation mns k = Some v \<longrightarrow> gomap_get (om_annotations (ns_meta ns)) k = Some v)"
    (is "_ \<longleftrightarrow> ?i \<and> ?l \<and> ?a")
proof
  assume *: "settled mns ns"
  then have i: ?i
    using mutateNamespace_inventory assms by (simp add: settled_def)
  show "?i \<and> ?l \<and> ?a"
  proof (rule mutateNamespace_updated [OF i, of mns], goal_cases)
    case (1 ls as)
    then have "ns\<lparr>ns_meta := (ns_meta ns)\<lparr>om_labels := ls, om_annotations := as\<rparr>\<rparr> = ns"
      using * by (simp add: settled_def)
    then have "ls = om_labels (ns_meta ns)" "as = om_annotations (ns_meta ns)"
      by (cases ns; cases "ns_meta ns"; simp)+
    with 1(2,3) i show ?case by (metis updated_simps(1))
  qed
next
  assume *: "?i \<and> ?l \<and> ?a"
  then have i: ?i by blast
  show "settled mns ns"
  proof (rule mutateNamespace_updated [OF i, of mns], goal_cases)
    case (1 ls as)
    have same: "gomap_get ls k = gomap_get (om_labels (ns_meta ns)) k"
      "gomap_get as k = gomap_get (om_annotations (ns_meta ns)) k" for k
      using * wanted_inventory_wanted [of k mns]
      by (auto simp: 1(2,3) updated_def split: option.split)
    have owner: "gomap_get (om_labels (ns_meta ns)) LabelOwnerName = Some (mn_name mns)"
      and inv: "\<exists>v. gomap_get (om_annotations (ns_meta ns)) AnnotationManagedMetadata = Some v"
      using * by (simp_all add: wanted_label_def wanted_annotation_def)
    have "ls = om_labels (ns_meta ns)"
      using gomap_get_not_nil [OF owner] gomap_get_not_nil [of ls LabelOwnerName "mn_name mns"] owner
      by (intro gomap_ext) (simp_all add: same)
    moreover have "as = om_annotations (ns_meta ns)"
      using inv gomap_get_not_nil [of as AnnotationManagedMetadata] gomap_get_not_nil
      by (intro gomap_ext) (auto simp: same)
    ultimately show ?case using 1(1) by (simp add: settled_def)
  qed
qed

text \<open>The keys of the spec are UTF-8 and leave the server's own label alone.\<close>

definition sane_metadata :: "mns_spec \<Rightarrow> bool" where
  "sane_metadata sp \<longleftrightarrow> good_keys sp \<and> fmlookup (sp_labels sp) server_label = None"

lemma server_label_neq [simp]: "server_label \<noteq> LabelOwnerName" "server_label \<noteq> LabelManagedBy"
  by (simp_all add: server_label_def LabelOwnerName_def LabelManagedBy_def)

lemma settled_strip:
  assumes "settled mns sent" and "strip_namespace ob = strip_namespace sent"
    and "sane_metadata (mn_spec mns)"
  shows "settled mns ob"
proof -
  have "gomap_delete server_label (om_labels (ns_meta ob)) = gomap_delete server_label (om_labels (ns_meta sent))"
    and as: "om_annotations (ns_meta ob) = om_annotations (ns_meta sent)"
    and "om_name (ns_meta ob) = om_name (ns_meta sent)"
    using assms(2) by (cases ob; cases sent; cases "ns_meta ob"; cases "ns_meta sent";
        simp add: strip_namespace_def strip_meta_def)+
  then have same: "gomap_get (om_labels (ns_meta ob)) k = gomap_get (om_labels (ns_meta sent)) k"
    if "k \<noteq> server_label" for k
    using that gomap_get_delete by metis
  have wanted: "wanted_label mns k = Some v \<Longrightarrow> k \<noteq> server_label" for k v
    using assms(3) by (auto simp: wanted_label_def sane_metadata_def)
  have inv: "namespaceMetadataInventory ob = namespaceMetadataInventory sent"
    by (simp only: namespaceMetadataInventory_def as \<open>om_name (ns_meta ob) = _\<close>)
  have good: "good_keys (mn_spec mns)" using assms(3) by (simp add: sane_metadata_def)
  from assms(1) show ?thesis
    by (simp add: settled_iff [OF good] inv as) (metis same wanted)
qed

definition namespaceSettled :: "('s \<Rightarrow> table) \<Rightarrow> managed_namespace \<Rightarrow> 's \<Rightarrow> bool" where
  "namespaceSettled live mns s \<longleftrightarrow>
     (\<exists>ns. live s (KNamespace, [], mn_name mns) = Some (ONamespace ns) \<and> settled mns ns)"

context kube_env begin

lemma wp_ensureNamespace:
  assumes "cache (ext w) (KNamespace, [], mn_name mns) = live (ext w) (KNamespace, [], mn_name mns)"
    and "sane_metadata (mn_spec mns)"
  shows "wp (ensureNamespace r mns) (\<lambda>x w'. x = Inr () \<longrightarrow>
    namespaceSettled live mns (ext w') \<and>
    (\<forall>y. y \<noteq> (KNamespace, [], mn_name mns) \<longrightarrow> still live cache y (ext w) (ext w'))) w"
proof -
  let ?x = "(KNamespace, [], mn_name mns)"
  have key: "meta_key (ns_meta (namespace_template mns)) = ([], mn_name mns)"
    by (simp add: meta_key_def namespace_template_def empty_meta_def)
  have good: "good_keys (mn_spec mns)" using assms(2) by (simp add: sane_metadata_def)
  show ?thesis
    unfolding ensureNamespace_def wp_bindE
  proof (rule ns.wp_createOrUpdate, goal_cases)
    case (1 res ob s')
    have "settled mns sent" if "mutateNamespace mns base = Inr sent" for base sent
      using mutateNamespace_idem [OF that good] by (simp add: settled_def)
    then have "settled mns ob"
      using 1(2) settled_strip [OF _ _ assms(2)] unfolding cou_done_def settled_def by metis
    moreover have "live s' ?x = Some (ONamespace ob)"
      using 1(2) assms(1) by (auto simp: cou_done_def key split: if_splits)
    ultimately have "namespaceSettled live mns s'" by (simp add: namespaceSettled_def)
    moreover have "still live cache y (ext w) s'" if "y \<noteq> ?x" for y
      using touches_still [OF 1(1)] that by (simp add: key)
    ultimately show ?case by (auto intro!: wp_logResourceChange)
  qed simp
qed

end

section \<open>The quotas\<close>

text \<open>The server has the quota \<open>q\<close> of the spec, labelled and limited as it asks.\<close>

definition quotaProvided :: "('s \<Rightarrow> table) \<Rightarrow> managed_namespace \<Rightarrow> 's \<Rightarrow> resource_quota \<Rightarrow> bool" where
  "quotaProvided live mns s q \<longleftrightarrow>
     (\<exists>ob. live s (KResourceQuota, mn_name mns, rq_name q) = Some (OQuota ob) \<and>
        om_labels (q_meta ob) = ownerLabels (mn_name mns) \<and> q_spec ob = rq_spec q)"

definition named_quotas :: "managed_namespace \<Rightarrow> resource_quota list" where
  "named_quotas mns = filter (\<lambda>q. rq_name q \<noteq> []) (sp_resourceQuotas (mn_spec mns))"

definition quota_at :: "managed_namespace \<Rightarrow> string \<Rightarrow> kind \<times> objkey" where
  "quota_at mns n = (KResourceQuota, mn_name mns, n)"

text \<open>No owned quota but those of the spec is in force.\<close>

definition quotasPruned :: "('s \<Rightarrow> table) \<Rightarrow> managed_namespace \<Rightarrow> 's \<Rightarrow> bool" where
  "quotasPruned live mns s \<longleftrightarrow>
     (\<forall>ob. live s (KResourceQuota, meta_key (q_meta ob)) = Some (OQuota ob) \<longrightarrow>
        selects (ownedBy mns) (q_meta ob) \<longrightarrow>
        om_name (q_meta ob) \<in> rq_name ` set (named_quotas mns) \<or> terminating (q_meta ob))"

definition quotasSynced :: "('s \<Rightarrow> table) \<Rightarrow> managed_namespace \<Rightarrow> 's \<Rightarrow> bool" where
  "quotasSynced live mns s \<longleftrightarrow>
     list_all (quotaProvided live mns s) (named_quotas mns) \<and> quotasPruned live mns s"

text \<open>The invariant of the loop over the spec's quotas, of which \<open>done\<close> have been applied.\<close>

definition quotaLoop :: "('s \<Rightarrow> table) \<Rightarrow> ('s \<Rightarrow> table) \<Rightarrow> managed_namespace \<Rightarrow> 's \<Rightarrow>
    resource_quota list \<Rightarrow> string set \<Rightarrow> 's \<Rightarrow> bool" where
  "quotaLoop live cache mns s0 done want s \<longleftrightarrow>
     want = rq_name ` {q \<in> set done. rq_name q \<noteq> []} \<and>
     (\<forall>q \<in> set done. rq_name q \<noteq> [] \<longrightarrow> quotaProvided live mns s q) \<and>
     (\<forall>x. x \<notin> quota_at mns ` want \<longrightarrow> still live cache x s0 s)"

lemma quotaLoop_still:
  "quotaLoop live cache mns s0 done want s \<Longrightarrow> x \<notin> quota_at mns ` want \<Longrightarrow> still live cache x s0 s"
  unfolding quotaLoop_def by blast

lemma quotaProvided_still:
  "quotaProvided live mns s q \<Longrightarrow> still live cache (quota_at mns (rq_name q)) s s' \<Longrightarrow> quotaProvided live mns s' q"
  by (auto simp: quotaProvided_def still_def quota_at_def)

lemma quotaProvided_touches:
  assumes "touches live cache {quota_at mns n} s s'" and "quotaProvided live mns s q" and "rq_name q \<noteq> n"
  shows "quotaProvided live mns s' q"
  using quotaProvided_still [OF assms(2) touches_still [OF assms(1)]] assms(3) by (simp add: quota_at_def)

lemma mutateQuota_fixed:
  "mutateQuota mns q rq = Inr rq \<longleftrightarrow>
     om_labels (q_meta rq) = ownerLabels (mn_name mns) \<and> q_spec rq = rq_spec q"
  by (cases rq; cases "q_meta rq") (auto simp: mutateQuota_def)

lemma mutateQuota_sets:
  assumes "mutateQuota mns q base = Inr sent" and "strip_quota ob = strip_quota sent"
  shows "om_labels (q_meta ob) = ownerLabels (mn_name mns) \<and> q_spec ob = rq_spec q"
proof -
  have "q_meta (strip_quota ob) = q_meta (strip_quota sent)" "q_spec (strip_quota ob) = q_spec (strip_quota sent)"
    by (simp_all add: assms(2))
  then have "om_labels (q_meta ob) = om_labels (q_meta sent)" "q_spec ob = q_spec sent"
    by (auto simp: strip_quota_def dest: strip_meta_eqD(1))
  with assms(1) show ?thesis by (auto simp: mutateQuota_def)
qed

context kube_env begin

lemma wp_quotaStep:
  assumes "quotaLoop live cache mns s0 done want (ext w)"
    and "fresh live cache KResourceQuota s0" and "rq_name q \<notin> rq_name ` set done"
  shows "wp (quotaStep r mns want (i, q)) (\<lambda>x w'. \<forall>want'. x = Inr want' \<longrightarrow>
    quotaLoop live cache mns s0 (done @ [q]) want' (ext w')) w"
proof (cases "rq_name q = []")
  case True
  have "{p. (p = q \<or> p \<in> set done) \<and> rq_name p \<noteq> []} = {p \<in> set done. rq_name p \<noteq> []}"
    using True by auto
  with True assms(1) show ?thesis by (simp add: quotaStep_def quotaLoop_def)
next
  case False
  let ?n = "rq_name q"
  have key: "meta_key (q_meta (quota_template mns q)) = (mn_name mns, ?n)"
    by (simp add: meta_key_def quota_template_def empty_meta_def)
  have want: "want = rq_name ` {q \<in> set done. rq_name q \<noteq> []}" using assms(1) by (simp add: quotaLoop_def)
  then have "quota_at mns ?n \<notin> quota_at mns ` want" using assms(3) by (auto simp: quota_at_def)
  then have "still live cache (quota_at mns ?n) s0 (ext w)"
    by (rule quotaLoop_still [OF assms(1)])
  then have known: "cache (ext w) (quota_at mns ?n) = live (ext w) (quota_at mns ?n)"
    using freshD [OF assms(2)] by (auto simp: still_def quota_at_def)
  show ?thesis
    unfolding quotaStep_def prod.case if_not_P [OF False] wp_bindE
  proof (rule quota.wp_createOrUpdate, goal_cases)
    case (1 res ob s')
    then have t: "touches live cache {quota_at mns ?n} (ext w) s'" by (simp add: key quota_at_def)
    have "om_labels (q_meta ob) = ownerLabels (mn_name mns) \<and> q_spec ob = rq_spec q"
      using 1(2) mutateQuota_sets mutateQuota_fixed unfolding cou_done_def key by (metis (full_types))
    moreover have "live s' (quota_at mns ?n) = Some (OQuota ob)"
      using 1(2) known by (auto simp: cou_done_def key quota_at_def split: if_splits)
    ultimately have here: "quotaProvided live mns s' q" by (auto simp: quotaProvided_def quota_at_def)
    have "quotaLoop live cache mns s0 (done @ [q]) (insert ?n want) s'"
      unfolding quotaLoop_def
    proof (intro conjI ballI impI allI)
      show "insert ?n want = rq_name ` {p \<in> set (done @ [q]). rq_name p \<noteq> []}"
        using False want by auto
    next
      fix p assume p: "p \<in> set (done @ [q])" "rq_name p \<noteq> []"
      then show "quotaProvided live mns s' p"
        using here assms(1,3) quotaProvided_touches [OF t] by (auto simp: quotaLoop_def image_iff)
    next
      fix x assume "x \<notin> quota_at mns ` insert ?n want"
      then show "still live cache x s0 s'"
        using still_touches [OF quotaLoop_still [OF assms(1)] t] by simp
    qed
    then show ?case by (auto intro!: wp_logResourceChange)
  qed simp
qed

text \<open>The prune at the end takes away every other owned quota and moves nothing else.\<close>

lemma wp_pruneQuotas:
  assumes "\<And>k. k \<notin> Pair (mn_name mns) ` W \<Longrightarrow> cache (ext w) (KResourceQuota, k) = live (ext w) (KResourceQuota, k)"
    and "W = rq_name ` set (named_quotas mns)"
  shows "wp (pruneQuotas r mns W) (\<lambda>x w'. x = Inr () \<longrightarrow> quotasPruned live mns (ext w')) w"
  unfolding pruneQuotas_def ownedBy_def [symmetric] wp_bindE
proof (rule quota.wp_list, goal_cases)
  case (1 items s')
  have same: "live s' = live (ext w)" using touches_live [OF 1(1)] by auto
  let ?w = "w\<lparr>ext := s', trace := trace w @ [Api VList KResourceQuota (mn_name mns) [] True]\<rparr>"
  have left: "\<forall>ob. live (ext ?w) (KResourceQuota, meta_key (q_meta ob)) = Some (OQuota ob) \<longrightarrow>
      selects (ownedBy mns) (q_meta ob) \<longrightarrow>
      meta_key (q_meta ob) \<in> Pair (mn_name mns) ` W \<or> terminating (q_meta ob) \<or> ob \<in> set items"
    using 1(2) assms(1) by (simp add: same) metis
  have kept: "meta_key (q_meta it) \<in> Pair (mn_name mns) ` W"
    if "it \<in> set items" "\<not> om_name (q_meta it) \<notin> W" for it
    using that 1(2) by (auto simp: selects_ownedBy meta_key_def)
  show ?case
    unfolding sum.case fst_conv snd_conv
    by (rule wp_conseq [OF quota.wp_prune_loop [OF refl left]])
      (use kept in \<open>auto simp: quotasPruned_def assms(2) meta_key_def\<close>)
qed simp

lemma wp_pruneQuotas_still:
  assumes "\<And>n. x = quota_at mns n \<Longrightarrow> n \<in> W" and "fst x = KResourceQuota \<Longrightarrow> fst (snd x) = mn_name mns"
  shows "wp (pruneQuotas r mns W) (\<lambda>_ w'. still live cache x (ext w) (ext w')) w"
  unfolding pruneQuotas_def
  by (rule keeps_wp [OF quota.keeps_prune_still])
    (use assms in \<open>auto simp: quota_at_def meta_key_def\<close>)

lemma reconcileQuota_syncs:
  assumes "fresh live cache KResourceQuota (ext w)"
    and "distinct (map rq_name (sp_resourceQuotas (mn_spec mns)))"
    and "reconcileQuota r mns w = (Inr u, w')"
  shows "quotasSynced live mns (ext w')"
    and "fst x \<noteq> KResourceQuota \<Longrightarrow> still live cache x (ext w) (ext w')"
proof -
  let ?qs = "sp_resourceQuotas (mn_spec mns)"
  from assms(3) obtain want w1 where
    loop: "fold_io (quotaStep r mns) {} (List.enumerate 0 ?qs) w = (Inr want, w1)" and
    prune: "pruneQuotas r mns want w1 = (Inr u, w')"
    unfolding reconcileQuota_def by (blast dest!: bindE_result)
  have "wp (fold_io (quotaStep r mns) {} (List.enumerate 0 ?qs))
      (\<lambda>x w1. \<forall>want. x = Inr want \<longrightarrow> quotaLoop live cache mns (ext w) ?qs want (ext w1)) w"
  proof (rule wp_fold_io [where I = "\<lambda>done want w1. quotaLoop live cache mns (ext w) (map snd done) want (ext w1)"],
      goal_cases)
    case (2 "done" iq todo want w1)
    obtain i q where iq: "iq = (i, q)" by (cases iq)
    have "map snd (List.enumerate 0 ?qs) = map snd done @ q # map snd todo" using 2(1) iq by simp
    then have "rq_name q \<notin> rq_name ` set (map snd done)" using assms(2) by auto
    from wp_quotaStep [OF 2(2) assms(1) this] show ?case
      unfolding iq by (rule wp_conseq) (auto split: sum.split)
  qed (auto simp: quotaLoop_def)
  then have J: "quotaLoop live cache mns (ext w) ?qs want (ext w1)"
    using wpD loop by blast
  then have want: "want = rq_name ` set (named_quotas mns)"
    and given: "\<And>q. q \<in> set (named_quotas mns) \<Longrightarrow> quotaProvided live mns (ext w1) q"
    by (simp_all add: quotaLoop_def named_quotas_def)
  note calm = quotaLoop_still [OF J]
  have "cache (ext w1) (KResourceQuota, k) = live (ext w1) (KResourceQuota, k)"
    if "k \<notin> Pair (mn_name mns) ` want" for k
  proof -
    have "(KResourceQuota, k) \<notin> quota_at mns ` want" using that by (auto simp: quota_at_def)
    from calm [OF this] show ?thesis using freshD [OF assms(1), of k] by (auto simp: still_def)
  qed
  from wpD [OF wp_pruneQuotas [OF this want] prune]
  have pruned: "quotasPruned live mns (ext w')" by simp
  have "quotaProvided live mns (ext w') q" if q: "q \<in> set (named_quotas mns)" for q
  proof (rule quotaProvided_still [OF given [OF q]])
    show "still live cache (quota_at mns (rq_name q)) (ext w1) (ext w')"
      by (rule wpD [OF wp_pruneQuotas_still prune]) (use q in \<open>auto simp: quota_at_def want\<close>)
  qed
  with pruned show "quotasSynced live mns (ext w')" by (simp add: quotasSynced_def list_all_iff)
  show "still live cache x (ext w) (ext w')" if "fst x \<noteq> KResourceQuota"
  proof (rule still_trans)
    show "still live cache x (ext w) (ext w1)" using that by (intro calm) (auto simp: quota_at_def)
    show "still live cache x (ext w1) (ext w')"
      by (rule wpD [OF wp_pruneQuotas_still prune]) (use that in \<open>auto simp: quota_at_def\<close>)
  qed
qed

end

section \<open>The whole sync\<close>

text \<open>Binding work moves nothing but RoleBindings.\<close>

sublocale kube_env \<subseteq> binding_only: mns_binding r live cache
    "\<lambda>w. fst x \<noteq> KRoleBinding \<and> live (ext w) x = v"
    "\<lambda>_. True" "{y. fst y = KRoleBinding}" "\<lambda>y _. fst y = KRoleBinding" mns
  for mns :: managed_namespace and x :: "kind \<times> objkey" and v :: "obj option"
proof (unfold_locales, goal_cases)
  case (2 w s' vb y ok)
  then show ?case using touches_live [OF 2(2), of x] by auto
next
  case (3 w y s' vb ok)
  then have "x \<noteq> y" by auto
  with 3 show ?case using touches_live [OF 3(2), of x] by auto
next
  case (4 w w1 y ob s' ok)
  then have "x \<noteq> y" by auto
  with 4 show ?case using touches_live [OF 4(5), of x] by auto
qed auto

context kube_env begin

lemma sync_provides:
  assumes "fresh live cache KNamespace (ext w)" and "fresh live cache KResourceQuota (ext w)"
    and "sane_metadata (mn_spec mns)" and "distinct (map rq_name (sp_resourceQuotas (mn_spec mns)))"
    and "sync r mns w = (Inr invalid, w')"
  shows "namespaceSettled live mns (ext w') \<and> quotasSynced live mns (ext w')"
proof -
  from assms(5) obtain u1 w1 u2 w2 u3 w3 where
    1: "pruneBindings r mns (Some (specBindings mns)) w = (Inr u1, w1)" and
    2: "ensureNamespace r mns w1 = (Inr u2, w2)" and
    3: "reconcileQuota r mns w2 = (Inr u3, w3)" and
    4: "reconcileBindings r mns w3 = (Inr invalid, w')"
    unfolding sync_def by (blast dest!: bindE_result)
  have calm1: "still live cache x (ext w) (ext w1)" if "fst x \<noteq> KRoleBinding" for x
    using wpD [OF wp_prune_still 1] that by blast
  have "cache (ext w1) (KNamespace, [], mn_name mns) = live (ext w1) (KNamespace, [], mn_name mns)"
    using calm1 [of "(KNamespace, [], mn_name mns)"] freshD [OF assms(1)] by (auto simp: still_def)
  from wpD [OF wp_ensureNamespace [OF this assms(3)] 2]
  have ns: "namespaceSettled live mns (ext w2)"
    and calm2: "\<And>y. y \<noteq> (KNamespace, [], mn_name mns) \<Longrightarrow> still live cache y (ext w1) (ext w2)" by auto
  have "fresh live cache KResourceQuota (ext w2)"
    unfolding fresh_def
  proof
    fix k
    have "still live cache (KResourceQuota, k) (ext w) (ext w2)"
      by (rule still_trans [OF calm1 calm2]) auto
    then show "cache (ext w2) (KResourceQuota, k) = live (ext w2) (KResourceQuota, k)"
      using freshD [OF assms(2), of k] by (auto simp: still_def)
  qed
  note quotas = reconcileQuota_syncs [OF this assms(4) 3]
  have same: "live (ext w') x = live (ext w3) x" if "fst x \<noteq> KRoleBinding" for x
    using keepsD [OF binding_only.keeps_reconcileBindings [where x = x and v = "live (ext w3) x"] _ 4] that by simp
  have "namespaceSettled live mns (ext w3)"
    using ns quotas(2) [of "(KNamespace, [], mn_name mns)"] by (simp add: namespaceSettled_def still_def)
  moreover have "quotaProvided live mns (ext w') = quotaProvided live mns (ext w3)"
    by (simp add: fun_eq_iff quotaProvided_def same)
  ultimately show ?thesis
    using quotas(1) by (simp add: namespaceSettled_def quotasSynced_def quotasPruned_def same)
qed

end

end
