(* ===== verification/Quiet.thy ===== *)
theory Quiet
  imports Mns_Provision Cam_Sync
begin

text \<open>
  The steady state. Once a pass has put everything in sync, the informers have caught up and what was
  deleted is gone, another sync that runs to its end deletes nothing, changes nothing and logs no
  change; so the watches the controller keeps on its own objects do not wake it up again.
\<close>

section \<open>Passing without a ripple\<close>

fun quiet_event :: "event \<Rightarrow> bool" where
  "quiet_event (Api v kd ns nm ok) = (v \<noteq> VDelete)"
| "quiet_event (LogInfo xs) = False"
| "quiet_event ev = True"

definition calm :: "('s \<Rightarrow> table) \<Rightarrow> ('s \<Rightarrow> table) \<Rightarrow> 's world \<Rightarrow> 's world \<Rightarrow> bool" where
  "calm live cache w w' \<longleftrightarrow> emits quiet_event w w' \<and> (\<forall>x. still live cache x (ext w) (ext w'))"

lemma calm_refl [simp]: "calm live cache w w"
  by (simp add: calm_def)

lemma calm_trans: "calm live cache w w' \<Longrightarrow> calm live cache w' w'' \<Longrightarrow> calm live cache w w''"
  unfolding calm_def using emits_trans still_trans by metis

lemma calm_note:
  "calm live cache w w' \<Longrightarrow> quiet_event ev \<Longrightarrow> calm live cache w (w'\<lparr>trace := trace w' @ [ev]\<rparr>)"
  by (simp add: calm_def emits_step)

lemma calm_read:
  "touches live cache {} (ext w) s' \<Longrightarrow> quiet_event ev \<Longrightarrow>
     calm live cache w (w\<lparr>ext := s', trace := trace w @ [ev]\<rparr>)"
  by (simp add: calm_def emits_step_ext touches_still)

lemma calm_still: "calm live cache w w' \<Longrightarrow> still live cache x (ext w) (ext w')"
  unfolding calm_def by blast

lemma calm_known:
  assumes "calm live cache w w'" and "cache (ext w) x = live (ext w) x"
  shows "cache (ext w') x = live (ext w) x" "live (ext w') x = live (ext w) x"
  using still_caught_up [OF calm_still [OF assms(1)] assms(2)] by auto

lemma calm_fresh:
  assumes "calm live cache w w'" and "fresh live cache kd (ext w)"
  shows "fresh live cache kd (ext w')" "live (ext w') (kd, k) = live (ext w) (kd, k)"
  using calm_known [OF assms(1) freshD [OF assms(2)]] by (simp_all add: fresh_def)

text \<open>Postconditions of the form: if the step succeeds, all was calm.\<close>

lemma wp_calm_bind:
  assumes "wp m (\<lambda>x w'. \<forall>y. x = Inr y \<longrightarrow> calm live cache w w' \<and> P y) w"
    and "\<And>y w'. calm live cache w w' \<Longrightarrow> P y \<Longrightarrow>
      wp (f y) (\<lambda>x w''. \<forall>z. x = Inr z \<longrightarrow> calm live cache w' w'' \<and> Q z) w'"
  shows "wp (bindE m f) (\<lambda>x w'. \<forall>z. x = Inr z \<longrightarrow> calm live cache w w' \<and> Q z) w"
  unfolding wp_bindE
proof (rule wp_conseq [OF assms(1)], goal_cases)
  case (1 x w')
  show ?case
  proof (cases x)
    case (Inr y)
    with 1 assms(2) have "wp (f y) (\<lambda>x w''. \<forall>z. x = Inr z \<longrightarrow> calm live cache w' w'' \<and> Q z) w'" by simp
    then show ?thesis
      unfolding Inr sum.case by (rule wp_conseq) (use 1 Inr calm_trans in blast)
  qed simp
qed

context kind_laws begin

text \<open>\<open>CreateOrUpdate\<close> with nothing to do.\<close>

lemma wp_cou_calm:
  assumes "cache (ext w) (kd, meta_key (meta ob)) = Some (wrap base)"
    and "live (ext w) (kd, meta_key (meta ob)) = Some (wrap base)" and "f base = Inr base"
  shows "wp (api VCreateOrUpdate kk key (k_createOrUpdate cl f ob))
    (\<lambda>x w'. \<forall>y. x = Inr y \<longrightarrow> calm live cache w w' \<and> fst y = OperationResultNone) w"
proof (rule wp_createOrUpdate, goal_cases)
  case (1 res ob' s')
  have res: "res = OperationResultNone"
    using 1(2) assms unfolding cou_done_def by (cases res) (auto split: if_splits)
  then have "live s' (kd, meta_key (meta ob)) = live (ext w) (kd, meta_key (meta ob))"
    using 1(2) by (simp add: cou_done_def)
  then have "live s' y = live (ext w) y" for y
    using touches_live [OF 1(1), of y] by (cases "y = (kd, meta_key (meta ob))") auto
  then have "still live cache y (ext w) s'" for y
    using touches_cache [OF 1(1), of y] by (auto simp: still_def)
  with res show ?case by (simp add: calm_def emits_step_ext)
qed simp

text \<open>A prune with nothing to take away.\<close>

lemma wp_prune_calm:
  assumes "\<And>ob. cache (ext w) (kd, meta_key (meta ob)) = Some (wrap ob) \<Longrightarrow> selects opts (meta ob) \<Longrightarrow>
      \<not> rm ob"
  shows "wp (bindE (api VList kk key (k_list cl opts)) (for_each (\<lambda>it. if rm it then f it else ret ())))
    (\<lambda>x w'. \<forall>y. x = Inr y \<longrightarrow> calm live cache w w' \<and> True) w"
  unfolding wp_bindE
proof (rule wp_list, goal_cases)
  case (1 items s')
  have "\<not> rm it" if "it \<in> set items" for it using 1(2) assms that by blast
  then show ?case
    unfolding sum.case
    by (intro wp_for_each [where I = "\<lambda>_ w'. calm live cache w w'"])
      (use calm_read [OF 1(1)] in auto)
qed simp

end

context binding_laws begin

lemma wp_ensureBinding_calm:
  assumes "cache (ext w) (kd, namespace, name) = Some (OBinding b)"
    and "live (ext w) (kd, namespace, name) = Some (OBinding b)" and "grants owner role subjects b"
  shows "wp (ensureBinding r kd kn cl namespace name role subjects lns okd owner)
    (\<lambda>x w'. \<forall>y. x = Inr y \<longrightarrow> calm live cache w w' \<and> True) w"
proof -
  have key: "meta_key (b_meta b) = (namespace, name)" using cache_key assms(1) by blast
  have tmpl: "meta_key (b_meta (binding_template namespace name)) = (namespace, name)"
    by (simp add: meta_key_def binding_template_def empty_meta_def)
  let ?upsert = "\<lambda>ob. bindE (api VCreateOrUpdate kd (b_key ob)
        (k_createOrUpdate cl (mutateBinding owner (clusterRoleRef role) subjects) ob))
      (\<lambda>(res, b'). logResourceChange res kn (lns b') (om_name (b_meta b')) okd owner)"
  have written: "wp (?upsert ob) (\<lambda>x w'. \<forall>y. x = Inr y \<longrightarrow> calm live cache w w' \<and> True) w1"
    if "calm live cache w w1" and "b_key ob = (namespace, name)" for w1 ob
  proof -
    have now: "cache (ext w1) (kd, b_key ob) = Some (OBinding b)"
      "live (ext w1) (kd, b_key ob) = Some (OBinding b)"
      using calm_known [OF that(1), of "(kd, namespace, name)"] assms(1,2) that(2) by simp_all
    have "wp (?upsert ob) (\<lambda>x w'. \<forall>y. x = Inr y \<longrightarrow> calm live cache w1 w' \<and> True) w1"
      by (rule wp_calm_bind [OF wp_cou_calm [OF now]])
        (use assms(3) in \<open>auto simp: mutateBinding_fixed logResourceChange_def\<close>)
    then show ?thesis by (rule wp_conseq) (use calm_trans [OF that(1)] in blast)
  qed
  show ?thesis
    unfolding ensureBinding_def Let_def wp_bindE [of "attempt _"] wp_attempt
  proof (rule wp_get, goal_cases)
    case (1 ob s')
    then have "ob = b" using assms(1) by simp
    then show ?case
      using written [OF calm_read [OF 1(1)]] assms(3) key
      by (simp add: grants_def bindE_assoc)
  next
    case (2 e s')
    then show ?case using written [OF calm_read [OF 2(1)]] tmpl by simp
  qed
qed

end

section \<open>A ManagedNamespace at rest\<close>

text \<open>Nothing of the resource's own is on its way out.\<close>

definition nothingLeaving :: "('s \<Rightarrow> table) \<Rightarrow> managed_namespace \<Rightarrow> 's \<Rightarrow> bool" where
  "nothingLeaving live mns s \<longleftrightarrow>
     (\<forall>x ob. (fst x = KRoleBinding \<or> fst x = KResourceQuota) \<longrightarrow> live s x = Some ob \<longrightarrow>
        selects (ownedBy mns) (obj_meta ob) \<longrightarrow> \<not> terminating (obj_meta ob))"

definition atRest :: "('s \<Rightarrow> table) \<Rightarrow> managed_namespace \<Rightarrow> 's \<Rightarrow> bool" where
  "atRest live mns s \<longleftrightarrow>
     namespaceSettled live mns s \<and> quotasSynced live mns s \<and> bindingsSynced live mns s s \<and>
     nothingLeaving live mns s"

text \<open>The caches the sync reads agree with the server.\<close>

definition informed :: "('s \<Rightarrow> table) \<Rightarrow> ('s \<Rightarrow> table) \<Rightarrow> 's \<Rightarrow> bool" where
  "informed live cache s \<longleftrightarrow> fresh live cache KNamespace s \<and> fresh live cache KResourceQuota s \<and>
     fresh live cache KRoleBinding s \<and> fresh live cache KClusterRole s"

lemma calm_live:
  "calm live cache w w' \<Longrightarrow> live (ext w') = live (ext w)"
  unfolding calm_def still_def by auto

lemma calm_informed: "calm live cache w w' \<Longrightarrow> informed live cache (ext w) \<Longrightarrow> informed live cache (ext w')"
  by (simp add: informed_def calm_fresh(1))

lemma atRest_live: "live s = live s' \<Longrightarrow> atRest live mns s = atRest live mns s'"
  by (simp add: atRest_def namespaceSettled_def quotasSynced_def quotasPruned_def
      quotaProvided_def [abs_def] bindingsSynced_def nothingLeaving_def revokedAt_def entryGrantedAt_def
      granted_def wantedAt_def roleExists_def)

lemma atRest_calm: "calm live cache w w' \<Longrightarrow> atRest live mns (ext w) \<Longrightarrow> atRest live mns (ext w')"
  using atRest_live [of live "ext w'" "ext w"] calm_live by blast

lemma atRest_binding:
  assumes "atRest live mns s" and "live s (KRoleBinding, b_key b) = Some (OBinding b)"
    and "selects (ownedBy mns) (b_meta b)"
  shows "b_key b \<in> wanted live mns s (entries mns)"
proof -
  have "\<not> terminating (b_meta b)"
    using assms unfolding atRest_def nothingLeaving_def by (metis fst_conv obj_meta.simps(3))
  with assms show ?thesis unfolding atRest_def bindingsSynced_def revokedAt_def by blast
qed

lemma atRest_quota:
  assumes "atRest live mns s" and "live s (KResourceQuota, meta_key (q_meta q)) = Some (OQuota q)"
    and "selects (ownedBy mns) (q_meta q)"
  shows "om_name (q_meta q) \<in> rq_name ` set (named_quotas mns)"
proof -
  have "\<not> terminating (q_meta q)"
    using assms unfolding atRest_def nothingLeaving_def by (metis fst_conv obj_meta.simps(2))
  with assms show ?thesis unfolding atRest_def quotasSynced_def quotasPruned_def by blast
qed

lemma informedD:
  "informed live cache s \<Longrightarrow> kd \<in> {KNamespace, KResourceQuota, KRoleBinding, KClusterRole} \<Longrightarrow>
     cache s (kd, k) = live s (kd, k)"
  by (auto simp: informed_def freshD)

context kube_env begin

lemma wp_pruneBindings_calm:
  assumes "informed live cache (ext w)" and "atRest live mns (ext w)"
    and "wanted live mns (ext w) (entries mns) \<subseteq> W"
  shows "wp (pruneBindings r mns (Some W)) (\<lambda>x w'. \<forall>y. x = Inr y \<longrightarrow> calm live cache w w' \<and> True) w"
  unfolding pruneBindings_def
proof (rule rb.wp_prune_calm, goal_cases)
  case (1 b)
  then have "live (ext w) (KRoleBinding, b_key b) = Some (OBinding b)"
    using informedD [OF assms(1)] 1(1) by simp
  from atRest_binding [OF assms(2) this 1(2)] assms(3) show ?case by auto
qed

lemma wp_ensureNamespace_calm:
  assumes "informed live cache (ext w)" and "atRest live mns (ext w)"
  shows "wp (ensureNamespace r mns) (\<lambda>x w'. \<forall>y. x = Inr y \<longrightarrow> calm live cache w w' \<and> True) w"
proof -
  obtain ns where ns: "live (ext w) (KNamespace, [], mn_name mns) = Some (ONamespace ns)" "settled mns ns"
    using assms(2) by (auto simp: atRest_def namespaceSettled_def)
  moreover have "cache (ext w) (KNamespace, [], mn_name mns) = Some (ONamespace ns)"
    using informedD [OF assms(1)] ns(1) by simp
  moreover have "meta_key (ns_meta (namespace_template mns)) = ([], mn_name mns)"
    by (simp add: meta_key_def namespace_template_def empty_meta_def)
  ultimately show ?thesis
    unfolding ensureNamespace_def
    by (intro wp_calm_bind [OF ns.wp_cou_calm [of w _ ns]])
      (auto simp: settled_def logResourceChange_def)
qed

lemma wp_quotaStep_calm:
  assumes "informed live cache (ext w)" and "atRest live mns (ext w)"
    and "q \<in> set (sp_resourceQuotas (mn_spec mns))"
  shows "wp (quotaStep r mns want (i, q)) (\<lambda>x w'. \<forall>want'. x = Inr want' \<longrightarrow>
    calm live cache w w' \<and> want' = (if rq_name q = [] then want else insert (rq_name q) want)) w"
proof (cases "rq_name q = []")
  case True
  then show ?thesis by (simp add: quotaStep_def calm_note)
next
  case False
  then have "quotaProvided live mns (ext w) q"
    using assms(2,3) by (auto simp: atRest_def quotasSynced_def list_all_iff named_quotas_def)
  then obtain ob where ob: "live (ext w) (KResourceQuota, mn_name mns, rq_name q) = Some (OQuota ob)"
    "mutateQuota mns q ob = Inr ob"
    by (auto simp: quotaProvided_def mutateQuota_fixed)
  moreover have "cache (ext w) (KResourceQuota, mn_name mns, rq_name q) = Some (OQuota ob)"
    using informedD [OF assms(1)] ob(1) by simp
  moreover have "meta_key (q_meta (quota_template mns q)) = (mn_name mns, rq_name q)"
    by (simp add: meta_key_def quota_template_def empty_meta_def)
  ultimately show ?thesis
    unfolding quotaStep_def prod.case if_not_P [OF False]
    by (intro wp_calm_bind [OF quota.wp_cou_calm [of w _ ob]])
      (auto simp: logResourceChange_def)
qed

lemma wp_reconcileQuota_calm:
  assumes "informed live cache (ext w)" and "atRest live mns (ext w)"
  shows "wp (reconcileQuota r mns) (\<lambda>x w'. \<forall>y. x = Inr y \<longrightarrow> calm live cache w w' \<and> True) w"
  unfolding reconcileQuota_def
proof (rule wp_calm_bind [where P = "\<lambda>want. want = rq_name ` set (named_quotas mns)"], goal_cases)
  case 1
  show ?case
  proof (rule wp_fold_io [where I = "\<lambda>done want w'. calm live cache w w' \<and>
        want = rq_name ` {q \<in> set (map snd done). rq_name q \<noteq> []}"], goal_cases)
    case (2 "done" iq todo want w1)
    obtain i q where iq: "iq = (i, q)" by (cases iq)
    then have q: "q \<in> set (sp_resourceQuotas (mn_spec mns))"
      using 2(1) enumerate_member [of iq 0 "sp_resourceQuotas (mn_spec mns)"] by simp
    from 2(2) have c: "calm live cache w w1" by blast
    have want: "want = rq_name ` {q \<in> set (map snd done). rq_name q \<noteq> []}" using 2(2) by blast
    show ?case
      unfolding iq
    proof (rule wp_conseq [OF wp_quotaStep_calm [OF calm_informed [OF c assms(1)] atRest_calm [OF c assms(2)] q]],
        goal_cases)
      case (1 x w')
      show ?case
      proof (cases x)
        case (Inr want')
        with 1 have "calm live cache w1 w'" and "want' = (if rq_name q = [] then want else insert (rq_name q) want)"
          by blast+
        then show ?thesis using calm_trans [OF c] by (auto simp: Inr want)
      qed simp
    qed
  qed (auto simp: named_quotas_def)
next
  case (2 want w1)
  note now = calm_informed [OF 2(1) assms(1)] atRest_calm [OF 2(1) assms(2)]
  show ?case
    unfolding pruneQuotas_def
  proof (rule quota.wp_prune_calm, goal_cases)
    case (1 q)
    then have "live (ext w1) (KResourceQuota, meta_key (q_meta q)) = Some (OQuota q)"
      using informedD [OF now(1)] 1(1) by simp
    from atRest_quota [OF now(2) this] 1(2) 2(2) show ?case by (simp add: ownedBy_def)
  qed
qed

lemma wp_bindRole_calm:
  assumes "informed live cache (ext w)" and "atRest live mns (ext w)" and "(am, role) \<in> set (entries mns)"
  shows "wp (bindRole r mns (subjectKey am) (subjectsFor am) acc role) (\<lambda>x w'. \<forall>acc'. x = Inr acc' \<longrightarrow>
    calm live cache w w' \<and> snd acc' = (if roleExists live (ext w) role
      then insert (entryKey mns (am, role)) (snd acc) else snd acc)) w"
  unfolding bindRole_def wp_bindE wp_attempt
proof (rule role.wp_get, goal_cases)
  case (1 cr s')
  let ?w1 = "w\<lparr>ext := s', trace := trace w @ [Api VGet KClusterRole [] role True]\<rparr> :: 's world"
  have c: "calm live cache w ?w1" by (rule calm_read [OF 1(1)]) simp
  have ex: "roleExists live (ext w) role"
    using informedD [OF assms(1)] 1(2) by (simp add: roleExists_def)
  have key: "entryKey mns (am, role) = (mn_name mns, BindingName (mn_name mns) (subjectKey am) role)"
    by (simp add: entryKey_def keyed_def)
  have "entryGranted live mns (ext w) (am, role)"
    using assms(2,3) ex by (auto simp: atRest_def bindingsSynced_def)
  then obtain b where b: "live (ext w) (KRoleBinding, entryKey mns (am, role)) = Some (OBinding b)"
    "grants (mn_name mns) role (subjectsFor am) b"
    by (auto simp: entryGrantedAt_def granted_def)
  have "wp (ensureRoleBinding r mns (BindingName (mn_name mns) (subjectKey am) role) role (subjectsFor am))
      (\<lambda>x w'. \<forall>y. x = Inr y \<longrightarrow> calm live cache ?w1 w' \<and> True) ?w1"
    unfolding ensureRoleBinding_eq
    by (rule rbl.wp_ensureBinding_calm [OF _ _ b(2)])
      (use b(1) informedD [OF assms(1)] calm_known [OF c] in \<open>simp_all add: key\<close>)
  then show ?case
    by (simp add: Let_def ex) (erule wp_conseq, use calm_trans [OF c] in \<open>auto simp: key split: sum.split\<close>)
next
  case (2 e s')
  then have "isNotFound r e \<Longrightarrow> \<not> roleExists live (ext w) role"
    using informedD [OF assms(1)] by (simp add: roleExists_def)
  then show ?case using calm_read [OF 2(1)] by simp
qed

lemma wp_reconcileBindings_calm:
  assumes "informed live cache (ext w)" and "atRest live mns (ext w)"
  shows "wp (reconcileBindings r mns) (\<lambda>x w'. \<forall>y. x = Inr y \<longrightarrow> calm live cache w w' \<and> True) w"
  unfolding reconcileBindings_def
proof (rule wp_calm_bind [where P = "\<lambda>acc. snd acc = wanted live mns (ext w) (entries mns)"], goal_cases)
  case 1
  show ?case
  proof (rule wp_binding_loop [where I = "\<lambda>done acc w'. calm live cache w w' \<and>
        snd acc = wanted live mns (ext w) done"], goal_cases)
    case (2 "done" acc w1 xs i)
    then show ?case by (simp add: calm_note)
  next
    case (3 "done" am role todo acc w1)
    from 3(2) have c: "calm live cache w w1" by blast
    have "(am, role) \<in> set (entries mns)" using 3(1) by simp
    from wp_bindRole_calm [OF calm_informed [OF c assms(1)] atRest_calm [OF c assms(2)] this] show ?case
    proof (rule wp_conseq, goal_cases)
      case (1 x w')
      show ?case
      proof (cases x)
        case (Inr acc')
        with 1 have "calm live cache w1 w'" and "snd acc' = (if roleExists live (ext w1) role
            then insert (entryKey mns (am, role)) (snd acc) else snd acc)" by blast+
        then show ?thesis
          using calm_trans [OF c] 3(2) calm_live [OF c] by (auto simp: Inr wantedAt_def roleExists_def)
      qed simp
    qed
  qed (auto simp: wantedAt_def)
next
  case (2 acc w1)
  have "wanted live mns (ext w1) (entries mns) = wanted live mns (ext w) (entries mns)"
    by (simp add: wantedAt_def roleExists_def calm_live [OF 2(1)])
  with wp_calm_bind [OF wp_pruneBindings_calm [OF calm_informed [OF 2(1) assms(1)] atRest_calm [OF 2(1) assms(2)],
      of "snd acc"], of "\<lambda>_. ret (fst acc)" "\<lambda>_. True"] 2(2)
  show ?case by (simp add: split_beta)
qed

text \<open>The whole sync.\<close>

lemma sync_calm:
  assumes "informed live cache (ext w)" and "atRest live mns (ext w)" and "sync r mns w = (Inr invalid, w')"
  shows "calm live cache w w'"
proof -
  have "wp (sync r mns) (\<lambda>x w'. \<forall>y. x = Inr y \<longrightarrow> calm live cache w w' \<and> True) w"
    unfolding sync_def
  proof (intro wp_calm_bind [where P = "\<lambda>_. True"], goal_cases)
    case 1
    show ?case
      by (rule wp_pruneBindings_calm [OF assms(1,2)]) (auto simp: specBindings_entries wantedAt_def)
  next
    case (2 u w1)
    show ?case by (rule wp_ensureNamespace_calm [OF calm_informed [OF 2(1) assms(1)] atRest_calm [OF 2(1) assms(2)]])
  next
    case (3 u w1 u' w2)
    note c = calm_trans [OF 3(1,3)]
    show ?case by (rule wp_reconcileQuota_calm [OF calm_informed [OF c assms(1)] atRest_calm [OF c assms(2)]])
  next
    case (4 u w1 u' w2 u'' w3)
    note c = calm_trans [OF calm_trans [OF 4(1,3)] 4(5)]
    show ?case by (rule wp_reconcileBindings_calm [OF calm_informed [OF c assms(1)] atRest_calm [OF c assms(2)]])
  qed
  then show ?thesis using wpD assms(3) by blast
qed

end

end
