(* ===== verification/Cam_Quiet.thy ===== *)
theory Cam_Quiet
  imports Quiet
begin

text \<open>The steady state of a ClusterAccessMapping, on the same terms as for a ManagedNamespace.\<close>

definition camAtRest :: "('s \<Rightarrow> table) \<Rightarrow> cluster_access_mapping \<Rightarrow> 's \<Rightarrow> bool" where
  "camAtRest live cam s \<longleftrightarrow> camSynced live cam s s \<and>
     (\<forall>k b. live s (KClusterRoleBinding, k) = Some (OBinding b) \<longrightarrow> owned_by (ca_name cam) (b_meta b) \<longrightarrow>
        \<not> terminating (b_meta b))"

definition camInformed :: "('s \<Rightarrow> table) \<Rightarrow> ('s \<Rightarrow> table) \<Rightarrow> 's \<Rightarrow> bool" where
  "camInformed live cache s \<longleftrightarrow> fresh live cache KClusterRoleBinding s \<and> fresh live cache KClusterRole s"

lemma camInformedD:
  "camInformed live cache s \<Longrightarrow> kd \<in> {KClusterRoleBinding, KClusterRole} \<Longrightarrow> cache s (kd, k) = live s (kd, k)"
  by (auto simp: camInformed_def freshD)

lemma camInformed_calm:
  "calm live cache w w' \<Longrightarrow> camInformed live cache (ext w) \<Longrightarrow> camInformed live cache (ext w')"
  by (simp add: camInformed_def calm_fresh(1))

lemma camAtRest_calm:
  "calm live cache w w' \<Longrightarrow> camAtRest live cam (ext w) \<Longrightarrow> camAtRest live cam (ext w')"
  by (simp add: calm_live camAtRest_def camSynced_def revokedAt_def entryGrantedAt_def granted_def
      wantedAt_def roleExists_def)

text \<open>The names wanted among some roles of the mapping.\<close>

abbreviation namesWanted :: "('s \<Rightarrow> table) \<Rightarrow> cluster_access_mapping \<Rightarrow> 's \<Rightarrow>
    (access_mapping \<times> string) list \<Rightarrow> string set" where
  "namesWanted live cam s es \<equiv> snd ` wantedAt live (camKey cam) s es"

lemma camAtRest_binding:
  assumes "camAtRest live cam s" and "live s (KClusterRoleBinding, b_key b) = Some (OBinding b)"
    and "owned_by (ca_name cam) (b_meta b)"
  shows "om_name (b_meta b) \<in> namesWanted live cam s (camEntries cam)"
proof -
  have "\<not> terminating (b_meta b)" using assms unfolding camAtRest_def by blast
  with assms have "b_key b \<in> named (namesWanted live cam s (camEntries cam))"
    unfolding camAtRest_def camSynced_def revokedAt_def by blast
  then show ?thesis by (simp add: named_def meta_key_def)
qed

context kube_env begin

lemma wp_camBindRole_calm:
  assumes "camInformed live cache (ext w)" and "camAtRest live cam (ext w)" and "(am, role) \<in> set (camEntries cam)"
  shows "wp (camBindRole r cam (subjectKey am) (subjectsFor am) acc role) (\<lambda>x w'. \<forall>acc'. x = Inr acc' \<longrightarrow>
    calm live cache w w' \<and> snd acc' = (if roleExists live (ext w) role
      then insert (snd (camKey cam (am, role))) (snd acc) else snd acc)) w"
  unfolding camBindRole_def wp_bindE wp_attempt
proof (rule role.wp_get, goal_cases)
  case (1 cr s')
  let ?w1 = "w\<lparr>ext := s', trace := trace w @ [Api VGet KClusterRole [] role True]\<rparr> :: 's world"
  have c: "calm live cache w ?w1" by (rule calm_read [OF 1(1)]) simp
  have ex: "roleExists live (ext w) role"
    using camInformedD [OF assms(1)] 1(2) by (simp add: roleExists_def)
  have key: "camKey cam (am, role) = ([], BindingName (ca_name cam) (subjectKey am) role)"
    by (simp add: camKey_def)
  have "camGranted live cam (ext w) (am, role)"
    using assms(2,3) ex by (auto simp: camAtRest_def camSynced_def)
  then obtain b where b: "live (ext w) (KClusterRoleBinding, camKey cam (am, role)) = Some (OBinding b)"
    "grants (ca_name cam) role (subjectsFor am) b"
    by (auto simp: entryGrantedAt_def granted_def)
  have "wp (camEnsure r cam (BindingName (ca_name cam) (subjectKey am) role) role (subjectsFor am))
      (\<lambda>x w'. \<forall>y. x = Inr y \<longrightarrow> calm live cache ?w1 w' \<and> True) ?w1"
    unfolding camEnsure_eq
    by (rule crbl.wp_ensureBinding_calm [OF _ _ b(2)])
      (use b(1) camInformedD [OF assms(1)] calm_known [OF c] in \<open>simp_all add: key\<close>)
  then show ?case
    by (simp add: Let_def ex) (erule wp_conseq, use calm_trans [OF c] in \<open>auto simp: key split: sum.split\<close>)
next
  case (2 e s')
  then have "isNotFound r e \<Longrightarrow> \<not> roleExists live (ext w) role"
    using camInformedD [OF assms(1)] by (simp add: roleExists_def)
  then show ?case using calm_read [OF 2(1)] by simp
qed

lemma wp_camPrune_calm:
  assumes "camInformed live cache (ext w)" and "camAtRest live cam (ext w)"
    and "W = namesWanted live cam (ext w) (camEntries cam)"
  shows "wp (camPrune r cam (Some W)) (\<lambda>x w'. \<forall>y. x = Inr y \<longrightarrow> calm live cache w w' \<and> True) w"
  unfolding camPrune_def
proof (rule crb.wp_prune_calm, goal_cases)
  case (1 b)
  then have "live (ext w) (KClusterRoleBinding, b_key b) = Some (OBinding b)"
    using camInformedD [OF assms(1)] by simp
  from camAtRest_binding [OF assms(2) this] 1(2) show ?case by (simp add: assms(3))
qed

lemma wp_camLoop_calm:
  assumes "camInformed live cache (ext w)" and "camAtRest live cam (ext w)" and "am = ca_spec cam"
  shows "wp (if mappingErrors am = [] then
        fold_io (camBindRole r cam (subjectKey am) (subjectsFor am)) ([], {}) (am_clusterRoles am)
      else ret ([], {}))
    (\<lambda>x w'. \<forall>acc. x = Inr acc \<longrightarrow> calm live cache w w' \<and>
       snd acc = namesWanted live cam (ext w) (camEntries cam)) w"
proof (cases "mappingErrors am = []")
  case False
  then show ?thesis
    by (simp add: assms(3) wantedAt_def camEntries_def mappingEntries_def del: mappingErrors_Nil_iff)
next
  case True
  have "wp (fold_io (camBindRole r cam (subjectKey am) (subjectsFor am)) ([], {}) (am_clusterRoles am))
    (\<lambda>x w'. \<forall>acc. x = Inr acc \<longrightarrow> calm live cache w w' \<and>
       snd acc = namesWanted live cam (ext w) (camEntries cam)) w"
  proof (rule wp_fold_io [where I = "\<lambda>rs acc w'. calm live cache w w' \<and>
      snd acc = namesWanted live cam (ext w) (map (Pair am) rs)"], goal_cases)
    case (2 rs role rest acc w2)
    from 2(2) have c: "calm live cache w w2" by blast
    have "(am, role) \<in> set (camEntries cam)"
      using 2(1) True assms(3) by (simp add: camEntries_def mappingEntries_def del: mappingErrors_Nil_iff)
    from wp_camBindRole_calm [OF camInformed_calm [OF c assms(1)] camAtRest_calm [OF c assms(2)] this]
    show ?case
    proof (rule wp_conseq, goal_cases)
      case (1 x w')
      show ?case
      proof (cases x)
        case (Inr acc')
        with 1 have "calm live cache w2 w'" and "snd acc' = (if roleExists live (ext w2) role
            then insert (snd (camKey cam (am, role))) (snd acc) else snd acc)" by blast+
        then show ?thesis
          using calm_trans [OF c] 2(2) calm_live [OF c] by (auto simp: Inr wantedAt_def roleExists_def)
      qed simp
    qed
  qed (use True assms(3) in \<open>auto simp: wantedAt_def camEntries_def mappingEntries_def simp del: mappingErrors_Nil_iff\<close>)
  with True show ?thesis by (simp del: mappingErrors_Nil_iff)
qed

lemma camSync_calm:
  assumes "camInformed live cache (ext w)" and "camAtRest live cam (ext w)" and "camSync r cam w = (Inr invalid, w')"
  shows "calm live cache w w'"
proof -
  have "wp (camSync r cam) (\<lambda>x w'. \<forall>y. x = Inr y \<longrightarrow> calm live cache w w' \<and> True) w"
    unfolding camSync_def Let_def
  proof (rule wp_calm_bind [where P = "\<lambda>_. True"], goal_cases)
    case 1
    show ?case
      by (rule wp_for_each [where I = "\<lambda>_ w'. calm live cache w w'"]) (auto intro: calm_note)
  next
    case (2 u w1)
    note now = camInformed_calm [OF 2(1) assms(1)] camAtRest_calm [OF 2(1) assms(2)]
    show ?case
    proof (rule wp_calm_bind [OF wp_camLoop_calm [OF now refl]], goal_cases)
      case (1 acc w2)
      note later = camInformed_calm [OF 1(1) now(1)] camAtRest_calm [OF 1(1) now(2)]
      have "namesWanted live cam (ext w2) (camEntries cam) = namesWanted live cam (ext w1) (camEntries cam)"
        by (simp add: wantedAt_def roleExists_def calm_live [OF 1(1)])
      with wp_calm_bind [OF wp_camPrune_calm [OF later, of "snd acc"], of "\<lambda>_. ret (fst acc)" "\<lambda>_. True"] 1(2)
      show ?case by (simp add: split_beta)
    qed
  qed
  then show ?thesis using wpD assms(3) by blast
qed

end

end
