(* ===== verification/Names.thy ===== *)
theory Names
  imports Mns_Convergence Cam_Frame
begin

text \<open>
  What the generated names tell apart. Two entries of a spec that get the same binding name ask for
  the same binding, unless SHA-256 collides on what the spec itself makes it hash, or a name holds a
  NUL byte.
\<close>

definition no_NUL :: "string \<Rightarrow> bool" where
  "no_NUL s \<longleftrightarrow> NUL ! 0 \<notin> set s"

text \<open>The names in a mapping are free of NUL bytes.\<close>

definition clean_mapping :: "access_mapping \<Rightarrow> bool" where
  "clean_mapping am \<longleftrightarrow> no_NUL (am_group am) \<and> list_all no_NUL (am_users am)"

text \<open>The byte strings hashed for the user lists and for the binding names of some entries.\<close>

definition hashed_users :: "(access_mapping \<times> string) list \<Rightarrow> string set" where
  "hashed_users es = (\<lambda>e. join_strings NUL (normalizedUsers (am_users (fst e)))) ` set es"

definition hashed_names :: "string \<Rightarrow> (access_mapping \<times> string) list \<Rightarrow> string set" where
  "hashed_names owner es = (\<lambda>e. name_preimage owner (subjectKey (fst e)) (snd e)) ` set es"

text \<open>No two of them share the 20 hexadecimal digits a name keeps, or the digest a key keeps.\<close>

definition collisionFree :: "string \<Rightarrow> (access_mapping \<times> string) list \<Rightarrow> bool" where
  "collisionFree owner es \<longleftrightarrow>
     inj_on (\<lambda>x. take 20 (Hash x)) (hashed_names owner es) \<and> inj_on Hash (hashed_users es)"

lemma hashed_member:
  "e \<in> set es \<Longrightarrow> name_preimage owner (subjectKey (fst e)) (snd e) \<in> hashed_names owner es"
  "e \<in> set es \<Longrightarrow> join_strings NUL (normalizedUsers (am_users (fst e))) \<in> hashed_users es"
  by (auto simp: hashed_names_def hashed_users_def)

lemma BindingName_eq_iff:
  "BindingName o1 k1 r1 = BindingName o2 k2 r2 \<longleftrightarrow>
     take 20 (Hash (name_preimage o1 k1 r1)) = take 20 (Hash (name_preimage o2 k2 r2))"
  by (simp add: BindingName_def)

lemma consistent_of_collisionFree:
  assumes "no_NUL owner" and "list_all clean_mapping (map fst es)"
    and "list_all (\<lambda>e. mappingErrors (fst e) = []) es"
    and "collisionFree owner es"
    and "\<And>e. e \<in> set es \<Longrightarrow> key e = (ns, BindingName owner (subjectKey (fst e)) (snd e))"
  shows "consistentAt key es"
  unfolding consistentAt_def
proof (intro ballI impI)
  fix e e' assume es: "e \<in> set es" "e' \<in> set es" and "key e = key e'"
  then have "BindingName owner (subjectKey (fst e)) (snd e) = BindingName owner (subjectKey (fst e')) (snd e')"
    by (simp add: assms(5))
  with assms(4) es have "name_preimage owner (subjectKey (fst e)) (snd e) =
      name_preimage owner (subjectKey (fst e')) (snd e')"
    by (auto simp: collisionFree_def BindingName_eq_iff intro: inj_onD hashed_member)
  moreover have clean: "clean_mapping (fst e)" "clean_mapping (fst e')"
    using assms(2) es by (auto simp: list_all_iff)
  ultimately have same: "subjectKey (fst e) = subjectKey (fst e')" "snd e = snd e'"
    using assms(1) name_preimage_inj [of owner "subjectKey (fst e)" "snd e"]
    by (auto simp: no_NUL_def clean_mapping_def subjectKey_no_NUL)
  have "subjectsFor (fst e) = subjectsFor (fst e')"
  proof (rule subjectKey_inj [OF same(1)])
    show "\<forall>u \<in> set (am_users (fst e)) \<union> set (am_users (fst e')). NUL ! 0 \<notin> set u"
      using clean by (auto simp: clean_mapping_def list_all_iff no_NUL_def)
    show "am_group (fst e) = [] \<Longrightarrow> am_users (fst e) \<noteq> []"
      and "am_group (fst e') = [] \<Longrightarrow> am_users (fst e') \<noteq> []"
      using assms(3) es by (auto simp: list_all_iff)
  next
    fix x y
    assume "x = join_strings NUL (normalizedUsers (am_users (fst e)))"
      and "y = join_strings NUL (normalizedUsers (am_users (fst e')))" and "Hash x = Hash y"
    then show "x = y" using assms(4) es by (auto simp: collisionFree_def intro: inj_onD hashed_member)
  qed
  with same(2) show "snd e = snd e' \<and> subjectsFor (fst e) = subjectsFor (fst e')" by blast
qed

lemma namesConsistent_collisionFree:
  assumes "no_NUL (mn_name mns)" and "list_all clean_mapping (sp_accessMappings (mn_spec mns))"
    and "collisionFree (mn_name mns) (entries mns)"
  shows "namesConsistent mns"
proof (rule consistent_of_collisionFree [OF assms(1) _ _ assms(3)])
  show "list_all clean_mapping (map fst (entries mns))"
    using assms(2) by (auto simp: list_all_iff entries_iff)
  show "list_all (\<lambda>e. mappingErrors (fst e) = []) (entries mns)"
    by (auto simp: list_all_iff entries_iff simp del: mappingErrors_Nil_iff)
  show "entryKey mns e = (mn_name mns, BindingName (mn_name mns) (subjectKey (fst e)) (snd e))" for e
    by (simp add: entryKey_def keyed_def)
qed

end
