(* ===== verification/Rest_Examples.thy ===== *)
theory Rest_Examples
  imports Mem_Examples Cam_Quiet Names
begin

text \<open>Clusters in which everything is in sync already.\<close>

definition ex_rest_ns :: namespace_obj where
  "ex_rest_ns = \<lparr>ns_meta = (ex_meta [] ''team-a'')\<lparr>om_labels := ownerLabels ''team-a'',
     om_annotations := Some (fmupd AnnotationManagedMetadata ''{}'' fmempty)\<rparr>\<rparr>"

definition ex_rest_binding :: binding where
  "ex_rest_binding = \<lparr>b_meta = (ex_meta ''team-a'' ''k8sc-7d89374b2930e19e2d1a'')
       \<lparr>om_labels := ownerLabels ''team-a''\<rparr>,
     b_roleRef = clusterRoleRef ''view'', b_subjects = subjectsFor ex_mapping\<rparr>"

definition ex_rest_store :: store where
  "ex_rest_store = [((KManagedNamespace, [], ''team-a''), OManagedNamespace ex_mns), ex_role,
     ((KNamespace, [], ''team-a''), ONamespace ex_rest_ns),
     ((KRoleBinding, ''team-a'', ''k8sc-7d89374b2930e19e2d1a''), OBinding ex_rest_binding)]"

lemma ex_rest_settled: "mutateNamespace ex_mns ex_rest_ns = Inr ex_rest_ns"
  by code_simp

lemma ex_rest_ns_key [simp]:
  "om_name (ns_meta ex_rest_ns) = ''team-a''" "om_namespace (ns_meta ex_rest_ns) = []"
  by (simp_all add: ex_rest_ns_def ex_meta_def empty_meta_def)

lemma ex_mns_spec [simp]:
  "sp_resourceQuotas (mn_spec ex_mns) = []" "sp_accessMappings (mn_spec ex_mns) = [ex_mapping]"
  by (simp_all add: ex_mns_def)

lemma ex_rest_informed: "informed mem_live mem_cache (ext (ex_world ex_rest_store fs))"
  by (simp add: informed_def)

lemma ex_rest_roles:
  "roleExists mem_live (ext (ex_world ex_rest_store fs)) ''view''"
  "\<not> roleExists mem_live (ext (ex_world ex_rest_store fs)) ''gone''"
  by (simp_all add: roleExists_def eval_all ex_rest_store_def)

lemma ex_rest_live: "mem_live (ext (ex_world ex_rest_store fs)) x = Some ob \<Longrightarrow>
    fst x = KRoleBinding \<or> fst x = KResourceQuota \<Longrightarrow>
    x = (KRoleBinding, ''team-a'', ''k8sc-7d89374b2930e19e2d1a'') \<and> ob = OBinding ex_rest_binding"
  by (auto simp: eval_all ex_rest_store_def split: if_splits)

lemma ex_rest_bindings:
  "bindingsSynced mem_live ex_mns (ext (ex_world ex_rest_store fs)) (ext (ex_world ex_rest_store fs))"
proof -
  let ?s = "ext (ex_world ex_rest_store fs)"
  have "{e \<in> set (entries ex_mns). roleExists mem_live ?s (snd e)} = {(ex_mapping, ''view'')}"
    using ex_rest_roles [of fs] by (auto simp: ex_entries)
  then have wanted: "wanted mem_live ex_mns ?s (entries ex_mns) = {(''team-a'', ''k8sc-7d89374b2930e19e2d1a'')}"
    unfolding wantedAt_def by simp
  have "entryGranted mem_live ex_mns ?s (ex_mapping, ''view'')"
    unfolding entryGrantedAt_def granted_def ex_keys grants_def
    by (intro exI [of _ ex_rest_binding]) (simp add: eval_all ex_rest_store_def ex_rest_binding_def)
  then have "\<forall>e \<in> set (entries ex_mns). roleExists mem_live ?s (snd e) \<longrightarrow> entryGranted mem_live ex_mns ?s e"
    using ex_rest_roles [of fs] by (simp add: ex_entries)
  moreover have "revoked mem_live ex_mns {(''team-a'', ''k8sc-7d89374b2930e19e2d1a'')} ?s"
    unfolding revokedAt_def by (auto dest!: ex_rest_live)
  ultimately show ?thesis by (simp only: bindingsSynced_def wanted)
qed

lemma ex_rest: "atRest mem_live ex_mns (ext (ex_world ex_rest_store fs))"
proof -
  let ?s = "ext (ex_world ex_rest_store fs)"
  have 1: "namespaceSettled mem_live ex_mns ?s"
    unfolding namespaceSettled_def settled_def
    by (intro exI [of _ ex_rest_ns]) (simp add: ex_rest_settled, simp add: eval_all ex_rest_store_def)
  have "named_quotas ex_mns = []" by (simp add: named_quotas_def)
  then have 2: "quotasSynced mem_live ex_mns ?s"
    unfolding quotasSynced_def quotasPruned_def by (auto dest!: ex_rest_live)
  have "\<not> terminating (b_meta ex_rest_binding)"
    by (simp add: ex_rest_binding_def ex_meta_def empty_meta_def terminating_def)
  then have 3: "nothingLeaving mem_live ex_mns ?s"
    unfolding nothingLeaving_def by (auto dest!: ex_rest_live)
  from 1 2 3 ex_rest_bindings show ?thesis by (simp only: atRest_def)
qed

lemmas eval_rest = ex_world_def ex_rest_store_def ex_role_def ex_rest_binding_def ex_mapping_def ex_meta_def
  empty_meta_def

lemma ex_rest_sync: "\<exists>w'. sync mem_env ex_mns (ex_world ex_rest_store []) = (Inr [missingRef ''gone''], w')"
  by (simp add: eval_rest eval_cluster eval_effects eval_shared sync_def ensureNamespace_def
      reconcileQuota_def reconcileBindings_def bindMapping_def bindRole_def ensureRoleBinding_def
      pruneQuotas_def pruneBindings_def specBindings_def ownedBy_def namespace_template_def
      ex_rest_settled ex_name_view ex_name_gone missingRef_def)

section \<open>A ClusterAccessMapping at rest\<close>

text \<open>One of its ClusterRoles exists and has its binding; the other is missing and has none.\<close>

definition ex_cam_rest :: cluster_access_mapping where
  "ex_cam_rest = ex_cam\<lparr>ca_spec := ex_mapping\<rparr>"

abbreviation ex_cam_rest_name :: string where
  "ex_cam_rest_name \<equiv> BindingName ''ops'' ''g:devs'' ''view''"

definition ex_cam_rest_binding :: binding where
  "ex_cam_rest_binding = \<lparr>b_meta = (ex_meta [] ex_cam_rest_name)\<lparr>om_labels := ownerLabels ''ops''\<rparr>,
     b_roleRef = clusterRoleRef ''view'', b_subjects = subjectsFor ex_mapping\<rparr>"

definition ex_cam_rest_store :: store where
  "ex_cam_rest_store = [((KClusterAccessMapping, [], ''ops''), OClusterAccess ex_cam_rest), ex_role,
     ((KClusterRoleBinding, [], ex_cam_rest_name), OBinding ex_cam_rest_binding)]"

lemma ex_cam_rest_facts [simp]:
  "ca_name ex_cam_rest = ''ops''" "ca_spec ex_cam_rest = ex_mapping"
  "camEntries ex_cam_rest = [(ex_mapping, ''view''), (ex_mapping, ''gone'')]"
  "camKey ex_cam_rest (ex_mapping, ''view'') = ([], ex_cam_rest_name)"
  by (simp_all add: ex_cam_rest_def ex_cam_def ex_meta_def empty_meta_def camEntries_def mappingEntries_def camKey_def
      ex_mapping_def subjectKey_def subjectsFor_def)

lemma ex_cam_rest_roles:
  "roleExists mem_live (ext (ex_world ex_cam_rest_store fs)) ''view''"
  "\<not> roleExists mem_live (ext (ex_world ex_cam_rest_store fs)) ''gone''"
  by (simp_all add: roleExists_def eval_all ex_cam_rest_store_def)

lemma ex_cam_rest_live: "mem_live (ext (ex_world ex_cam_rest_store fs)) (KClusterRoleBinding, k) = Some ob \<longleftrightarrow>
    k = ([], ex_cam_rest_name) \<and> ob = OBinding ex_cam_rest_binding"
  by (auto simp: eval_all ex_cam_rest_store_def ex_cam_rest_binding_def)

lemma ex_cam_rest: "camAtRest mem_live ex_cam_rest (ext (ex_world ex_cam_rest_store fs))"
proof -
  let ?s = "ext (ex_world ex_cam_rest_store fs)"
  have "camGranted mem_live ex_cam_rest ?s (ex_mapping, ''view'')"
    unfolding entryGrantedAt_def granted_def by (simp add: ex_cam_rest_live grants_def ex_cam_rest_binding_def)
  moreover have "{e \<in> set (camEntries ex_cam_rest). roleExists mem_live ?s (snd e)} = {(ex_mapping, ''view'')}"
    using ex_cam_rest_roles [of fs] by auto
  then have "wantedAt mem_live (camKey ex_cam_rest) ?s (camEntries ex_cam_rest) = {([], ex_cam_rest_name)}"
    unfolding wantedAt_def by simp
  moreover have "camRevoked mem_live ex_cam_rest (named {ex_cam_rest_name}) ?s"
    unfolding revokedAt_def ex_cam_rest_live by (auto simp: named_def meta_key_def)
  ultimately have 1: "camSynced mem_live ex_cam_rest ?s ?s"
    using ex_cam_rest_roles [of fs] by (simp add: camSynced_def)
  have "\<not> terminating (b_meta ex_cam_rest_binding)"
    by (simp add: ex_cam_rest_binding_def ex_meta_def empty_meta_def terminating_def)
  with 1 show ?thesis unfolding camAtRest_def ex_cam_rest_live by simp
qed

lemma ex_cam_rest_sync:
  "\<exists>w'. camSync mem_env ex_cam_rest (ex_world ex_cam_rest_store []) = (Inr [missingRef ''gone''], w') \<and>
     Api VCreateOrUpdate KClusterRoleBinding [] ex_cam_rest_name True \<in> set (trace w')"
  by (simp add: eval_all eval_cam ex_cam_rest_store_def ex_cam_rest_def ex_cam_rest_binding_def missingRef_def)

end
