(* ===== verification/Binding_Trace.thy ===== *)
theory Binding_Trace
  imports Mns_Convergence
begin

text \<open>
  Which bindings a run asks for, read off its trace: the keys it created or updated and the keys it
  deleted. What \<open>reconcileBindings\<close> writes is compared with \<open>specBindings\<close>, the set \<open>sync\<close> spares, without
  an enumeration of the spec in between.
\<close>

section \<open>Projections of a trace\<close>

text \<open>The keys of kind \<open>kd\<close> that were written with success, and those a deletion was sent for.\<close>

fun written_by :: "kind \<Rightarrow> event \<Rightarrow> objkey set" where
  "written_by kd (Api VCreateOrUpdate kd' namespace name ok) = (if kd' = kd \<and> ok then {(namespace, name)} else {})"
| "written_by kd _ = {}"

fun deleted_by :: "kind \<Rightarrow> event \<Rightarrow> objkey set" where
  "deleted_by kd (Api VDelete kd' namespace name ok) = (if kd' = kd then {(namespace, name)} else {})"
| "deleted_by kd _ = {}"

definition written :: "kind \<Rightarrow> event list \<Rightarrow> objkey set" where
  "written kd evs = \<Union> (set (map (written_by kd) evs))"

definition deleted :: "kind \<Rightarrow> event list \<Rightarrow> objkey set" where
  "deleted kd evs = \<Union> (set (map (deleted_by kd) evs))"

lemma written_simps [simp]:
  "written kd [] = {}" "written kd (evs @ evs') = written kd evs \<union> written kd evs'"
  "written kd (ev # evs) = written_by kd ev \<union> written kd evs"
  by (simp_all add: written_def)

lemma deleted_simps [simp]:
  "deleted kd [] = {}" "deleted kd (evs @ evs') = deleted kd evs \<union> deleted kd evs'"
  "deleted kd (ev # evs) = deleted_by kd ev \<union> deleted kd evs"
  by (simp_all add: deleted_def)

text \<open>What happened between two worlds, and which bindings were written in it.\<close>

definition since :: "'s world \<Rightarrow> 's world \<Rightarrow> event list" where
  "since w w' = drop (length (trace w)) (trace w')"

definition wrote :: "kind \<Rightarrow> objkey set \<Rightarrow> 's world \<Rightarrow> 's world \<Rightarrow> bool" where
  "wrote kd K w w' \<longleftrightarrow> (\<exists>evs. trace w' = trace w @ evs \<and> written kd evs = K)"

lemma wrote_since: "wrote kd K w w' \<Longrightarrow> written kd (since w w') = K"
  by (auto simp: wrote_def since_def)

lemma emits_since: "emits P w w' \<Longrightarrow> list_all P (since w w')"
  by (auto simp: emits_def since_def)

lemma wrote_refl [simp, intro]: "wrote kd {} w w"
  by (simp add: wrote_def)

lemma wrote_trans: "wrote kd K w w1 \<Longrightarrow> wrote kd K' w1 w2 \<Longrightarrow> wrote kd (K \<union> K') w w2"
  by (auto simp: wrote_def)

lemma wrote_step:
  "wrote kd K w w' \<Longrightarrow> K' = K \<union> written_by kd ev \<Longrightarrow> wrote kd K' w (w'\<lparr>trace := trace w' @ [ev]\<rparr>)"
  "wrote kd K w w' \<Longrightarrow> K' = K \<union> written_by kd ev \<Longrightarrow> wrote kd K' w (w'\<lparr>ext := s, trace := trace w' @ [ev]\<rparr>)"
  by (fastforce simp: wrote_def)+

lemma wrote_nothing: "emits (\<lambda>ev. written_by kd ev = {}) w w' \<Longrightarrow> wrote kd {} w w'"
  by (auto simp: emits_def wrote_def written_def list_all_iff)

text \<open>Log lines write nothing.\<close>

lemma wp_logResourceChange_wrote:
  assumes "wrote kd K w0 w"
  shows "wp (logResourceChange res kn ns n ok on) (\<lambda>x w'. x = Inr () \<and> wrote kd K w0 w') w"
  using assms by (cases res) (simp_all add: logResourceChange_def wrote_step(1) [OF assms])

section \<open>One binding\<close>

context binding_laws begin

text \<open>\<open>ensureBinding\<close> writes the binding it is asked for if it succeeds, and otherwise nothing.\<close>

lemma wp_ensureBinding_wrote:
  assumes "k = (namespace, name)"
  shows "wp (ensureBinding r kd kn cl namespace name role subjects lns okd owner)
    (\<lambda>x w'. wrote kd (if isl x then {} else {k}) w w') w"
proof -
  have fresh: "b_key (binding_template namespace name) = k"
    by (simp add: assms meta_key_def binding_template_def empty_meta_def)
  define Q where "Q x w' \<longleftrightarrow> wrote kd (if isl x then {} else {k}) w w'"
    for x :: "error + unit" and w' :: "'s world"
  have finish: "wp (api VCreateOrUpdate kd k (k_createOrUpdate cl f ob))
      (\<lambda>x w'. case x of Inl e \<Rightarrow> Q (Inl e) w'
       | Inr y \<Rightarrow> wp (case y of (res, b) \<Rightarrow> logResourceChange res kn (lns b) (om_name (b_meta b)) okd owner) Q w') w1"
    if "wrote kd {} w w1" for f ob w1
    by (auto simp: wp_api Q_def wrote_step(2) [OF that]
        intro!: wp_conseq [OF wp_logResourceChange_wrote [where K = "{k}" and ?w0.0 = w]] split: prod.split sum.split)
  have "wp (ensureBinding r kd kn cl namespace name role subjects lns okd owner) Q w"
    unfolding ensureBinding_def Let_def assms [symmetric] wp_bindE wp_attempt
  proof (rule wp_get, goal_cases)
    case (2 e s')
    then show ?case by (simp add: fresh finish wrote_step(2) [OF wrote_refl])
  next
    case (1 ob s')
    then have key: "b_key ob = k" using cache_key by blast
    let ?w1 = "w\<lparr>ext := s', trace := trace w @ [Api VGet kd (fst k) (snd k) True]\<rparr>"
    have got: "wrote kd {} w ?w1" by (rule wrote_step(2) [OF wrote_refl]) simp
    show ?case
    proof (cases "b_roleRef ob = clusterRoleRef role")
      case True
      then show ?thesis using got by (simp add: key finish)
    next
      case False
      have drop: "wrote kd {} w (?w1\<lparr>ext := s, trace := trace ?w1 @ [Api VDelete kd (fst k) (snd k) ok]\<rparr>)" for s ok
        by (rule wrote_step(2) [OF got]) simp
      have logged: "wrote kd {} w (?w1\<lparr>ext := s, trace := trace ?w1 @ [Api VDelete kd (fst k) (snd k) ok, LogInfo xs]\<rparr>)"
        for s ok xs
        using wrote_step(1) [OF drop [where s = s and ok = ok], where K' = "{}" and ev = "LogInfo xs"] by simp
      from False show ?thesis
        unfolding sum.case if_P [OF False] bindE_assoc wp_bindE [of "api VDelete _ _ _"] key
        by (simp add: wp_api [of VDelete] logResourceDeleted_def Q_def [of "Inl _"] fresh split: prod.split sum.split)
          (use drop logged in \<open>auto intro!: wp_conseq [OF finish] wrote_step(1) simp: Q_def [of "Inl _"] split: sum.splits\<close>)
    qed
  qed
  then show ?thesis by (rule wp_conseq) (simp add: Q_def)
qed

end

section \<open>The loops\<close>

text \<open>
  The invariant of the loops, after the role references \<open>done\<close>: what was written since \<open>w\<close> is the local
  \<open>want\<close>, it is under keys of \<open>done\<close>, and each reference of \<open>done\<close> is bound or reported missing.
\<close>

definition boundSince :: "managed_namespace \<Rightarrow> 's world \<Rightarrow> (access_mapping \<times> string) list \<Rightarrow>
    invalid_reference list \<times> objkey set \<Rightarrow> 's world \<Rightarrow> bool" where
  "boundSince mns w done acc w' \<longleftrightarrow>
     wrote KRoleBinding (snd acc) w w' \<and> snd acc \<subseteq> entryKey mns ` set done \<and>
     (\<forall>e \<in> set done. entryKey mns e \<in> snd acc \<or> missingRef (snd e) \<in> set (fst acc))"

text \<open>A prune writes no binding, and sends no deletion for one it was told to keep.\<close>

lemma emitting_pruneBindings:
  "emitting (\<lambda>ev. written_by KRoleBinding ev = {} \<and> deleted_by KRoleBinding ev \<inter> W = {}) (pruneBindings r mns (Some W))"
  unfolding pruneBindings_def deleteTolerant_def logResourceDeleted_def
  by (intro emitting_bindE emitting_for_each)
    (auto intro!: emitting_bindE split: sum.split simp: meta_key_def)

lemma pruneBindings_spares:
  assumes "pruneBindings r mns (Some W) w = (x, w')"
  shows "deleted KRoleBinding (since w w') \<inter> W = {}"
  using emits_since [OF emittingD [OF emitting_pruneBindings assms]] by (auto simp: deleted_def list_all_iff)

context kube_env begin

lemma wp_bindRole_bound:
  assumes "boundSince mns w0 done acc w"
  shows "wp (bindRole r mns (subjectKey am) (subjectsFor am) acc role) (\<lambda>x w'. case x of
      Inl e \<Rightarrow> \<exists>K \<subseteq> entryKey mns ` set done. wrote KRoleBinding K w0 w'
    | Inr acc' \<Rightarrow> boundSince mns w0 (done @ [(am, role)]) acc' w') w"
  unfolding bindRole_def Let_def wp_bindE wp_attempt
proof (rule role.wp_get, goal_cases)
  case (1 cr s')
  have key: "entryKey mns (am, role) = (mn_name mns, BindingName (mn_name mns) (subjectKey am) role)"
    by (simp add: entryKey_def keyed_def)
  let ?w1 = "w\<lparr>ext := s', trace := trace w @ [Api VGet KClusterRole [] role True]\<rparr>"
  from assms have got: "wrote KRoleBinding (snd acc) w0 ?w1"
    by (auto simp: boundSince_def intro!: wrote_step(2))
  show ?case
    unfolding sum.case wp_bindE ensureRoleBinding_eq
  proof (rule wp_conseq [OF rbl.wp_ensureBinding_wrote [OF refl]], goal_cases)
    case (1 x w')
    then have "wrote KRoleBinding (snd acc \<union> (if isl x then {} else {entryKey mns (am, role)})) w0 w'"
      by (intro wrote_trans [OF got]) (cases x; simp add: key)
    then show ?case
      using assms by (cases x) (auto simp: boundSince_def key simp flip: insert_is_Un [of _ "snd acc"])
  qed
next
  case (2 e s')
  have "wrote KRoleBinding (snd acc) w0 (w\<lparr>ext := s', trace := trace w @ [Api VGet KClusterRole [] role False]\<rparr>)"
    using assms by (auto simp: boundSince_def intro!: wrote_step(2))
  then show ?case using assms by (auto simp: boundSince_def missingRef_def)
qed

lemma reconcileBindings_writes:
  "wp (reconcileBindings r mns) (\<lambda>x w'. written KRoleBinding (since w w') \<subseteq> specBindings mns \<and>
     (\<forall>invalid. x = Inr invalid \<longrightarrow> (\<forall>e \<in> set (entries mns).
        entryKey mns e \<in> written KRoleBinding (since w w') \<or> missingRef (snd e) \<in> set invalid))) w"
  unfolding reconcileBindings_def wp_bindE
proof (rule wp_binding_loop [where I = "boundSince mns w"], goal_cases)
  case 1
  then show ?case by (simp add: boundSince_def)
next
  case (2 "done" acc w1 xs i)
  then show ?case by (auto simp: boundSince_def intro: wrote_step(1))
next
  case (3 "done" am role todo acc w1)
  from wp_bindRole_bound [OF 3(2), of am role] show ?case
    by (rule wp_conseq) (use 3(1) in \<open>auto simp: specBindings_entries dest!: wrote_since split: sum.splits\<close>)
next
  case (4 acc w1)
  obtain invalid want where acc: "acc = (invalid, want)" by (cases acc)
  obtain y w2 where p: "pruneBindings r mns (Some want) w1 = (y, w2)" by (cases "pruneBindings r mns (Some want) w1")
  have "wrote KRoleBinding {} w1 w2"
    using emittingD [OF emitting_pruneBindings p] by (rule wrote_nothing [OF emits_mono]) simp
  moreover from 4 have "wrote KRoleBinding want w w1" by (simp add: acc boundSince_def)
  ultimately have "written KRoleBinding (since w w2) = want"
    using wrote_since [OF wrote_trans, of KRoleBinding want w w1 "{}" w2] by simp
  moreover have "wp (pruneBindings r mns (Some want)) Q w1 = Q y w2" for Q
    by (simp add: wp_def p)
  ultimately show ?case
    using 4 by (auto simp: acc boundSince_def specBindings_entries split: sum.split)
qed

lemma reconcileBindings_result:
  assumes "reconcileBindings r mns w = (x, w')"
  shows "written KRoleBinding (since w w') \<subseteq> specBindings mns \<and>
    (\<forall>invalid. x = Inr invalid \<longrightarrow>
       (\<forall>am \<in> set (sp_accessMappings (mn_spec mns)). \<forall>role \<in> set (am_clusterRoles am). subjectsFor am \<noteq> [] \<longrightarrow>
          (mn_name mns, BindingName (mn_name mns) (subjectKey am) role) \<in> written KRoleBinding (since w w') \<or>
          missingRef role \<in> set invalid)) \<and>
    (x = Inr [] \<longrightarrow> written KRoleBinding (since w w') = specBindings mns)"
proof -
  note W = wpD [OF reconcileBindings_writes assms]
  have "(mn_name mns, BindingName (mn_name mns) (subjectKey am) role) \<in> written KRoleBinding (since w w') \<or>
      missingRef role \<in> set invalid"
    if "x = Inr invalid" "am \<in> set (sp_accessMappings (mn_spec mns))" "role \<in> set (am_clusterRoles am)" "subjectsFor am \<noteq> []"
    for invalid am role
  proof -
    have "am_clusterRoles am \<noteq> []" using that(3) by auto
    with that have "(am, role) \<in> set (entries mns)" by (simp add: entries_iff del: subjectsFor_Nil_iff)
    with W that(1) show ?thesis by (fastforce simp: entryKey_def keyed_def)
  qed
  moreover have "specBindings mns \<subseteq> written KRoleBinding (since w w')" if "x = Inr []"
    using W that by (auto simp: specBindings_entries)
  ultimately show ?thesis using W by blast
qed

end

end
