(* ===== verification/Mns_Properties.thy ===== *)
theory Mns_Properties
  imports Rest_Examples Binding_Trace
begin

text \<open>
  The properties of the ManagedNamespace reconciler, each over any environment that meets the
  contract \<open>kube_env\<close>, and each applied to the cluster of \<open>Mem_Examples\<close>.
\<close>

lemma ex_prune:
  "\<exists>w1. pruneBindings mem_env ex_mns (Some (specBindings ex_mns)) (ex_world (ex_mns_store ex_mns) []) = (Inr (), w1) \<and>
     deleted KRoleBinding (since (ex_world (ex_mns_store ex_mns) []) w1) = {(''team-a'', ''old'')}"
  by (simp add: eval_all pruneBindings_def specBindings_def ownedBy_def since_def deleted_def)

lemma ex_reconcileBindings:
  "\<exists>v1. reconcileBindings mem_env ex_mns (ex_world (ex_mns_store ex_mns) []) = (Inr [missingRef ''gone''], v1)"
  by (simp add: eval_all eval_mns missingRef_def)

section \<open>Sync\<close>

text \<open>C1. A sync that returns without an error, begun with informers that are fresh at bindings and
  roles, reports exactly the missing ClusterRoles in the order of the spec; every other entry of the
  spec has its binding on the server with the right labels, role and subjects; and no other owned
  binding of the namespace is in force.\<close>

theorem mns_sync_converges:
  assumes "kube_env r live cache"
    and "fresh live cache KRoleBinding (ext w)" and "fresh live cache KClusterRole (ext w)"
    and "namesConsistent mns" and "repairable live mns (ext w)"
    and "sync r mns w = (Inr invalid, w')"
  shows "invalid = missing live (ext w) (entries mns) \<and> bindingsSynced live mns (ext w) (ext w')"
  by (rule kube_env.sync_converges [OF assms])

theorem mns_sync_converges_witness:
  "\<exists>w'. sync mem_env ex_mns (ex_world (ex_mns_store ex_mns) []) = (Inr [missingRef ''gone''], w') \<and>
     bindingsSynced mem_live ex_mns (ext (ex_world (ex_mns_store ex_mns) [])) (ext w')"
proof -
  obtain w' where w': "sync mem_env ex_mns (ex_world (ex_mns_store ex_mns) []) = (Inr [missingRef ''gone''], w')"
    using ex_sync by blast
  from mns_sync_converges [OF mem_kube_env ex_fresh ex_fresh ex_consistent(1) ex_repairable(1) w'] w'
  show ?thesis by blast
qed

text \<open>C2. However a sync ends that begins with an informer cache fresh at RoleBindings, with an error or
  without, the grants the spec no longer asks for are revoked on the server; unless the revocation
  itself failed, and then nothing but revoking was attempted: no Namespace, quota or binding was
  written. The freshness is needed: the prune lists through the cache, and a binding the cache does not
  show yet is not revoked by this pass.\<close>

theorem mns_sync_revokes_first:
  assumes "kube_env r live cache" and "fresh live cache KRoleBinding (ext w)"
    and "sync r mns w = (x, w')"
  shows "revoked live mns (specBindings mns) (ext w') \<or> (isl x \<and> emits (mnsRevokes mns) w w')"
  by (rule kube_env.sync_revokes [OF assms])

text \<open>The second request after the list and the deletion fails: the writing of the Namespace.\<close>

theorem mns_sync_revokes_first_witness:
  "\<exists>e w'. sync mem_env ex_mns (ex_world (ex_mns_store ex_mns) [False, False, True]) = (Inl e, w') \<and>
     revoked mem_live ex_mns (specBindings ex_mns) (ext w')"
proof -
  let ?w = "ex_world (ex_mns_store ex_mns) [False, False, True]"
  have "\<exists>w'. sync mem_env ex_mns ?w = (Inl (ApiError ''Timeout'' ''the server timed out''), w') \<and>
      Api VCreateOrUpdate KNamespace [] ''team-a'' False \<in> set (trace w') \<and> trace ?w = []"
    by (simp add: eval_all eval_mns)
  then obtain w' where w': "sync mem_env ex_mns ?w = (Inl (ApiError ''Timeout'' ''the server timed out''), w')"
    "Api VCreateOrUpdate KNamespace [] ''team-a'' False \<in> set (trace w')" "trace ?w = []" by blast
  have "\<not> emits (mnsRevokes ex_mns) ?w w'"
    using w'(2,3) by (auto dest: emitsD)
  with mns_sync_revokes_first [OF mem_kube_env ex_fresh w'(1)] w'(1) show ?thesis by blast
qed

text \<open>C13. The first prune of \<open>sync\<close>, which looks up no ClusterRole, and \<open>reconcileBindings\<close> agree on
  the bindings the spec asks for. The prune sends no deletion for a binding that \<open>reconcileBindings\<close>
  writes: all it creates or updates is among the keys spared. Conversely, a \<open>reconcileBindings\<close> that
  returns without an error has, for each ClusterRole of a mapping with subjects, written the binding or
  reported the role missing; and if none was missing the bindings written are exactly the keys
  spared.\<close>

theorem mns_spares_what_it_binds:
  assumes "kube_env r live cache"
    and "pruneBindings r mns (Some (specBindings mns)) w = (y, w1)"
    and "reconcileBindings r mns v = (x, v1)"
  shows "deleted KRoleBinding (since w w1) \<inter> specBindings mns = {} \<and>
    written KRoleBinding (since v v1) \<subseteq> specBindings mns \<and>
    (\<forall>invalid. x = Inr invalid \<longrightarrow>
       (\<forall>am \<in> set (sp_accessMappings (mn_spec mns)). \<forall>role \<in> set (am_clusterRoles am). subjectsFor am \<noteq> [] \<longrightarrow>
          (mn_name mns, BindingName (mn_name mns) (subjectKey am) role) \<in> written KRoleBinding (since v v1) \<or>
          missingRef role \<in> set invalid)) \<and>
    (x = Inr [] \<longrightarrow> written KRoleBinding (since v v1) = specBindings mns)"
  using pruneBindings_spares [OF assms(2)] kube_env.reconcileBindings_result [OF assms(1,3)] by blast

text \<open>One role exists and one does not: the binding of the first is written, within what the prune spares.\<close>

theorem mns_spares_what_it_binds_witness:
  "\<exists>w1 v1. pruneBindings mem_env ex_mns (Some (specBindings ex_mns)) (ex_world (ex_mns_store ex_mns) []) = (Inr (), w1) \<and>
     deleted KRoleBinding (since (ex_world (ex_mns_store ex_mns) []) w1) = {(''team-a'', ''old'')} \<and>
     reconcileBindings mem_env ex_mns (ex_world (ex_mns_store ex_mns) []) = (Inr [missingRef ''gone''], v1) \<and>
     (''team-a'', ''k8sc-7d89374b2930e19e2d1a'') \<in> written KRoleBinding (since (ex_world (ex_mns_store ex_mns) []) v1)"
proof -
  let ?w = "ex_world (ex_mns_store ex_mns) []"
  obtain w1 where w1: "pruneBindings mem_env ex_mns (Some (specBindings ex_mns)) ?w = (Inr (), w1)"
    "deleted KRoleBinding (since ?w w1) = {(''team-a'', ''old'')}"
    using ex_prune by blast
  obtain v1 where v1: "reconcileBindings mem_env ex_mns ?w = (Inr [missingRef ''gone''], v1)"
    using ex_reconcileBindings by blast
  have "(mn_name ex_mns, BindingName (mn_name ex_mns) (subjectKey ex_mapping) ''view'') \<in> written KRoleBinding (since ?w v1) \<or>
      missingRef ''view'' \<in> set [missingRef ''gone'']"
    using mns_spares_what_it_binds [OF mem_kube_env w1(1) v1] by (simp add: ex_mapping_def subjectsFor_def)
  then have "(''team-a'', ''k8sc-7d89374b2930e19e2d1a'') \<in> written KRoleBinding (since ?w v1)"
    by (simp add: missingRef_def ex_mapping_def subjectKey_def ex_name_view)
  with w1 v1 show ?thesis by blast
qed

section \<open>The blast radius of a pass\<close>

text \<open>C12. Whatever the server answers, a pass makes only requests it is entitled to: it lists and
  deletes RoleBindings and ResourceQuotas only in the namespace of its own name, writes only the
  Namespace of that name, the quotas and bindings of the spec, reads ClusterRoles, patches only its
  own resource, and moves only its own gauge. It never deletes a Namespace or a ClusterRole.\<close>

theorem mns_pass_confined:
  assumes "kube_env r live cache"
    and "cache (ext w) (KManagedNamespace, q) = Some (OManagedNamespace mns)"
    and "Reconcile r q w = (x, w')"
  shows "emits (mnsRequest mns) w w'"
  by (rule kube_env.Reconcile_confined [OF assms])

theorem mns_pass_confined_witness:
  "emits (mnsRequest ex_mns) (ex_world (ex_mns_store ex_mns) [])
     (snd (Reconcile mem_env ([], ''team-a'') (ex_world (ex_mns_store ex_mns) [])))"
  by (rule mns_pass_confined [OF mem_kube_env ex_mns_cached]) (rule prod.collapse [symmetric])

text \<open>C6. A pass leaves every object alone that is not its own: one that is neither its resource, nor
  its Namespace, nor a quota or binding the spec names, and that neither the server nor the cache
  shows with the owner's labels inside the owner's namespace. A binding in another namespace that
  wears the labels is such an object.\<close>

theorem mns_bystanders_untouched:
  assumes "kube_env r live cache"
    and "cache (ext w) (KManagedNamespace, q) = Some (OManagedNamespace mns)"
    and "Reconcile r q w = (x, w')"
    and "y \<noteq> mnsSelf mns" and "bystander live cache mns y (ext w)"
  shows "live (ext w') y = live (ext w) y"
  by (rule kube_env.Reconcile_untouched [OF assms])

text \<open>A stranger's binding in the namespace \<open>team-b\<close>, labelled as if \<open>team-a\<close> owned it.\<close>

theorem mns_bystanders_untouched_witness:
  "mem_live (ext (snd (Reconcile mem_env ([], ''team-a'') (ex_world ex_stranger_store []))))
     (KRoleBinding, ''team-b'', ''old'') = Some (OBinding (ex_stale ''team-b'' ''team-a''))"
proof -
  have "mem_live (ext (snd (Reconcile mem_env ([], ''team-a'') (ex_world ex_stranger_store []))))
      (KRoleBinding, ''team-b'', ''old'') =
    mem_live (ext (ex_world ex_stranger_store [])) (KRoleBinding, ''team-b'', ''old'')"
    by (rule mns_bystanders_untouched [OF mem_kube_env ex_stranger_cached prod.collapse [symmetric]])
      (use ex_stranger in \<open>simp_all add: mnsSelf_def\<close>)
  then show ?thesis by (simp add: ex_stranger_live)
qed

section \<open>Deletion\<close>

text \<open>C5. If a pass over a terminating ManagedNamespace changes it on the server, which is how the
  finalizer goes and with it the resource, then no owned RoleBinding is left in the namespace: this
  was read from the server itself, not from the cache. The gauge no longer has a series for it.\<close>

theorem mns_finalizer_last:
  assumes "kube_env r live cache"
    and "cache (ext w) (KManagedNamespace, q) = Some (OManagedNamespace mns)"
    and "terminating (mn_meta mns)" and "Reconcile r q w = (x, w')"
    and "live (ext w') (KManagedNamespace, q) \<noteq> live (ext w) (KManagedNamespace, q)"
  shows "noneOwned live mns (ext w') \<and> invalidReferences (trace w') (''managednamespace'', mn_name mns) = None"
  using kube_env.Reconcile_finalizer [OF assms] kube_env.Reconcile_series_gone [OF assms] by blast

theorem mns_finalizer_last_witness:
  "mem_live (ext (snd (Reconcile mem_env ([], ''team-a'') (ex_world ex_bare_store []))))
     (KManagedNamespace, [], ''team-a'') = None \<and>
   noneOwned mem_live ex_mns_leaving
     (ext (snd (Reconcile mem_env ([], ''team-a'') (ex_world ex_bare_store []))))"
proof -
  let ?w' = "snd (Reconcile mem_env ([], ''team-a'') (ex_world ex_bare_store []))"
  have gone: "mem_live (ext ?w') (KManagedNamespace, [], ''team-a'') = None"
    by (simp add: eval_all eval_mns ex_bare_store_def)
  moreover have "noneOwned mem_live ex_mns_leaving (ext ?w')"
    by (rule mns_finalizer_last [OF mem_kube_env ex_bare_cached _ prod.collapse [symmetric], THEN conjunct1])
      (simp_all add: gone ex_bare_live ex_leaving)
  ultimately show ?thesis by blast
qed

text \<open>C10. Each round of finalizing makes progress: if it returns without an error, every owned binding
  left in the namespace is on its way out; it returns true, which lets the finalizer go, only if there
  was none, and then it changed nothing.\<close>

theorem mns_finalizing_progress:
  assumes "kube_env r live cache" and "finalizeBindings r mns w = (Inr gone, w')"
  shows "revoked live mns {} (ext w') \<and>
    (gone \<longrightarrow> noneOwned live mns (ext w') \<and> live (ext w') = live (ext w))"
  by (rule kube_env.finalizeBindings_progress [OF assms])

theorem mns_finalizing_progress_witness:
  "\<exists>w'. finalizeBindings mem_env ex_mns_leaving (ex_world (ex_mns_store ex_mns_leaving) []) = (Inr False, w') \<and>
     revoked mem_live ex_mns_leaving {} (ext w')"
proof -
  have "\<exists>w'. finalizeBindings mem_env ex_mns_leaving (ex_world (ex_mns_store ex_mns_leaving) []) = (Inr False, w')"
    by (simp add: eval_all eval_mns)
  then show ?thesis using mns_finalizing_progress [OF mem_kube_env] by blast
qed

text \<open>C11. Deleting a ManagedNamespace keeps everything but its RoleBindings: a pass over a terminating
  resource changes nothing else on the server, its Namespace and its quotas among them, whatever
  labels they wear; and it makes no request but to list and delete RoleBindings in its namespace and
  to read and patch the resource.\<close>

theorem mns_deletion_retains:
  assumes "kube_env r live cache"
    and "cache (ext w) (KManagedNamespace, q) = Some (OManagedNamespace mns)"
    and "terminating (mn_meta mns)" and "Reconcile r q w = (x, w')"
  shows "emits (mnsFinal mns) w w' \<and>
    (\<forall>y. fst y \<noteq> KRoleBinding \<longrightarrow> y \<noteq> mnsSelf mns \<longrightarrow> live (ext w') y = live (ext w) y)"
  using kube_env.Reconcile_final_confined [OF assms] kube_env.Reconcile_retains [OF assms] by blast

theorem mns_deletion_retains_witness:
  "mem_live (ext (snd (Reconcile mem_env ([], ''team-a'') (ex_world ex_bare_store []))))
     (KNamespace, [], ''team-a'') \<noteq> None"
proof -
  let ?w = "ex_world ex_bare_store []"
  let ?w' = "snd (Reconcile mem_env ([], ''team-a'') ?w)"
  have "mem_live (ext ?w') (KNamespace, [], ''team-a'') = mem_live (ext ?w) (KNamespace, [], ''team-a'')"
    using mns_deletion_retains [OF mem_kube_env ex_bare_cached ex_leaving(1) prod.collapse [symmetric]]
    by (simp add: mnsSelf_def)
  then show ?thesis by (simp add: ex_bare_namespace)
qed

section \<open>The status\<close>

text \<open>C9. What a pass over a live resource leaves in the status, when the status patch went through:
  the Ready condition carries the current generation and the outcome, with the error message bounded;
  after a failure the observed generation and the invalid references are those of the last good pass,
  and after a success the generation is the observed one and the condition is true exactly if no
  reference is invalid; the gauge shows the number of invalid references the status lists, and a failure leaves it
  as it was. The spec is not written.\<close>

theorem mns_status_reports:
  assumes "kube_env r live cache"
    and "cache (ext w) (KManagedNamespace, q) = Some (OManagedNamespace mns)"
    and "live (ext w) (KManagedNamespace, q) = Some (OManagedNamespace mns)"
    and "\<not> terminating (mn_meta mns)" and "Finalizer \<in> set (om_finalizers (mn_meta mns))"
    and "Reconcile r q w = (Inr (res, err), w')"
    and "last (trace w') = Api VStatusPatch KManagedNamespace (fst q) (snd q) True"
  shows "\<exists>cur. live (ext w') (KManagedNamespace, q) = Some (OManagedNamespace cur) \<and>
    mn_spec cur = mn_spec mns \<and>
    reports r (om_generation (mn_meta mns)) (passError err) (ms_invalidReferences (mn_status cur))
      (mn_status mns) (mn_status cur) \<and>
    invalidReferences (trace w') =
      (if passError err = None
       then (invalidReferences (trace w))((''managednamespace'', mn_name mns) \<mapsto> length (ms_invalidReferences (mn_status cur)))
       else invalidReferences (trace w))"
  by (rule kube_env.Reconcile_reports [OF assms])

text \<open>The read succeeds, the list of the first prune times out, the status is patched.\<close>

theorem mns_status_reports_witness:
  "\<exists>err w' cur. Reconcile mem_env ([], ''team-a'') (ex_world (ex_mns_store ex_mns) [False, True]) =
     (Inr (empty_result, Some (Retry err)), w') \<and>
     mem_live (ext w') (KManagedNamespace, [], ''team-a'') = Some (OManagedNamespace cur) \<and>
     reports mem_env 3 (Some err) (ms_invalidReferences (mn_status cur)) (mn_status ex_mns) (mn_status cur)"
proof -
  let ?w = "ex_world (ex_mns_store ex_mns) [False, True]"
  have "\<exists>err w'. Reconcile mem_env ([], ''team-a'') ?w = (Inr (empty_result, Some (Retry err)), w') \<and>
      last (trace w') = Api VStatusPatch KManagedNamespace [] ''team-a'' True"
    by (simp add: eval_all eval_mns)
  then obtain err w' where w': "Reconcile mem_env ([], ''team-a'') ?w = (Inr (empty_result, Some (Retry err)), w')"
      "last (trace w') = Api VStatusPatch KManagedNamespace [] ''team-a'' True" by blast
  with mns_status_reports [OF mem_kube_env ex_mns_cached ex_mns_live _ _ w'(1)] show ?thesis
    by (simp add: ex_mns_facts) blast
qed

text \<open>C3. The whole pass, composed: if it ends without an error, begun with fresh informers, the
  bindings are in sync with the spec and the status on the server lists exactly the ClusterRoles that
  were missing.\<close>

theorem mns_pass_converges:
  assumes "kube_env r live cache"
    and "cache (ext w) (KManagedNamespace, q) = Some (OManagedNamespace mns)"
    and "\<not> terminating (mn_meta mns)" and "Finalizer \<in> set (om_finalizers (mn_meta mns))"
    and "fresh live cache KRoleBinding (ext w)" and "fresh live cache KClusterRole (ext w)"
    and "live (ext w) (KManagedNamespace, q) = Some (OManagedNamespace mns)"
    and "namesConsistent mns" and "repairable live mns (ext w)"
    and "Reconcile r q w = (Inr (res, None), w')"
    and "last (trace w') = Api VStatusPatch KManagedNamespace (fst q) (snd q) True"
  shows "bindingsSynced live mns (ext w) (ext w') \<and>
    (\<exists>cur. live (ext w') (KManagedNamespace, q) = Some (OManagedNamespace cur) \<and>
      ms_invalidReferences (mn_status cur) = missing live (ext w) (entries mns))"
  using kube_env.Reconcile_converges [OF assms] by blast

theorem mns_pass_converges_witness:
  "\<exists>w'. Reconcile mem_env ([], ''team-a'') (ex_world (ex_mns_store ex_mns) []) = (Inr (empty_result, None), w') \<and>
     bindingsSynced mem_live ex_mns (ext (ex_world (ex_mns_store ex_mns) [])) (ext w')"
proof -
  obtain w' where w': "Reconcile mem_env ([], ''team-a'') (ex_world (ex_mns_store ex_mns) []) =
      (Inr (empty_result, None), w')"
    "last (trace w') = Api VStatusPatch KManagedNamespace [] ''team-a'' True"
    using ex_Reconcile by blast
  with mns_pass_converges [OF mem_kube_env ex_mns_cached _ _ ex_fresh ex_fresh ex_mns_live ex_consistent(1)
      ex_repairable(1) w'(1)] show ?thesis by (simp add: ex_mns_facts)
qed

section \<open>Provisioning and rest\<close>

text \<open>C7. A sync that returns without an error, begun with informers fresh at Namespaces and quotas, has
  left the Namespace as the spec wants it (applying the mutation again would change nothing), every
  quota of the spec with its limits and owner labels, and no other owned quota in force.\<close>

theorem mns_sync_provides:
  assumes "kube_env r live cache"
    and "fresh live cache KNamespace (ext w)" and "fresh live cache KResourceQuota (ext w)"
    and "sane_metadata (mn_spec mns)" and "distinct (map rq_name (sp_resourceQuotas (mn_spec mns)))"
    and "sync r mns w = (Inr invalid, w')"
  shows "namespaceSettled live mns (ext w') \<and> quotasSynced live mns (ext w')"
  by (rule kube_env.sync_provides [OF assms])

theorem mns_sync_provides_witness:
  "\<exists>w'. sync mem_env ex_mns (ex_world (ex_mns_store ex_mns) []) = (Inr [missingRef ''gone''], w') \<and>
     namespaceSettled mem_live ex_mns (ext w') \<and> quotasSynced mem_live ex_mns (ext w')"
proof -
  obtain w' where w': "sync mem_env ex_mns (ex_world (ex_mns_store ex_mns) []) = (Inr [missingRef ''gone''], w')"
    using ex_sync by blast
  have "sane_metadata (mn_spec ex_mns)"
    by (simp add: sane_metadata_def good_keys_def ex_mns_def sorted_keys_def list_all_iff)
  from mns_sync_provides [OF mem_kube_env ex_fresh ex_fresh this _ w'] w' show ?thesis by simp
qed

text \<open>C8. At rest, a sync is without effect: when the Namespace, the quotas and the bindings are in
  sync, nothing owned is on its way out and the informers are fresh, a sync that runs to its end
  sends no deletion, changes no object on the server and logs no change; so the watches on the
  controller's own objects see nothing.\<close>

theorem mns_rest_is_quiet:
  assumes "kube_env r live cache" and "informed live cache (ext w)" and "atRest live mns (ext w)"
    and "sync r mns w = (Inr invalid, w')"
  shows "live (ext w') = live (ext w) \<and> emits quiet_event w w'"
  using kube_env.sync_calm [OF assms] calm_live calm_def by blast

theorem mns_rest_is_quiet_witness:
  "\<exists>w'. sync mem_env ex_mns (ex_world ex_rest_store []) = (Inr [missingRef ''gone''], w') \<and>
     mem_live (ext w') = mem_live (ext (ex_world ex_rest_store []))"
proof -
  obtain w' where w': "sync mem_env ex_mns (ex_world ex_rest_store []) = (Inr [missingRef ''gone''], w')"
    using ex_rest_sync by blast
  from mns_rest_is_quiet [OF mem_kube_env ex_rest_informed ex_rest w'] w' show ?thesis by blast
qed

section \<open>A new resource\<close>

text \<open>C4. From a new ManagedNamespace to provisioned bindings in two passes. The first pass reads and
  patches the resource and touches nothing else, and if it asks to be run again without an error the
  server has the finalizer on an unchanged spec: no grant is made before the resource is bound to
  outlive it. Once the informers have caught up, a second pass that ends without an error leaves the
  bindings in sync and lists exactly the missing roles.\<close>

theorem mns_two_passes_converge:
  assumes "kube_env r live cache"
    and "cache (ext w) (KManagedNamespace, q) = Some (OManagedNamespace mns)"
    and "\<not> terminating (mn_meta mns)" and "Finalizer \<notin> set (om_finalizers (mn_meta mns))"
    and "Reconcile r q w = (Inr (res, None), w1)" and "r_requeue res"
    and "live (ext w2) = live (ext w1)" and "fresh live cache KManagedNamespace (ext w2)"
    and "fresh live cache KRoleBinding (ext w2)" and "fresh live cache KClusterRole (ext w2)"
    and "namesConsistent mns" and "repairable live mns (ext w1)"
    and "Reconcile r q w2 = (Inr (res', None), w3)"
    and "last (trace w3) = Api VStatusPatch KManagedNamespace (fst q) (snd q) True"
  shows "adopted live KManagedNamespace q w w1 \<and>
    (\<exists>cur. live (ext w1) (KManagedNamespace, q) = Some (OManagedNamespace cur) \<and>
       mn_spec cur = mn_spec mns \<and> Finalizer \<in> set (om_finalizers (mn_meta cur))) \<and>
    bindingsSynced live mns (ext w1) (ext w3) \<and>
    (\<exists>cur. live (ext w3) (KManagedNamespace, q) = Some (OManagedNamespace cur) \<and>
       ms_invalidReferences (mn_status cur) = missing live (ext w1) (entries mns))"
  by (rule kube_env.two_passes_converge [OF assms])

theorem mns_two_passes_converge_witness:
  "\<exists>w1 w3. Reconcile mem_env ([], ''team-a'') (ex_world (ex_mns_store ex_mns_new) []) =
       (Inr (empty_result\<lparr>r_requeue := True\<rparr>, None), w1) \<and>
     adopted mem_live KManagedNamespace ([], ''team-a'') (ex_world (ex_mns_store ex_mns_new) []) w1 \<and>
     Reconcile mem_env ([], ''team-a'') w1 = (Inr (empty_result, None), w3) \<and>
     bindingsSynced mem_live ex_mns_new (ext w1) (ext w3)"
proof -
  obtain w1 w3 where run: "Reconcile mem_env ([], ''team-a'') (ex_world (ex_mns_store ex_mns_new) []) =
        (Inr (empty_result\<lparr>r_requeue := True\<rparr>, None), w1)"
      "mem_seen (ext w1) = mem_store (ext w1)" "repairable mem_live ex_mns_new (ext w1)"
      "Reconcile mem_env ([], ''team-a'') w1 = (Inr (empty_result, None), w3)"
      "last (trace w3) = Api VStatusPatch KManagedNamespace [] ''team-a'' True"
    using ex_two_passes by blast
  have fresh: "fresh mem_live mem_cache kd (ext w1)" for kd
    using run(2) by (simp add: fresh_def mem_live_def mem_cache_def)
  have consistent: "namesConsistent ex_mns_new" using ex_consistent(1) by (simp only: ex_new_facts)
  have "Finalizer \<notin> set (om_finalizers (mn_meta ex_mns_new))" by (simp add: ex_new_facts)
  from mns_two_passes_converge [OF mem_kube_env ex_new_cached ex_new_facts(1) this run(1) _ refl fresh fresh fresh
      consistent run(3,4)] run show ?thesis by (auto simp: empty_result_def)
qed

end
