(* ===== verification/Cam_Properties.thy ===== *)
theory Cam_Properties
  imports Rest_Examples
begin

text \<open>
  The properties of the ClusterAccessMapping reconciler, each over any environment that meets the
  contract \<open>kube_env\<close>, and each applied to a cluster with a mapping \<open>ops\<close>.
\<close>

section \<open>Sync\<close>

context kube_env begin

lemma camSync_lookup_fails:
  assumes "mappingErrors (ca_spec cam) = []" and "am_clusterRoles (ca_spec cam) = role # rest"
    and "k_get (e_role r) ([], role) (ext w) = (Inl e, s')" and "\<not> isNotFound r e"
  shows "\<exists>w'. camSync r cam w = (Inl e, w') \<and> live (ext w') = live (ext w)"
proof -
  have "live s' = live (ext w)" using touches_live [OF role.get_frame [OF assms(3)]] by auto
  then show ?thesis
    using assms
    by (simp add: camSync_def camBindRole_def bindE_def attempt_def api_def ret_def throw_def for_each_def Let_def
        del: mappingErrors_Nil_iff)
qed

end

text \<open>C14. A sync that returns without an error, begun with informers that are fresh at bindings and
  roles, reports exactly the missing ClusterRoles; every other role of the spec has its
  ClusterRoleBinding with the right labels, role and subjects; and no other owned binding is in
  force.\<close>

theorem cam_sync_converges:
  assumes "kube_env r live cache"
    and "fresh live cache KClusterRoleBinding (ext w)" and "fresh live cache KClusterRole (ext w)"
    and "camConsistent cam" and "camRepairable live cam (ext w)"
    and "camSync r cam w = (Inr invalid, w')"
  shows "invalid = missing live (ext w) (camEntries cam) \<and> camSynced live cam (ext w) (ext w')"
  using wpD [OF kube_env.camSync_converges [OF assms(1-5)] assms(6)] by blast

theorem cam_sync_converges_witness:
  "\<exists>w'. camSync mem_env ex_cam (ex_world (ex_cam_store ex_cam) []) = (Inr [], w') \<and>
     camSynced mem_live ex_cam (ext (ex_world (ex_cam_store ex_cam) [])) (ext w')"
proof -
  obtain w' where w': "camSync mem_env ex_cam (ex_world (ex_cam_store ex_cam) []) = (Inr [], w')"
    using ex_camSync by blast
  from cam_sync_converges [OF mem_kube_env ex_fresh ex_fresh ex_consistent(2) ex_repairable(2) w'] w'
  show ?thesis by blast
qed

text \<open>C18. A ClusterAccessMapping revokes last: if looking up the first role of its spec fails for any
  reason but NotFound, sync returns that error having changed nothing, so every binding the spec no
  longer asks for stays in force.\<close>

theorem cam_lookup_blocks_revocation:
  assumes "kube_env r live cache"
    and "mappingErrors (ca_spec cam) = []" and "am_clusterRoles (ca_spec cam) = role # rest"
    and "k_get (e_role r) ([], role) (ext w) = (Inl e, s')" and "\<not> isNotFound r e"
  shows "\<exists>w'. camSync r cam w = (Inl e, w') \<and> live (ext w') = live (ext w)"
  by (rule kube_env.camSync_lookup_fails [OF assms])

text \<open>The role lookup times out; the stale binding is still there.\<close>

theorem cam_lookup_blocks_revocation_witness:
  "\<exists>e w'. camSync mem_env ex_cam (ex_world (ex_cam_store ex_cam) [True]) = (Inl e, w') \<and>
     mem_live (ext w') (KClusterRoleBinding, [], ''old'') = Some (OBinding (ex_stale [] ''ops''))"
proof -
  let ?w = "ex_world (ex_cam_store ex_cam) [True]"
  have errors: "mappingErrors (ca_spec ex_cam) = []" "am_clusterRoles (ca_spec ex_cam) = [''view'']"
    by (simp_all add: ex_cam_def ex_mapping_def mappingErrors_def subjectsFor_def)
  obtain e s' where get: "k_get (e_role mem_env) ([], ''view'') (ext ?w) = (Inl e, s')" "\<not> isNotFound mem_env e"
    by (simp add: eval_cluster ex_world_def)
  have "mem_live (ext ?w) (KClusterRoleBinding, [], ''old'') = Some (OBinding (ex_stale [] ''ops''))"
    by (simp add: eval_all)
  with cam_lookup_blocks_revocation [OF mem_kube_env errors get] show ?thesis by metis
qed

section \<open>The blast radius of a pass\<close>

text \<open>C22. Whatever the server answers, a pass makes only requests it is entitled to: it lists and
  deletes ClusterRoleBindings, reads and writes only those under the names its spec generates, reads
  ClusterRoles, and writes no resource but its own, its status and its gauge.\<close>

theorem cam_pass_confined:
  assumes "kube_env r live cache"
    and "cache (ext w) (KClusterAccessMapping, q) = Some (OClusterAccess cam)"
    and "camReconcile r q w = (x, w')"
  shows "emits (camRequest cam) w w'"
  by (rule kube_env.camReconcile_confined [OF assms])

theorem cam_pass_confined_witness:
  "emits (camRequest ex_cam) (ex_world (ex_cam_store ex_cam) [])
     (snd (camReconcile mem_env ([], ''ops'') (ex_world (ex_cam_store ex_cam) [])))"
  by (rule cam_pass_confined [OF mem_kube_env ex_cam_cached]) (rule prod.collapse [symmetric])

text \<open>C17. A pass leaves every object alone that is not its own: one that is neither its resource nor a
  binding its spec names, and that neither the server nor the cache shows with the owner's
  labels.\<close>

theorem cam_bystanders_untouched:
  assumes "kube_env r live cache"
    and "cache (ext w) (KClusterAccessMapping, q) = Some (OClusterAccess cam)"
    and "camReconcile r q w = (x, w')"
    and "y \<noteq> camSelf cam" and "camBystander live cache cam y (ext w)"
  shows "live (ext w') y = live (ext w) y"
  by (rule kube_env.camReconcile_untouched [OF assms])

text \<open>A ClusterRoleBinding that belongs to another mapping.\<close>

definition ex_two_store :: store where
  "ex_two_store = [((KClusterAccessMapping, [], ''ops''), OClusterAccess ex_cam), ex_role,
     ((KClusterRoleBinding, [], ''old''), OBinding (ex_stale [] ''dev''))]"

lemma ex_two_live: "mem_live (ext (ex_world ex_two_store fs)) (KClusterRoleBinding, [], ''old'') =
    Some (OBinding (ex_stale [] ''dev''))"
  by (simp add: eval_all ex_two_store_def)

lemma ex_two_cached: "mem_cache (ext (ex_world ex_two_store fs)) (KClusterAccessMapping, [], ''ops'') =
    Some (OClusterAccess ex_cam)"
  by (simp add: eval_all ex_two_store_def)

lemma ex_two_bystander:
  "camBystander mem_live mem_cache ex_cam (KClusterRoleBinding, [], ''old'') (ext (ex_world ex_two_store fs))"
proof -
  have "\<not> owned_by ''ops'' (b_meta (ex_stale [] ''dev''))"
    by (simp add: ex_stale_def ex_meta_def empty_meta_def owned_by_iff ownerLabels_def)
  then show ?thesis
    by (auto simp: camBystander_def seen_def ex_two_live camOwns_def camGenerated_def camBindings_def
        camKey_def BindingName_neq)
qed

theorem cam_bystanders_untouched_witness:
  "mem_live (ext (snd (camReconcile mem_env ([], ''ops'') (ex_world ex_two_store []))))
     (KClusterRoleBinding, [], ''old'') = Some (OBinding (ex_stale [] ''dev''))"
proof -
  have "mem_live (ext (snd (camReconcile mem_env ([], ''ops'') (ex_world ex_two_store []))))
      (KClusterRoleBinding, [], ''old'') =
    mem_live (ext (ex_world ex_two_store [])) (KClusterRoleBinding, [], ''old'')"
    by (rule cam_bystanders_untouched [OF mem_kube_env ex_two_cached prod.collapse [symmetric]])
      (simp_all add: ex_two_bystander camSelf_def)
  then show ?thesis by (simp add: ex_two_live)
qed

section \<open>Deletion\<close>

text \<open>C16. If a pass over a terminating ClusterAccessMapping changes it on the server, which is how the
  finalizer goes, then the server has no owned ClusterRoleBinding left, and the gauge no series.\<close>

theorem cam_finalizer_last:
  assumes "kube_env r live cache"
    and "cache (ext w) (KClusterAccessMapping, q) = Some (OClusterAccess cam)"
    and "terminating (ca_meta cam)" and "camReconcile r q w = (x, w')"
    and "live (ext w') (KClusterAccessMapping, q) \<noteq> live (ext w) (KClusterAccessMapping, q)"
  shows "camNoneOwned live cam (ext w') \<and> invalidReferences (trace w') (''clusteraccessmapping'', ca_name cam) = None"
  using kube_env.camReconcile_finalizer [OF assms] kube_env.camReconcile_series_gone [OF assms] by blast

definition ex_cam_bare_store :: store where
  "ex_cam_bare_store = [((KClusterAccessMapping, [], ''ops''), OClusterAccess ex_cam_leaving)]"

lemma ex_cam_bare_live: "mem_live (ext (ex_world ex_cam_bare_store fs)) (KClusterAccessMapping, [], ''ops'') =
    Some (OClusterAccess ex_cam_leaving)"
  by (simp add: eval_all ex_cam_bare_store_def)

lemma ex_cam_bare_cached: "mem_cache (ext (ex_world ex_cam_bare_store fs)) (KClusterAccessMapping, [], ''ops'') =
    Some (OClusterAccess ex_cam_leaving)"
  by (simp add: ex_cam_bare_live)

theorem cam_finalizer_last_witness:
  "mem_live (ext (snd (camReconcile mem_env ([], ''ops'') (ex_world ex_cam_bare_store []))))
     (KClusterAccessMapping, [], ''ops'') = None \<and>
   camNoneOwned mem_live ex_cam_leaving
     (ext (snd (camReconcile mem_env ([], ''ops'') (ex_world ex_cam_bare_store []))))"
proof -
  let ?w' = "snd (camReconcile mem_env ([], ''ops'') (ex_world ex_cam_bare_store []))"
  have gone: "mem_live (ext ?w') (KClusterAccessMapping, [], ''ops'') = None"
    by (simp add: eval_all eval_cam ex_cam_bare_store_def)
  moreover have "camNoneOwned mem_live ex_cam_leaving (ext ?w')"
    by (rule cam_finalizer_last [OF mem_kube_env ex_cam_bare_cached _ prod.collapse [symmetric], THEN conjunct1])
      (simp_all add: gone ex_cam_bare_live ex_leaving)
  ultimately show ?thesis by blast
qed

text \<open>C21. Each round of finalizing a ClusterAccessMapping makes progress: if it returns without an
  error, every owned ClusterRoleBinding left is on its way out; it returns true only if there was
  none, and then it changed nothing.\<close>

theorem cam_finalizing_progress:
  assumes "kube_env r live cache" and "camFinalizeBindings r cam w = (Inr gone, w')"
  shows "camRevoked live cam {} (ext w') \<and>
    (gone \<longrightarrow> camNoneOwned live cam (ext w') \<and> live (ext w') = live (ext w))"
  by (rule kube_env.camFinalizeBindings_progress [OF assms])

theorem cam_finalizing_progress_witness:
  "\<exists>w'. camFinalizeBindings mem_env ex_cam_leaving (ex_world (ex_cam_store ex_cam_leaving) []) = (Inr False, w') \<and>
     camRevoked mem_live ex_cam_leaving {} (ext w')"
proof -
  have "\<exists>w'. camFinalizeBindings mem_env ex_cam_leaving (ex_world (ex_cam_store ex_cam_leaving) []) = (Inr False, w')"
    by (simp add: eval_all eval_cam)
  then show ?thesis using cam_finalizing_progress [OF mem_kube_env] by blast
qed

section \<open>The status\<close>

text \<open>C20. What a pass over a live ClusterAccessMapping leaves in the status when the status patch went
  through, and in the gauge, on the same terms as for a ManagedNamespace; the spec is not written.\<close>

theorem cam_status_reports:
  assumes "kube_env r live cache"
    and "cache (ext w) (KClusterAccessMapping, q) = Some (OClusterAccess cam)"
    and "live (ext w) (KClusterAccessMapping, q) = Some (OClusterAccess cam)"
    and "\<not> terminating (ca_meta cam)" and "Finalizer \<in> set (om_finalizers (ca_meta cam))"
    and "camReconcile r q w = (Inr (res, err), w')"
    and "last (trace w') = Api VStatusPatch KClusterAccessMapping (fst q) (snd q) True"
  shows "\<exists>cur. live (ext w') (KClusterAccessMapping, q) = Some (OClusterAccess cur) \<and>
    ca_spec cur = ca_spec cam \<and>
    camReports r (om_generation (ca_meta cam)) (passError err) (cs_invalidReferences (ca_status cur))
      (ca_status cam) (ca_status cur) \<and>
    invalidReferences (trace w') =
      (if passError err = None
       then (invalidReferences (trace w))((''clusteraccessmapping'', ca_name cam) \<mapsto> length (cs_invalidReferences (ca_status cur)))
       else invalidReferences (trace w))"
  by (rule kube_env.camReconcile_reports [OF assms])

theorem cam_status_reports_witness:
  "\<exists>err w' cur. camReconcile mem_env ([], ''ops'') (ex_world (ex_cam_store ex_cam) [False, True]) =
     (Inr (empty_result, Some (Retry err)), w') \<and>
     mem_live (ext w') (KClusterAccessMapping, [], ''ops'') = Some (OClusterAccess cur) \<and>
     camReports mem_env 3 (Some err) (cs_invalidReferences (ca_status cur)) (ca_status ex_cam) (ca_status cur)"
proof -
  let ?w = "ex_world (ex_cam_store ex_cam) [False, True]"
  have "\<exists>err w'. camReconcile mem_env ([], ''ops'') ?w = (Inr (empty_result, Some (Retry err)), w') \<and>
      last (trace w') = Api VStatusPatch KClusterAccessMapping [] ''ops'' True"
    by (simp add: eval_all eval_cam)
  then obtain err w' where w': "camReconcile mem_env ([], ''ops'') ?w = (Inr (empty_result, Some (Retry err)), w')"
      "last (trace w') = Api VStatusPatch KClusterAccessMapping [] ''ops'' True" by blast
  with cam_status_reports [OF mem_kube_env ex_cam_cached ex_cam_live _ _ w'(1)] show ?thesis
    by (simp add: ex_cam_facts) blast
qed

text \<open>C15. The whole pass over a ClusterAccessMapping: if it ends without an error, begun with fresh
  informers, the bindings are in sync with the spec and the status on the server lists exactly the
  ClusterRoles that were missing.\<close>

theorem cam_pass_converges:
  assumes "kube_env r live cache"
    and "cache (ext w) (KClusterAccessMapping, q) = Some (OClusterAccess cam)"
    and "\<not> terminating (ca_meta cam)" and "Finalizer \<in> set (om_finalizers (ca_meta cam))"
    and "fresh live cache KClusterRoleBinding (ext w)" and "fresh live cache KClusterRole (ext w)"
    and "live (ext w) (KClusterAccessMapping, q) = Some (OClusterAccess cam)"
    and "camConsistent cam" and "camRepairable live cam (ext w)"
    and "camReconcile r q w = (Inr (res, None), w')"
    and "last (trace w') = Api VStatusPatch KClusterAccessMapping (fst q) (snd q) True"
  shows "camSynced live cam (ext w) (ext w') \<and>
    (\<exists>cur. live (ext w') (KClusterAccessMapping, q) = Some (OClusterAccess cur) \<and>
      cs_invalidReferences (ca_status cur) = missing live (ext w) (camEntries cam))"
  using kube_env.camReconcile_converges [OF assms] by blast

theorem cam_pass_converges_witness:
  "\<exists>w'. camReconcile mem_env ([], ''ops'') (ex_world (ex_cam_store ex_cam) []) = (Inr (empty_result, None), w') \<and>
     camSynced mem_live ex_cam (ext (ex_world (ex_cam_store ex_cam) [])) (ext w')"
proof -
  obtain w' where w': "camReconcile mem_env ([], ''ops'') (ex_world (ex_cam_store ex_cam) []) =
      (Inr (empty_result, None), w')"
    "last (trace w') = Api VStatusPatch KClusterAccessMapping [] ''ops'' True"
    using ex_camReconcile by blast
  with cam_pass_converges [OF mem_kube_env ex_cam_cached _ _ ex_fresh ex_fresh ex_cam_live ex_consistent(2)
      ex_repairable(2) w'(1)] show ?thesis by (simp add: ex_cam_facts)
qed

section \<open>At rest\<close>

text \<open>C19. At rest, the sync of a ClusterAccessMapping is without effect: with its bindings in sync, none
  on its way out and fresh informers, a sync that runs to its end sends no deletion, changes no
  object on the server and logs no change.\<close>

theorem cam_rest_is_quiet:
  assumes "kube_env r live cache" and "camInformed live cache (ext w)" and "camAtRest live cam (ext w)"
    and "camSync r cam w = (Inr invalid, w')"
  shows "live (ext w') = live (ext w) \<and> emits quiet_event w w'"
  using kube_env.camSync_calm [OF assms] calm_live calm_def by blast

text \<open>The binding of the role that exists is there: it is read, found right, not written, and spared.\<close>

theorem cam_rest_is_quiet_witness:
  "\<exists>w'. camSync mem_env ex_cam_rest (ex_world ex_cam_rest_store []) = (Inr [missingRef ''gone''], w') \<and>
     Api VCreateOrUpdate KClusterRoleBinding [] ex_cam_rest_name True \<in> set (trace w') \<and>
     mem_live (ext w') (KClusterRoleBinding, [], ex_cam_rest_name) = Some (OBinding ex_cam_rest_binding) \<and>
     emits quiet_event (ex_world ex_cam_rest_store []) w'"
proof -
  obtain w' where w': "camSync mem_env ex_cam_rest (ex_world ex_cam_rest_store []) = (Inr [missingRef ''gone''], w')"
    "Api VCreateOrUpdate KClusterRoleBinding [] ex_cam_rest_name True \<in> set (trace w')"
    using ex_cam_rest_sync by blast
  have "camInformed mem_live mem_cache (ext (ex_world ex_cam_rest_store []))"
    by (simp add: camInformed_def)
  from cam_rest_is_quiet [OF mem_kube_env this ex_cam_rest w'(1)] w' ex_cam_rest_live [of "[]"]
  show ?thesis by simp
qed

end
