(* ===== verification/Outcomes.thy ===== *)
theory Outcomes
  imports Mns_Status Cam_Status
begin

text \<open>
  What a reconcile returns, tied to its cause. A pass is in one of three phases: its resource is on the
  way out, or has no finalizer yet, or is to be synced. For each phase a predicate says which result and
  error answer which state of the server, last request and outcome of the sync. Both reconcilers meet the
  same predicates.
\<close>

section \<open>Answers\<close>

text \<open>The last event of the pass was a request on the resource itself, accepted or refused.\<close>

definition asked :: "kind \<Rightarrow> objkey \<Rightarrow> 's world \<Rightarrow> verb \<Rightarrow> bool \<Rightarrow> bool" where
  "asked kd q w v ok \<longleftrightarrow> trace w \<noteq> [] \<and> last (trace w) = Api v kd (fst q) (snd q) ok"

lemma asked_snoc [simp]:
  "asked kd q (w\<lparr>trace := evs @ [ev]\<rparr>) v ok \<longleftrightarrow> ev = Api v kd (fst q) (snd q) ok"
  "asked kd q (w\<lparr>ext := s, trace := evs @ [ev]\<rparr>) v ok \<longleftrightarrow> ev = Api v kd (fst q) (snd q) ok"
  by (simp_all add: asked_def)

text \<open>
  Finalizing, where \<open>clear\<close> says that the server held no owned binding when the pass began: quiet only
  if the finalizer was taken off, and otherwise run again after the delay or with backoff.
\<close>

definition answers_leaving :: "kind \<Rightarrow> objkey \<Rightarrow> bool \<Rightarrow> 's world \<Rightarrow> result \<times> reconcile_error option \<Rightarrow> bool" where
  "answers_leaving kd q clear w' out \<longleftrightarrow> (case out of
       (res, None) \<Rightarrow>
         if clear then res = empty_result \<and> asked kd q w' VPatch True
         else res = empty_result\<lparr>r_requeueAfter := finalizerRetryAfter\<rparr>
     | (res, Some e) \<Rightarrow> res = empty_result \<and> (\<exists>c. e = Retry c))"

text \<open>Adopting: the pass asks to be run again at once, with an error exactly if the patch was refused.\<close>

definition answers_new :: "kind \<Rightarrow> objkey \<Rightarrow> 's world \<Rightarrow> result \<times> reconcile_error option \<Rightarrow> bool" where
  "answers_new kd q w' out \<longleftrightarrow> (case out of
       (res, None) \<Rightarrow> res = empty_result\<lparr>r_requeue := True\<rparr> \<and> asked kd q w' VPatch True
     | (res, Some e) \<Rightarrow> (\<exists>c. e = Retry c) \<and>
         (res = empty_result \<and> asked kd q w' VGet False \<or>
          res = empty_result\<lparr>r_requeue := True\<rparr> \<and> asked kd q w' VPatch False))"

text \<open>
  Syncing, where \<open>ended e\<close> says that the sync of this pass ended with the error \<open>e\<close>, or none. Its error is
  returned, for good exactly if the server calls it Invalid and the status could be written; a status
  that could not be written is an error of its own, joined to it.
\<close>

definition answers_sync :: "'s env \<Rightarrow> kind \<Rightarrow> objkey \<Rightarrow> (error option \<Rightarrow> bool) \<Rightarrow> 's world \<Rightarrow>
    result \<times> reconcile_error option \<Rightarrow> bool" where
  "answers_sync r kd q ended w' out \<longleftrightarrow> fst out = empty_result \<and>
     (asked kd q w' VGet False \<and> (\<exists>c. snd out = Some (Retry c)) \<or>
      asked kd q w' VStatusPatch True \<and>
        (ended None \<and> snd out = None \<or>
         (\<exists>e. ended (Some e) \<and> snd out = Some (if isInvalid r e then Terminal e else Retry e))) \<or>
      asked kd q w' VStatusPatch False \<and>
        (\<exists>c. ended None \<and> snd out = Some (Retry (JoinedError [c])) \<or>
         (\<exists>e. ended (Some e) \<and> snd out = Some (Retry (JoinedError [e, c])))))"

lemma answers_synced:
  assumes "asked kd q w' VStatusPatch (\<not> isl st)" and "ended (as_error y)"
  shows "answers_sync r kd q ended w' (empty_result, case st of
      Inl e \<Rightarrow> map_option Retry (errors_join [as_error y, Some e])
    | Inr (u :: unit) \<Rightarrow> terminal r (as_error y))"
  using assms
  by (cases st; cases y)
    (auto simp: answers_sync_def as_error_def errors_join_def terminal_def List.map_filter_def)

section \<open>A pass over a ManagedNamespace\<close>

lemma status_asked:
  "status r mns invalid e w = (x, w') \<Longrightarrow> asked KManagedNamespace (meta_key (mn_meta mns)) w' VStatusPatch (\<not> isl x)"
  by (auto simp: asked_def status_def bindE_def emit_def ret_def gets_def api_def Let_def split: prod.splits if_splits)

lemma camStatus_asked:
  "camStatus r cam invalid e w = (x, w') \<Longrightarrow> asked KClusterAccessMapping (meta_key (ca_meta cam)) w' VStatusPatch (\<not> isl x)"
  by (auto simp: asked_def camStatus_def bindE_def emit_def ret_def gets_def api_def Let_def split: prod.splits if_splits)

text \<open>The outcomes of the sync a pass that begins in \<open>w\<close> may have run, once it has read its resource.\<close>

definition synced_with :: "('s \<Rightarrow> table) \<Rightarrow> ('s \<Rightarrow> table) \<Rightarrow> kind \<Rightarrow> objkey \<Rightarrow> ('s, 'a) io \<Rightarrow> 's world \<Rightarrow> error option \<Rightarrow> bool" where
  "synced_with live cache kd q m w e \<longleftrightarrow> (\<exists>s y w2. touches live cache {} (ext w) s \<and>
     m (w\<lparr>ext := s, trace := trace w @ [Api VGet kd (fst q) (snd q) True]\<rparr>) = (y, w2) \<and> e = as_error y)"

context kube_env begin

lemma finalizeBindings_clear:
  assumes "finalizeBindings r mns w = (Inr g, w')"
  shows "g \<longleftrightarrow> noneOwned live mns (ext w)"
proof -
  from assms obtain items w1 where 1:
    "api VLiveList KRoleBinding (mn_name mns, []) (e_live_rb r (ownedBy mns)) w = (Inr items, w1)"
    unfolding finalizeBindings_def by (blast dest: bindE_result)
  have "items = [] \<longleftrightarrow> noneOwned live mns (ext w)"
    using live_owned_list(2) [OF 1 refl] by (auto simp: noneOwnedAt_def) (metis list.set_intros(1) neq_Nil_conv)
  moreover from assms 1 have "g \<longleftrightarrow> items = []"
    by (auto simp: finalizeBindings_def bindE_def ret_def split: if_splits prod.splits sum.splits)
  ultimately show ?thesis by simp
qed

lemma Reconcile_answers_leaving:
  assumes "cache (ext w) (KManagedNamespace, q) = Some (OManagedNamespace mns)" and "terminating (mn_meta mns)"
  shows "wp (Reconcile r q) (\<lambda>x w'. \<exists>out. x = Inr out \<and>
    answers_leaving KManagedNamespace q (noneOwned live mns (ext w)) w' out) w"
  unfolding Reconcile_def wp_bindE wp_attempt
proof (rule mns.wp_get, goal_cases)
  case (2 e s')
  with assms(1) show ?case by (auto simp: answers_leaving_def)
next
  case (1 ob s')
  then have ob: "ob = mns" and key: "meta_key (mn_meta mns) = q"
    using assms(1) mns.cache_key [OF assms(1)] by simp_all
  have same: "noneOwned live mns s' = noneOwned live mns (ext w)"
    using touches_live [OF 1(1)] by (simp add: noneOwnedAt_def)
  show ?case
    unfolding sum.case ob if_P [OF assms(2)] wp_bindE wp_attempt
  proof (rule wpI, goal_cases)
    case (1 g w1)
    show ?case
    proof (cases g)
      case (Inr b)
      with finalizeBindings_clear [OF 1 [unfolded Inr]] same show ?thesis
        by (auto simp: asked_def answers_leaving_def patchFinalizer_def wp_api key as_error_def split: prod.split sum.split)
    qed (simp add: answers_leaving_def)
  qed
qed

lemma Reconcile_answers_new:
  assumes "cache (ext w) (KManagedNamespace, q) = Some (OManagedNamespace mns)"
    and "\<not> terminating (mn_meta mns)" and "Finalizer \<notin> set (om_finalizers (mn_meta mns))"
  shows "wp (Reconcile r q) (\<lambda>x w'. \<exists>out. x = Inr out \<and> answers_new KManagedNamespace q w' out) w"
  unfolding Reconcile_def wp_bindE wp_attempt
proof (rule mns.wp_get, goal_cases)
  case (2 e s')
  with assms(1) show ?case by (auto simp: answers_new_def)
next
  case (1 ob s')
  then have "ob = mns" and "meta_key (mn_meta mns) = q"
    using assms(1) mns.cache_key [OF assms(1)] by simp_all
  then show ?case
    using assms(2,3)
    by (auto simp: asked_def answers_new_def patchFinalizer_def wp_api as_error_def containsFinalizer_iff split: prod.split sum.split)
qed

lemma Reconcile_answers_sync:
  assumes "cache (ext w) (KManagedNamespace, q) = Some (OManagedNamespace mns)"
    and "\<not> terminating (mn_meta mns)" and "Finalizer \<in> set (om_finalizers (mn_meta mns))"
    and "Reconcile r q w = (x, w')"
  shows "\<exists>out. x = Inr out \<and>
    answers_sync r KManagedNamespace q (synced_with live cache KManagedNamespace q (sync r mns) w) w' out"
  using assms
proof (cases rule: Reconcile_active)
  case (unread e s')
  then show ?thesis by (simp add: answers_sync_def)
next
  case (ran s1 y w2 st)
  have "meta_key (mn_meta mns) = q" using mns.cache_key [OF assms(1)] by simp
  with status_asked [OF ran(3)] have "asked KManagedNamespace q w' VStatusPatch (\<not> isl st)" by simp
  moreover have "synced_with live cache KManagedNamespace q (sync r mns) w (as_error y)"
    using ran(1,2) by (auto simp: synced_with_def)
  ultimately show ?thesis using answers_synced ran(4) by blast
qed

lemma Reconcile_answers:
  assumes "cache (ext w) (KManagedNamespace, q) = Some (OManagedNamespace mns)" and "Reconcile r q w = (x, w')"
  shows "\<exists>out. x = Inr out \<and>
    (if terminating (mn_meta mns) then answers_leaving KManagedNamespace q (noneOwned live mns (ext w)) w' out
     else if Finalizer \<notin> set (om_finalizers (mn_meta mns)) then answers_new KManagedNamespace q w' out
     else answers_sync r KManagedNamespace q (synced_with live cache KManagedNamespace q (sync r mns) w) w' out)"
  using wpD [OF Reconcile_answers_leaving [OF assms(1)] assms(2)] wpD [OF Reconcile_answers_new [OF assms(1)] assms(2)]
    Reconcile_answers_sync [OF assms(1) _ _ assms(2)]
  by auto

text \<open>The same of a ClusterAccessMapping.\<close>

lemma camFinalizeBindings_clear:
  assumes "camFinalizeBindings r cam w = (Inr g, w')"
  shows "g \<longleftrightarrow> camNoneOwned live cam (ext w)"
proof -
  from assms obtain items w1 where 1:
    "api VLiveList KClusterRoleBinding ([], []) (e_live_crb r (camOwned cam)) w = (Inr items, w1)"
    unfolding camFinalizeBindings_def by (blast dest: bindE_result)
  have "items = [] \<longleftrightarrow> camNoneOwned live cam (ext w)"
    using live_cam_list(2) [OF 1 refl] by (auto simp: noneOwnedAt_def) (metis list.set_intros(1) neq_Nil_conv)
  moreover from assms 1 have "g \<longleftrightarrow> items = []"
    by (auto simp: camFinalizeBindings_def bindE_def ret_def split: if_splits prod.splits sum.splits)
  ultimately show ?thesis by simp
qed

lemma camReconcile_answers_leaving:
  assumes "cache (ext w) (KClusterAccessMapping, q) = Some (OClusterAccess cam)" and "terminating (ca_meta cam)"
  shows "wp (camReconcile r q) (\<lambda>x w'. \<exists>out. x = Inr out \<and>
    answers_leaving KClusterAccessMapping q (camNoneOwned live cam (ext w)) w' out) w"
  unfolding camReconcile_def wp_bindE wp_attempt
proof (rule cam.wp_get, goal_cases)
  case (2 e s')
  with assms(1) show ?case by (auto simp: answers_leaving_def)
next
  case (1 ob s')
  then have ob: "ob = cam" and key: "meta_key (ca_meta cam) = q"
    using assms(1) cam.cache_key [OF assms(1)] by simp_all
  have same: "camNoneOwned live cam s' = camNoneOwned live cam (ext w)"
    using touches_live [OF 1(1)] by (simp add: noneOwnedAt_def)
  show ?case
    unfolding sum.case ob if_P [OF assms(2)] wp_bindE wp_attempt
  proof (rule wpI, goal_cases)
    case (1 g w1)
    show ?case
    proof (cases g)
      case (Inr b)
      with camFinalizeBindings_clear [OF 1 [unfolded Inr]] same show ?thesis
        by (auto simp: asked_def answers_leaving_def camPatchFinalizer_def wp_api key as_error_def split: prod.split sum.split)
    qed (simp add: answers_leaving_def)
  qed
qed

lemma camReconcile_answers_new:
  assumes "cache (ext w) (KClusterAccessMapping, q) = Some (OClusterAccess cam)"
    and "\<not> terminating (ca_meta cam)" and "Finalizer \<notin> set (om_finalizers (ca_meta cam))"
  shows "wp (camReconcile r q) (\<lambda>x w'. \<exists>out. x = Inr out \<and> answers_new KClusterAccessMapping q w' out) w"
  unfolding camReconcile_def wp_bindE wp_attempt
proof (rule cam.wp_get, goal_cases)
  case (2 e s')
  with assms(1) show ?case by (auto simp: answers_new_def)
next
  case (1 ob s')
  then have "ob = cam" and "meta_key (ca_meta cam) = q"
    using assms(1) cam.cache_key [OF assms(1)] by simp_all
  then show ?case
    using assms(2,3)
    by (auto simp: asked_def answers_new_def camPatchFinalizer_def wp_api as_error_def containsFinalizer_iff split: prod.split sum.split)
qed

lemma camReconcile_answers_sync:
  assumes "cache (ext w) (KClusterAccessMapping, q) = Some (OClusterAccess cam)"
    and "\<not> terminating (ca_meta cam)" and "Finalizer \<in> set (om_finalizers (ca_meta cam))"
    and "camReconcile r q w = (x, w')"
  shows "\<exists>out. x = Inr out \<and>
    answers_sync r KClusterAccessMapping q (synced_with live cache KClusterAccessMapping q (camSync r cam) w) w' out"
  using assms
proof (cases rule: camReconcile_active)
  case (unread e s')
  then show ?thesis by (simp add: answers_sync_def)
next
  case (ran s1 y w2 st)
  have "meta_key (ca_meta cam) = q" using cam.cache_key [OF assms(1)] by simp
  with camStatus_asked [OF ran(3)] have "asked KClusterAccessMapping q w' VStatusPatch (\<not> isl st)" by simp
  moreover have "synced_with live cache KClusterAccessMapping q (camSync r cam) w (as_error y)"
    using ran(1,2) by (auto simp: synced_with_def)
  ultimately show ?thesis using answers_synced ran(4) by blast
qed

lemma camReconcile_answers:
  assumes "cache (ext w) (KClusterAccessMapping, q) = Some (OClusterAccess cam)" and "camReconcile r q w = (x, w')"
  shows "\<exists>out. x = Inr out \<and>
    (if terminating (ca_meta cam) then answers_leaving KClusterAccessMapping q (camNoneOwned live cam (ext w)) w' out
     else if Finalizer \<notin> set (om_finalizers (ca_meta cam)) then answers_new KClusterAccessMapping q w' out
     else answers_sync r KClusterAccessMapping q (synced_with live cache KClusterAccessMapping q (camSync r cam) w) w' out)"
  using wpD [OF camReconcile_answers_leaving [OF assms(1)] assms(2)] wpD [OF camReconcile_answers_new [OF assms(1)] assms(2)]
    camReconcile_answers_sync [OF assms(1) _ _ assms(2)]
  by auto

end

end
