(* ===== verification/Support_Properties.thy ===== *)
theory Support_Properties
  imports Rest_Examples Outcomes
begin

text \<open>
  Properties of what the reconcilers share: names and keys, the metadata of the Namespace, messages,
  retries, and the requests a watch enqueues.
\<close>

section \<open>Names\<close>

text \<open>C34. A binding name never panics: the digest is long enough for the slice, and what comes out is 25
  characters, the prefix and 20 lower-case hexadecimal digits, whatever the bytes that went in; so it
  is always a legal object name.\<close>

theorem binding_name_legal:
  "\<exists>n. BindingName_opt owner subject role = Some n \<and> take 5 n = ''k8sc-'' \<and> length n = 25 \<and>
     set (drop 5 n) \<subseteq> set ''0123456789abcdef''"
proof -
  have "set (drop 5 (BindingName owner subject role)) \<subseteq> hex_alphabet"
    using set_Hash set_take_subset by (fastforce simp: BindingName_def)
  then show ?thesis
    using BindingName_no_panic [of owner subject role] length_BindingName [of owner subject role]
    by (auto simp: BindingName_def)
qed

text \<open>C33. Names identify bindings: if no two byte strings the spec makes the controller hash collide, and
  no name in it holds a NUL byte, then two entries of a spec that get the same binding name ask for
  the same role and the same subjects. This is the side condition of convergence.\<close>

theorem binding_names_consistent:
  assumes "no_NUL (mn_name mns)" and "list_all clean_mapping (sp_accessMappings (mn_spec mns))"
    and "collisionFree (mn_name mns) (entries mns)"
  shows "namesConsistent mns"
  by (rule namesConsistent_collisionFree [OF assms])

theorem binding_names_consistent_witness: "namesConsistent ex_mns"
proof -
  have "take 20 (Hash (name_preimage ''team-a'' ''g:devs'' ''view'')) \<noteq>
      take 20 (Hash (name_preimage ''team-a'' ''g:devs'' ''gone''))"
    using BindingName_eq_iff [of "''team-a''" "''g:devs''" "''view''" "''team-a''" "''g:devs''" "''gone''"]
    by (simp add: ex_name_view ex_name_gone)
  then have "collisionFree ''team-a'' (entries ex_mns)"
    by (auto simp: collisionFree_def hashed_names_def hashed_users_def ex_entries ex_mapping_def subjectKey_def)
  moreover have "clean_mapping ex_mapping" "no_NUL ''team-a''"
    by (simp_all add: clean_mapping_def no_NUL_def ex_mapping_def NUL_def char_of_def)
  ultimately show ?thesis using binding_names_consistent [of ex_mns] by simp
qed

text \<open>C35. Order and repetition of a mapping's users do not matter: two mappings of one group or of the
  same set of users have the same key, hence the same binding names, and the same subjects, each of
  them once.\<close>

theorem users_are_a_set:
  assumes "am_group a = am_group b" and "set (am_users a) = set (am_users b)"
  shows "subjectKey a = subjectKey b \<and> subjectsFor a = subjectsFor b \<and> distinct (subjectsFor a)"
proof -
  have "normalizedUsers (am_users a) = normalizedUsers (am_users b)"
    by (simp add: normalizedUsers_set assms(2))
  then show ?thesis
    using assms(1) by (auto simp: subjectKey_def subjectsFor_def normalizedUsers_set distinct_map inj_on_def)
qed

text \<open>A mapping that grants \<open>view\<close> to some users.\<close>

definition users_mapping :: "string list \<Rightarrow> access_mapping" where
  "users_mapping us = \<lparr>am_group = [], am_users = us, am_clusterRoles = [''view'']\<rparr>"

theorem users_are_a_set_witness:
  "subjectKey (users_mapping [''bo'', ''al'', ''bo'']) = subjectKey (users_mapping [''al'', ''bo''])"
  by (rule users_are_a_set [THEN conjunct1]) (auto simp: users_mapping_def)

text \<open>C36. The key does not tell every two user sets apart: a user name that holds a NUL byte joins into
  the same bytes as two users. Both mappings pass the admission markers, get the same key and so the
  same binding name for a role, and disagree on its subjects.\<close>

theorem key_collides_on_NUL:
  "valid_access_mapping (users_mapping [''al'' @ NUL @ ''bo'']) \<and> valid_access_mapping (users_mapping [''al'', ''bo'']) \<and>
   BindingName owner (subjectKey (users_mapping [''al'' @ NUL @ ''bo''])) role =
     BindingName owner (subjectKey (users_mapping [''al'', ''bo''])) role \<and>
   set (subjectsFor (users_mapping [''al'' @ NUL @ ''bo''])) \<noteq> set (subjectsFor (users_mapping [''al'', ''bo'']))"
    (is "valid_access_mapping ?a \<and> valid_access_mapping ?b \<and> _")
proof -
  have a: "normalizedUsers (am_users ?a) = [''al'' @ NUL @ ''bo'']"
    and b: "normalizedUsers (am_users ?b) = [''al'', ''bo'']"
    by (simp_all add: users_mapping_def normalizedUsers_def NUL_def)
  then have "subjectKey ?a = subjectKey ?b" by (simp add: users_mapping_def subjectKey_def)
  moreover have "mk_subject ''User'' ''al'' \<in> set (subjectsFor ?b)" "mk_subject ''User'' ''al'' \<notin> set (subjectsFor ?a)"
    using a b by (simp_all add: subjectsFor_def users_mapping_def)
  moreover have "valid_access_mapping ?a" "valid_access_mapping ?b"
    by (simp_all add: valid_access_mapping_def users_mapping_def)
  ultimately show ?thesis by auto
qed

section \<open>The metadata of the Namespace\<close>

text \<open>C26. The mutation of the Namespace never writes to a nil map, and fails exactly if the inventory
  annotation does not decode, with that error.\<close>

theorem namespace_mutation_total:
  "(\<exists>ns'. mutateNamespace mns ns = Inr ns' \<and> (\<exists>i. namespaceMetadataInventory ns = Inr i)) \<or>
   (\<exists>p d. mutateNamespace mns ns = Inl (WrappedError p (JsonError d)) \<and>
      namespaceMetadataInventory ns = Inl (WrappedError p (JsonError d)))"
proof (cases "namespaceMetadataInventory ns")
  case (Inl e)
  then have "\<exists>p d. e = WrappedError p (JsonError d)"
    by (auto simp: namespaceMetadataInventory_def Let_def split: if_splits option.splits)
  with Inl show ?thesis using mutateNamespace_Inl [of mns ns e] by auto
next
  case (Inr i)
  then show ?thesis using mutateNamespace_updated [OF Inr, of mns] by blast
qed

text \<open>C24. A change of the spec hands the metadata over: after the mutation for an old spec and then the
  mutation for a new one, every label and annotation the new spec or the controller wants has its
  value, every other key of the old spec and of the inventory found at first is gone, and every key
  of someone else is as it was.\<close>

theorem namespace_metadata_handover:
  assumes "namespaceMetadataInventory ns = Inr i" and "good_keys (mn_spec old)"
    and "mutateNamespace old ns = Inr ns1" and "mutateNamespace new ns1 = Inr ns2"
  shows "gomap_get (om_labels (ns_meta ns2)) k =
      (case wanted_label new k of Some v \<Rightarrow> Some v
       | None \<Rightarrow> if wanted_label old k \<noteq> None \<or> k \<in> set (nm_labels i) then None
           else gomap_get (om_labels (ns_meta ns)) k) \<and>
    gomap_get (om_annotations (ns_meta ns2)) k =
      (case wanted_annotation new k of Some v \<Rightarrow> Some v
       | None \<Rightarrow> if wanted_annotation old k \<noteq> None \<or> k \<in> set (nm_annotations i) then None
           else gomap_get (om_annotations (ns_meta ns)) k)"
proof -
  from mutateNamespace_updated [OF assms(1), of old] assms(3) obtain ls as where 1:
    "ns1 = ns\<lparr>ns_meta := (ns_meta ns)\<lparr>om_labels := ls, om_annotations := as\<rparr>\<rparr>"
    "gomap_get ls = updated (wanted_label old) (nm_labels i) (gomap_get (om_labels (ns_meta ns)))"
    "gomap_get as = updated (wanted_annotation old) (nm_annotations i) (gomap_get (om_annotations (ns_meta ns)))"
    by (metis Inr_inject)
  have "namespaceMetadataInventory ns1 = Inr (wanted_inventory (mn_spec old))"
    by (rule mutateNamespace_inventory [OF assms(3,2)])
  from mutateNamespace_updated [OF this, of new] assms(4) obtain ls' as' where 2:
    "ns2 = ns1\<lparr>ns_meta := (ns_meta ns1)\<lparr>om_labels := ls', om_annotations := as'\<rparr>\<rparr>"
    "gomap_get ls' = updated (wanted_label new) (nm_labels (wanted_inventory (mn_spec old)))
       (gomap_get (om_labels (ns_meta ns1)))"
    "gomap_get as' = updated (wanted_annotation new) (nm_annotations (wanted_inventory (mn_spec old)))
       (gomap_get (om_annotations (ns_meta ns1)))"
    by (metis Inr_inject)
  have "wanted_label new k = None \<Longrightarrow>
      k \<in> set (nm_labels (wanted_inventory (mn_spec old))) \<longleftrightarrow> wanted_label old k \<noteq> None"
    "wanted_annotation new k = None \<Longrightarrow>
      k \<in> set (nm_annotations (wanted_inventory (mn_spec old))) \<longleftrightarrow> wanted_annotation old k \<noteq> None"
    by (auto simp: set_wanted_inventory wanted_label_def wanted_annotation_def fmlookup_dom_iff split: if_splits)
  then show ?thesis by (auto simp: 1 2 updated_def split: option.split)
qed

text \<open>Another controller's label stays; the label of the old spec goes.\<close>

definition labelled_mns :: "(string, string) fmap \<Rightarrow> managed_namespace" where
  "labelled_mns ls = ex_mns\<lparr>mn_spec := (mn_spec ex_mns)\<lparr>sp_labels := ls\<rparr>\<rparr>"

definition ex_foreign_ns :: namespace_obj where
  "ex_foreign_ns = \<lparr>ns_meta = (ex_meta [] ''team-a'')\<lparr>om_labels := Some (fmupd ''mesh'' ''on'' fmempty)\<rparr>\<rparr>"

theorem namespace_metadata_handover_witness:
  "\<exists>ns1 ns2. mutateNamespace (labelled_mns (fmupd ''tier'' ''gold'' fmempty)) ex_foreign_ns = Inr ns1 \<and>
     mutateNamespace (labelled_mns fmempty) ns1 = Inr ns2 \<and>
     gomap_get (om_labels (ns_meta ns2)) ''mesh'' = Some ''on'' \<and>
     gomap_get (om_labels (ns_meta ns2)) ''tier'' = None"
proof -
  let ?old = "labelled_mns (fmupd ''tier'' ''gold'' fmempty)" and ?new = "labelled_mns fmempty"
  have good: "good_keys (mn_spec ?old)" by code_simp
  have start: "namespaceMetadataInventory ex_foreign_ns = Inr empty_inventory" by code_simp
  from mutateNamespace_updated [OF start, of ?old] obtain ns1 where 1: "mutateNamespace ?old ex_foreign_ns = Inr ns1"
    by metis
  from mutateNamespace_updated [OF mutateNamespace_inventory [OF 1 good], of ?new] obtain ns2 where
    2: "mutateNamespace ?new ns1 = Inr ns2" by metis
  have "wanted_label ?new ''mesh'' = None" "wanted_label ?new ''tier'' = None"
    "wanted_label ?old ''mesh'' = None" "wanted_label ?old ''tier'' = Some ''gold''"
    by (simp_all add: wanted_label_def labelled_mns_def ex_mns_def LabelOwnerName_def LabelManagedBy_def)
  with namespace_metadata_handover [OF start good 1 2, of "''mesh''"]
    namespace_metadata_handover [OF start good 1 2, of "''tier''"]
  have "gomap_get (om_labels (ns_meta ns2)) ''mesh'' = Some ''on''"
    "gomap_get (om_labels (ns_meta ns2)) ''tier'' = None"
    by (simp_all add: empty_inventory_def ex_foreign_ns_def)
  with 1 2 show ?thesis by blast
qed

text \<open>C25. The inventory reads back as what was written: after the mutation the annotation decodes to the
  sorted keys of the spec's labels and of its annotations but the controller's own; and mutating
  again with the same spec changes nothing.\<close>

theorem namespace_inventory_roundtrip:
  assumes "mutateNamespace mns ns = Inr ns'" and "good_keys (mn_spec mns)"
  shows "namespaceMetadataInventory ns' = Inr (wanted_inventory (mn_spec mns)) \<and>
    mutateNamespace mns ns' = Inr ns'"
  using mutateNamespace_inventory [OF assms] mutateNamespace_idem [OF assms] by blast

theorem namespace_inventory_roundtrip_witness:
  "\<exists>ns'. mutateNamespace (labelled_mns (fmupd ''tier'' ''gold'' fmempty)) ex_foreign_ns = Inr ns' \<and>
     namespaceMetadataInventory ns' = Inr \<lparr>nm_labels = [''tier''], nm_annotations = []\<rparr>"
proof -
  let ?mns = "labelled_mns (fmupd ''tier'' ''gold'' fmempty)"
  have good: "good_keys (mn_spec ?mns)" by code_simp
  have start: "namespaceMetadataInventory ex_foreign_ns = Inr empty_inventory" by code_simp
  have inv: "wanted_inventory (mn_spec ?mns) = \<lparr>nm_labels = [''tier''], nm_annotations = []\<rparr>" by code_simp
  from mutateNamespace_updated [OF start, of ?mns] obtain ns1 where 1: "mutateNamespace ?mns ex_foreign_ns = Inr ns1"
    by metis
  from namespace_inventory_roundtrip [OF 1 good] 1 inv show ?thesis by auto
qed

section \<open>Reporting errors\<close>

text \<open>C37. The message of a failed pass fits into a condition: it is the error's text if that has at most
  1024 bytes; a longer text is cut to between 1021 and 1024 bytes at a character boundary and ends in
  an ellipsis. So it has at most 1027 bytes, and it is valid UTF-8 if the text was.\<close>

theorem condition_message_bounded:
  assumes "valid_utf8 (error_text (jsonErrorText r) e)"
  shows "length (conditionMessage r e) \<le> 1027 \<and> valid_utf8 (conditionMessage r e) \<and>
    (if length (error_text (jsonErrorText r) e) \<le> 1024
     then conditionMessage r e = error_text (jsonErrorText r) e
     else \<exists>j. 1021 \<le> j \<and> j \<le> 1024 \<and>
       conditionMessage r e = take j (error_text (jsonErrorText r) e) @ ellipsis)"
  using assms bound_message_length [of "error_text (jsonErrorText r) e"]
    bound_message_valid [of "error_text (jsonErrorText r) e"]
    bound_message_prefix [of "error_text (jsonErrorText r) e"]
  by (simp add: conditionMessage_def) (simp add: bound_message_def)

theorem condition_message_bounded_witness:
  "length (conditionMessage mem_env (ApiError ''Invalid'' (replicate 5000 (CHR ''x'')))) \<le> 1027"
proof -
  have "valid_utf8 (replicate n (CHR ''x''))" for n
  proof (induction n)
    case (Suc n)
    have "valid_utf8 ''x''" by code_simp
    from valid_utf8_append [OF this Suc] show ?case by simp
  qed simp
  then show ?thesis
    using condition_message_bounded [of mem_env "ApiError ''Invalid'' (replicate 5000 (CHR ''x''))"] by simp
qed

lemma ex_leaving_pass:
  "\<exists>w'. Reconcile mem_env ([], ''team-a'') (ex_world (ex_mns_store ex_mns_leaving) []) =
     (Inr (empty_result\<lparr>r_requeueAfter := finalizerRetryAfter\<rparr>, None), w')"
  by (simp add: eval_all eval_mns)

lemma ex_leaving_cached: "mem_cache (ext (ex_world (ex_mns_store ex_mns_leaving) fs)) (KManagedNamespace, [], ''team-a'') =
    Some (OManagedNamespace ex_mns_leaving)"
  by (simp add: eval_all)

lemma ex_leaving_owned: "\<not> noneOwned mem_live ex_mns_leaving (ext (ex_world (ex_mns_store ex_mns_leaving) fs))"
proof -
  have "mem_live (ext (ex_world (ex_mns_store ex_mns_leaving) fs)) (KRoleBinding, ''team-a'', ''old'') =
      Some (OBinding (ex_stale ''team-a'' ''team-a''))"
    by (simp add: eval_all)
  moreover have "b_key (ex_stale ''team-a'' ''team-a'') = (''team-a'', ''old'')"
    "selects (ownedBy ex_mns_leaving) (b_meta (ex_stale ''team-a'' ''team-a''))"
    by (simp_all add: eval_all ownedBy_def)
  ultimately show ?thesis by (auto simp: noneOwnedAt_def intro!: exI [of _ "ex_stale ''team-a'' ''team-a''"])
qed

lemma ex_failing_pass:
  "\<exists>e v'. camReconcile mem_env ([], ''ops'') (ex_world (ex_cam_store ex_cam) [False, True]) =
       (Inr (empty_result, Some (Retry e)), v') \<and>
     asked KClusterAccessMapping ([], ''ops'') v' VStatusPatch True"
  by (simp add: eval_all eval_cam asked_def)

text \<open>C23. What a reconcile of either kind returns says why. A pass over a resource on its way out asks to be
  run again after the delay exactly if, without an error, the server held an owned binding when it
  began; if it held none, no error means that the finalizer was taken off. A pass over a resource without
  the finalizer asks to be run again at once, and fails exactly if that patch was refused. Any other pass
  returns the error of its sync: none if the sync had none, for good if the server calls it Invalid, for
  another try otherwise, and joined to the error of the status patch if that was refused.\<close>

theorem reconcile_outcomes:
  assumes "kube_env r live cache"
    and "cache (ext w) (KManagedNamespace, q) = Some (OManagedNamespace mns)" and "Reconcile r q w = (x, w')"
    and "cache (ext v) (KClusterAccessMapping, p) = Some (OClusterAccess cam)" and "camReconcile r p v = (y, v')"
  shows "(\<exists>out. x = Inr out \<and>
      (if terminating (mn_meta mns) then answers_leaving KManagedNamespace q (noneOwned live mns (ext w)) w' out
       else if Finalizer \<notin> set (om_finalizers (mn_meta mns)) then answers_new KManagedNamespace q w' out
       else answers_sync r KManagedNamespace q (synced_with live cache KManagedNamespace q (sync r mns) w) w' out)) \<and>
    (\<exists>out. y = Inr out \<and>
      (if terminating (ca_meta cam) then answers_leaving KClusterAccessMapping p (camNoneOwned live cam (ext v)) v' out
       else if Finalizer \<notin> set (om_finalizers (ca_meta cam)) then answers_new KClusterAccessMapping p v' out
       else answers_sync r KClusterAccessMapping p (synced_with live cache KClusterAccessMapping p (camSync r cam) v) v' out))"
  using kube_env.Reconcile_answers [OF assms(1,2,3)] kube_env.camReconcile_answers [OF assms(1,4,5)] by blast

text \<open>
  A terminating resource with a binding left is tried again after the delay; a sync whose first lookup
  fails is tried again with that error.
\<close>

theorem reconcile_outcomes_witness:
  "\<exists>x w' y v' e. Reconcile mem_env ([], ''team-a'') (ex_world (ex_mns_store ex_mns_leaving) []) = (Inr x, w') \<and>
     answers_leaving KManagedNamespace ([], ''team-a'') False w' x \<and>
     x = (empty_result\<lparr>r_requeueAfter := finalizerRetryAfter\<rparr>, None) \<and>
     camReconcile mem_env ([], ''ops'') (ex_world (ex_cam_store ex_cam) [False, True]) = (Inr y, v') \<and>
     synced_with mem_live mem_cache KClusterAccessMapping ([], ''ops'') (camSync mem_env ex_cam)
       (ex_world (ex_cam_store ex_cam) [False, True]) (Some e) \<and> y = (empty_result, Some (Retry e))"
proof -
  let ?w = "ex_world (ex_mns_store ex_mns_leaving) []" and ?v = "ex_world (ex_cam_store ex_cam) [False, True]"
  obtain w' where w': "Reconcile mem_env ([], ''team-a'') ?w = (Inr (empty_result\<lparr>r_requeueAfter := finalizerRetryAfter\<rparr>, None), w')"
    using ex_leaving_pass by blast
  obtain v' e where v': "camReconcile mem_env ([], ''ops'') ?v = (Inr (empty_result, Some (Retry e)), v')"
    "asked KClusterAccessMapping ([], ''ops'') v' VStatusPatch True"
    using ex_failing_pass by blast
  have "\<not> noneOwned mem_live ex_mns_leaving (ext ?w)"
    using ex_leaving_owned by blast
  with reconcile_outcomes [OF mem_kube_env ex_leaving_cached w' ex_cam_cached v'(1)] ex_leaving(1) v' w'
  show ?thesis by (auto simp: answers_sync_def asked_def split: if_splits)
qed

section \<open>What triggers a pass\<close>

context kind_laws begin

lemma list_covers:
  assumes "k_list cl [] s = (Inr obs, s')" and "cache s (kd, k) = Some x"
  shows "k \<in> (\<lambda>ob. meta_key (meta ob)) ` set obs"
proof -
  obtain ob where x: "x = wrap ob" using cache_typed [OF assms(2)] by blast
  with assms(2) have key: "meta_key (meta ob) = k" using cache_key by blast
  then have "ob \<in> set obs" using list_items [OF assms(1), of ob] assms(2) x by (simp add: selects_def)
  with key show ?thesis by blast
qed

end

context kube_env begin

lemma all_requests_cover:
  "\<exists>qs w'. all_requests r m w = (Inr qs, w') \<and>
     ((\<forall>k. cache (ext w) (KManagedNamespace, k) \<noteq> None \<longrightarrow> k \<in> set qs) \<or>
      qs = [] \<and> (\<exists>xs. last (trace w') = LogError xs None))"
proof (cases "k_list (e_mns r) [] (ext w)")
  case (Pair x s')
  show ?thesis
  proof (cases x)
    case (Inl e)
    with Pair show ?thesis
      by (simp add: all_requests_def bindE_def attempt_def api_def emit_def ret_def)
  next
    case (Inr obs)
    with Pair have "k \<in> (\<lambda>m. meta_key (mn_meta m)) ` set obs"
      if "cache (ext w) (KManagedNamespace, k) = Some x" for k x
      using mns.list_covers that by simp
    with Pair Inr show ?thesis
      by (auto simp: all_requests_def bindE_def attempt_def api_def ret_def)
  qed
qed

lemma camAllRequests_cover:
  "\<exists>qs w'. camAllRequests r m w = (Inr qs, w') \<and>
     ((\<forall>k. cache (ext w) (KClusterAccessMapping, k) \<noteq> None \<longrightarrow> k \<in> set qs) \<or>
      qs = [] \<and> (\<exists>xs. last (trace w') = LogError xs None))"
proof (cases "k_list (e_cam r) [] (ext w)")
  case (Pair x s')
  show ?thesis
  proof (cases x)
    case (Inl e)
    with Pair show ?thesis
      by (simp add: camAllRequests_def bindE_def attempt_def api_def emit_def ret_def)
  next
    case (Inr obs)
    with Pair have "k \<in> (\<lambda>c. meta_key (ca_meta c)) ` set obs"
      if "cache (ext w) (KClusterAccessMapping, k) = Some x" for k x
      using cam.list_covers that by simp
    with Pair Inr show ?thesis
      by (auto simp: camAllRequests_def bindE_def attempt_def api_def ret_def)
  qed
qed

end

text \<open>C38. An event on an object the controller wrote enqueues its owner and nothing else: for a
  Namespace, a quota or a RoleBinding the ManagedNamespace, for a ClusterRoleBinding the mapping.\<close>

theorem own_object_enqueues_owner:
  assumes "mutateNamespace mns ns = Inr ns'" and "mutateQuota mns q rq = Inr rq'"
    and "mutateBinding (mn_name mns) ref subs b = Inr b'" and "mutateBinding (ca_name cam) cref csubs c = Inr c'"
    and "mn_name mns \<noteq> []" and "ca_name cam \<noteq> []"
  shows "enqueued r KNamespace (ns_meta ns') w = (Inr [([], mn_name mns)], w) \<and>
    enqueued r KResourceQuota (q_meta rq') w = (Inr [([], mn_name mns)], w) \<and>
    enqueued r KRoleBinding (b_meta b') w = (Inr [([], mn_name mns)], w) \<and>
    camEnqueued r KClusterRoleBinding (b_meta c') w = (Inr [([], ca_name cam)], w)"
proof -
  obtain i where i: "namespaceMetadataInventory ns = Inr i"
    using assms(1) mutateNamespace_Inl [of mns ns] by (cases "namespaceMetadataInventory ns") auto
  have "owned_by (mn_name mns) (ns_meta ns')"
  proof (rule mutateNamespace_updated [OF i, of mns], goal_cases)
    case (1 ls as)
    then show ?case using assms(1) by (auto simp: owned_by_iff wanted_label_def)
  qed
  moreover have "owned_by (mn_name mns) (q_meta rq')" "owned_by (mn_name mns) (b_meta b')"
    "owned_by (ca_name cam) (b_meta c')"
    using assms(2-4) by (auto simp: mutateQuota_def mutateBinding_def owned_by_ownerLabels)
  ultimately show ?thesis
    using assms(5,6) by (simp add: enqueued_def camEnqueued_def ret_def ownerRequests_owned)
qed

theorem own_object_enqueues_owner_witness:
  "\<exists>b'. mutateBinding ''team-a'' (clusterRoleRef ''view'') [] (binding_template ''team-a'' ''n'') = Inr b' \<and>
     enqueued mem_env KRoleBinding (b_meta b') (ex_world [] []) = (Inr [([], ''team-a'')], ex_world [] [])"
proof -
  have start: "namespaceMetadataInventory ex_foreign_ns = Inr empty_inventory" by code_simp
  obtain ns' where 1: "mutateNamespace ex_mns ex_foreign_ns = Inr ns'"
    using mutateNamespace_updated [OF start, of ex_mns] by metis
  obtain b' where 2: "mutateBinding (mn_name ex_mns) (clusterRoleRef ''view'') [] (binding_template ''team-a'' ''n'') = Inr b'"
    by (simp add: mutateBinding_def)
  obtain c' where 3: "mutateBinding (ca_name ex_cam) (clusterRoleRef ''view'') [] (binding_template [] ''n'') = Inr c'"
    by (simp add: mutateBinding_def)
  obtain rq' where 4: "mutateQuota ex_mns \<lparr>rq_name = ''q'', rq_spec = empty_quota_spec\<rparr>
      (quota_template ex_mns \<lparr>rq_name = ''q'', rq_spec = empty_quota_spec\<rparr>) = Inr rq'"
    by (simp add: mutateQuota_def)
  from own_object_enqueues_owner [OF 1 4 2 3, of mem_env "ex_world [] []"] 2 show ?thesis by simp
qed

text \<open>The requests are those for the owner the labels name, if they name one.\<close>

definition requests_owner :: "object_meta \<Rightarrow> objkey list \<Rightarrow> bool" where
  "requests_owner m qs \<longleftrightarrow> set qs = (\<lambda>n. ([], n)) ` {n. n \<noteq> [] \<and> owned_by n m}"

text \<open>An event on any other Namespace, quota or binding enqueues nothing: a request stands only for
  the owner that the object's own labels name.\<close>

lemma foreign_object_enqueues_nothing:
  "(\<exists>qs. enqueued r KNamespace m w = (Inr qs, w) \<and> requests_owner m qs) \<and>
   (\<exists>qs. enqueued r KResourceQuota m w = (Inr qs, w) \<and> requests_owner m qs) \<and>
   (\<exists>qs. enqueued r KRoleBinding m w = (Inr qs, w) \<and> requests_owner m qs) \<and>
   (\<exists>qs. camEnqueued r KClusterRoleBinding m w = (Inr qs, w) \<and> requests_owner m qs)"
proof -
  have "requests_owner m (ownerRequests m)"
    by (auto simp: requests_owner_def ownerRequests_def owned_by_iff gomap_str_def
        split: option.splits if_splits)
  then show ?thesis by (auto simp: enqueued_def camEnqueued_def ret_def)
qed

text \<open>C39. A change of a ClusterRole reaches every dependent: it enqueues every ManagedNamespace, and
  every ClusterAccessMapping, that the cache holds, unless the cache cannot be listed, and then the
  failure is logged and nothing is enqueued.\<close>

theorem role_change_enqueues_all:
  assumes "kube_env r live cache"
  shows "(\<exists>qs w'. enqueued r KClusterRole m w = (Inr qs, w') \<and>
      ((\<forall>k. cache (ext w) (KManagedNamespace, k) \<noteq> None \<longrightarrow> k \<in> set qs) \<or>
       qs = [] \<and> (\<exists>xs. last (trace w') = LogError xs None))) \<and>
    (\<exists>qs w'. camEnqueued r KClusterRole m w = (Inr qs, w') \<and>
      ((\<forall>k. cache (ext w) (KClusterAccessMapping, k) \<noteq> None \<longrightarrow> k \<in> set qs) \<or>
       qs = [] \<and> (\<exists>xs. last (trace w') = LogError xs None)))"
  using kube_env.all_requests_cover [OF assms] kube_env.camAllRequests_cover [OF assms]
  by (simp add: enqueued_def camEnqueued_def)

theorem role_change_enqueues_all_witness:
  "\<exists>qs w'. enqueued mem_env KClusterRole (ex_meta [] ''view'') (ex_world (ex_mns_store ex_mns) []) = (Inr qs, w') \<and>
     ([], ''team-a'') \<in> set qs"
proof -
  let ?w = "ex_world (ex_mns_store ex_mns) []"
  have "\<exists>qs w'. enqueued mem_env KClusterRole (ex_meta [] ''view'') ?w = (Inr qs, w') \<and> qs \<noteq> []"
    by (simp add: enqueued_def all_requests_def eval_all)
  then obtain qs w' where *: "enqueued mem_env KClusterRole (ex_meta [] ''view'') ?w = (Inr qs, w')" "qs \<noteq> []" by blast
  have "mem_cache (ext ?w) (KManagedNamespace, [], ''team-a'') \<noteq> None" by (simp only: ex_mns_cached) simp
  with role_change_enqueues_all [OF mem_kube_env, of "ex_meta [] ''view''" ?w] * show ?thesis by auto
qed

end
