(* ===== verification/Viewer.thy ===== *)
theory Viewer
  imports Kube_Api Json "HOL-Library.Multiset"
begin

text \<open>
  \<open>internal/server/server.go\<close> and \<open>metrics.go\<close>: the read-only HTTP viewer. A handler is a sequence of
  operations on its \<open>http.ResponseWriter\<close>; the metrics endpoint and the file server, which are not the
  program's, are arguments.
\<close>

section \<open>Requests and routes\<close>

text \<open>\<open>rq_escapedPath\<close> is \<open>r.URL.EscapedPath()\<close>, the path as it came; a request whose escapes are
  malformed is refused before any handler runs.\<close>

record request =
  rq_method :: string
  rq_escapedPath :: string

fun split_slash :: "string \<Rightarrow> string list" where
  "split_slash [] = [[]]"
| "split_slash (c # s) =
     (if c = CHR ''/'' then [] # split_slash s
      else case split_slash s of [] \<Rightarrow> [[c]] | seg # segs \<Rightarrow> (c # seg) # segs)"

fun unescape :: "string \<Rightarrow> string" where
  "unescape (c # a # b # s) =
     (case (c = CHR ''%'', hex_val a, hex_val b) of
        (True, Some x, Some y) \<Rightarrow> char_of (16 * x + y) # unescape s
      | _ \<Rightarrow> c # unescape (a # b # s))"
| "unescape s = s"

text \<open>The segments a pattern is matched against, and \<open>r.URL.Path\<close>.\<close>

definition path_segments :: "request \<Rightarrow> string list" where
  "path_segments q = map unescape (split_slash (rq_escapedPath q))"

definition rq_path :: "request \<Rightarrow> string" where
  "rq_path q = join_strings ''/'' (path_segments q)"

text \<open>\<open>path.Clean\<close> of a rooted path, and the mux's \<open>cleanPath\<close>, which keeps a final slash.\<close>

fun clean_segments :: "string list \<Rightarrow> string list \<Rightarrow> string list" where
  "clean_segments done [] = rev done"
| "clean_segments done (seg # segs) =
     (if seg = [] \<or> seg = ''.'' then clean_segments done segs
      else if seg = ''..'' then clean_segments (tl done) segs
      else clean_segments (seg # done) segs)"

definition path_Clean :: "string \<Rightarrow> string" where
  "path_Clean p = ''/'' @ join_strings ''/'' (clean_segments [] (split_slash p))"

definition cleanPath :: "string \<Rightarrow> string" where
  "cleanPath p =
     (if p = [] then ''/''
      else let p' = (if hd p \<noteq> CHR ''/'' then CHR ''/'' # p else p); np = path_Clean p' in
        if last p' = CHR ''/'' \<and> np \<noteq> ''/'' then np @ ''/'' else np)"

datatype route = Metrics | Namespaces | ClusterAccess | Files | Redirect string

text \<open>
  The mux of \<open>Handler\<close>: a \<open>GET\<close> pattern also matches \<open>HEAD\<close>, segment by segment; the pattern \<open>/\<close> takes
  every other request, and a path that is not clean is redirected, but for \<open>CONNECT\<close>.
\<close>

definition route_of :: "request \<Rightarrow> route" where
  "route_of q =
     (let p = rq_escapedPath q; segs = path_segments q in
      if rq_method q \<noteq> ''CONNECT'' \<and> cleanPath p \<noteq> p then Redirect (cleanPath p)
      else if rq_method q = ''GET'' \<or> rq_method q = ''HEAD'' then
        (if segs = ['''', ''metrics''] then Metrics
         else if segs = ['''', ''api'', ''v1'', ''managednamespaces''] then Namespaces
         else if segs = ['''', ''api'', ''v1'', ''clusteraccessmappings''] then ClusterAccess
         else Files)
      else Files)"

section \<open>Writing a response\<close>

datatype writer_op = SetHeader string string | WriteHeader int | Write string

record response =
  rs_status :: "int option"
  rs_headers :: "(string, string) fmap"
  rs_body :: string

text \<open>\<open>http.ResponseWriter\<close>: the first final status is sent, and a body without one means 200.\<close>

definition send_header :: "int \<Rightarrow> response \<Rightarrow> response" where
  "send_header c rs =
     (if rs_status rs \<noteq> None \<or> (100 \<le> c \<and> c \<le> 199 \<and> c \<noteq> 101) then rs else rs\<lparr>rs_status := Some c\<rparr>)"

text \<open>\<open>statusRecorder\<close>: the code it was last given, around the writer of the server.\<close>

record statusRecorder =
  sr_ResponseWriter :: response
  sr_code :: int

definition sr_WriteHeader :: "int \<Rightarrow> statusRecorder \<Rightarrow> statusRecorder" where
  "sr_WriteHeader c s = s\<lparr>sr_code := c, sr_ResponseWriter := send_header c (sr_ResponseWriter s)\<rparr>"

fun apply_op :: "writer_op \<Rightarrow> statusRecorder \<Rightarrow> statusRecorder" where
  "apply_op (SetHeader k v) s =
     (let rs = sr_ResponseWriter s in
      if rs_status rs = None then s\<lparr>sr_ResponseWriter := rs\<lparr>rs_headers := fmupd k v (rs_headers rs)\<rparr>\<rparr> else s)"
| "apply_op (WriteHeader c) s = sr_WriteHeader c s"
| "apply_op (Write b) s =
     (let rs = send_header 200 (sr_ResponseWriter s) in s\<lparr>sr_ResponseWriter := rs\<lparr>rs_body := rs_body rs @ b\<rparr>\<rparr>)"

definition new_response :: response where
  "new_response = \<lparr>rs_status = None, rs_headers = fmempty, rs_body = []\<rparr>"

text \<open>What the client sees: a handler that returns without a status has answered 200.\<close>

definition client_status :: "statusRecorder \<Rightarrow> int" where
  "client_status s = (case rs_status (sr_ResponseWriter s) of None \<Rightarrow> 200 | Some c \<Rightarrow> c)"

section \<open>The handlers\<close>

text \<open>\<open>http.Error\<close>.\<close>

definition http_Error :: "string \<Rightarrow> int \<Rightarrow> writer_op list" where
  "http_Error msg code =
     [SetHeader ''Content-Type'' ''text/plain; charset=utf-8'', SetHeader ''X-Content-Type-Options'' ''nosniff'',
      WriteHeader code, Write (msg @ [CHR 0x0A])]"

text \<open>\<open>enc\<close> is the JSON encoder; where it fails nothing is written and the error is dropped.\<close>

definition respond :: "('a \<Rightarrow> string option) \<Rightarrow> (error \<Rightarrow> string) \<Rightarrow> error + 'a \<Rightarrow> writer_op list" where
  "respond enc text l =
     (case l of
        Inl e \<Rightarrow> http_Error (text e) 500
      | Inr v \<Rightarrow> SetHeader ''Content-Type'' ''application/json'' #
          (case enc v of None \<Rightarrow> [] | Some js \<Rightarrow> [Write (js @ [CHR 0x0A])]))"

record 's viewer =
  v_Client :: "'s env"
  v_encode_mns :: "managed_namespace list \<Rightarrow> string option"
  v_encode_cam :: "cluster_access_mapping list \<Rightarrow> string option"
  v_metrics :: "request \<Rightarrow> writer_op list"
  v_files :: "request \<Rightarrow> writer_op list"
  v_redirect :: "string \<Rightarrow> request \<Rightarrow> writer_op list"

definition namespaces :: "'s viewer \<Rightarrow> ('s, writer_op list) io" where
  "namespaces v =
     bindE (attempt (api VList KManagedNamespace ([], []) (k_list (e_mns (v_Client v)) [])))
       (\<lambda>l. ret (respond (v_encode_mns v) (error_text (jsonErrorText (v_Client v))) l))"

definition clusterAccess :: "'s viewer \<Rightarrow> ('s, writer_op list) io" where
  "clusterAccess v =
     bindE (attempt (api VList KClusterAccessMapping ([], []) (k_list (e_cam (v_Client v)) [])))
       (\<lambda>l. ret (respond (v_encode_cam v) (error_text (jsonErrorText (v_Client v))) l))"

definition mux :: "'s viewer \<Rightarrow> request \<Rightarrow> ('s, writer_op list) io" where
  "mux v q =
     (case route_of q of
        Metrics \<Rightarrow> ret (v_metrics v q)
      | Namespaces \<Rightarrow> namespaces v
      | ClusterAccess \<Rightarrow> clusterAccess v
      | Files \<Rightarrow> ret (v_files v q)
      | Redirect p \<Rightarrow> ret (v_redirect v p q))"

section \<open>Instrumentation\<close>

fun digits :: "nat \<Rightarrow> string" where
  "digits n = (if n < 10 then [char_of (48 + n)] else digits (n div 10) @ [char_of (48 + n mod 10)])"

definition Itoa :: "int \<Rightarrow> string" where
  "Itoa i = (if i < 0 then CHR ''-'' # digits (nat (- i)) else digits (nat i))"

definition path_label :: "string \<Rightarrow> string" where
  "path_label p =
     (if p = ''/metrics'' \<or> p = ''/api/v1/managednamespaces'' \<or> p = ''/api/v1/clusteraccessmappings''
      then p else ''static'')"

text \<open>The two vectors: a counter per path and code, and the number of observations per path.\<close>

record http_metrics =
  httpRequests :: "(string \<times> string) multiset"
  httpDuration :: "string multiset"

definition instrument ::
  "(request \<Rightarrow> ('s, writer_op list) io) \<Rightarrow> request \<Rightarrow> http_metrics \<Rightarrow> ('s, statusRecorder \<times> http_metrics) io" where
  "instrument next q m =
     bindE (next q)
       (\<lambda>ops.
          let rec = fold apply_op ops \<lparr>sr_ResponseWriter = new_response, sr_code = 200\<rparr>;
              path = path_label (rq_path q)
          in ret (rec, m\<lparr>httpRequests := add_mset (path, Itoa (sr_code rec)) (httpRequests m),
               httpDuration := add_mset path (httpDuration m)\<rparr>))"

text \<open>\<open>Handler\<close>: the instrumented mux. A server answers requests one after the other.\<close>

definition Handler :: "'s viewer \<Rightarrow> request \<Rightarrow> http_metrics \<Rightarrow> ('s, statusRecorder \<times> http_metrics) io" where
  "Handler v = instrument (mux v)"

definition serve_all :: "'s viewer \<Rightarrow> http_metrics \<Rightarrow> request list \<Rightarrow> ('s, http_metrics) io" where
  "serve_all v = fold_io (\<lambda>m q. bindE (Handler v q m) (\<lambda>(_, m'). ret m'))"

end
