(* ===== verification/Process.thy ===== *)
theory Process
  imports Viewer
begin

text \<open>
  \<open>cmd/k8s-controller/main.go\<close>: the flags, the options they give the manager, the boot sequence, and the
  life of the HTTP server as a step relation between its accept loop, the goroutine that shuts it down,
  and the requests in flight. The manager is an argument: what each call on it returns.
\<close>

section \<open>Flags and options\<close>

text \<open>Durations are in nanoseconds, as in \<open>time\<close>.\<close>

abbreviation (input) second :: int where "second \<equiv> 1000000000"

record flags =
  fl_server :: bool
  fl_noLeaderElect :: bool
  fl_syncPeriod :: int
  fl_listen :: string

definition default_flags :: flags where
  "default_flags = \<lparr>fl_server = False, fl_noLeaderElect = False, fl_syncPeriod = 3600 * second, fl_listen = '':8080''\<rparr>"

record manager_options =
  mo_LeaderElection :: bool
  mo_LeaderElectionID :: string
  mo_SyncPeriod :: int
  mo_BindAddress :: string

definition manager_options :: "flags \<Rightarrow> manager_options" where
  "manager_options fl =
     \<lparr>mo_LeaderElection = (\<not> fl_noLeaderElect fl), mo_LeaderElectionID = ''k8s-controller.k8s.pliu.dev'',
      mo_SyncPeriod = fl_syncPeriod fl,
      mo_BindAddress = (if fl_server fl then ''0'' else fl_listen fl)\<rparr>"

section \<open>Boot\<close>

record serverRunnable =
  sr_addr :: string

definition NeedLeaderElection :: "serverRunnable \<Rightarrow> bool" where
  "NeedLeaderElection r = False"

text \<open>The calls \<open>main\<close> makes that can fail, and what it does of an error.\<close>

datatype boot_step =
    GetConfigOrDie
  | AddClientGoScheme
  | AddApiScheme
  | NewManager manager_options
  | SetupManagedNamespace
  | SetupClusterAccess
  | AddRunnable serverRunnable
  | StartManager

datatype outcome = Returned | Exited | Panicked error

fun on_error :: "boot_step \<Rightarrow> error \<Rightarrow> outcome option" where
  "on_error GetConfigOrDie e = Some Exited"
| "on_error AddClientGoScheme e = None"
| "on_error AddApiScheme e = None"
| "on_error st e = Some (Panicked e)"

fun boot :: "(boot_step \<Rightarrow> 's \<Rightarrow> error option \<times> 's) \<Rightarrow> boot_step list \<Rightarrow> 's \<Rightarrow> boot_step list \<times> outcome \<times> 's" where
  "boot call [] s = ([], Returned, s)"
| "boot call (st # sts) s =
     (case call st s of (r, s') \<Rightarrow>
        (case (case r of None \<Rightarrow> None | Some e \<Rightarrow> on_error st e) of
           Some out \<Rightarrow> ([st], out, s')
         | None \<Rightarrow> (case boot call sts s' of (made, rest) \<Rightarrow> (st # made, rest))))"

definition main_steps :: "flags \<Rightarrow> boot_step list" where
  "main_steps fl =
     [GetConfigOrDie, AddClientGoScheme, AddApiScheme, NewManager (manager_options fl),
      SetupManagedNamespace, SetupClusterAccess] @
     (if fl_server fl then [AddRunnable \<lparr>sr_addr = fl_listen fl\<rparr>] else []) @ [StartManager]"

definition main :: "(boot_step \<Rightarrow> 's \<Rightarrow> error option \<times> 's) \<Rightarrow> flags \<Rightarrow> 's \<Rightarrow> boot_step list \<times> outcome \<times> 's" where
  "main call fl = boot call (main_steps fl)"

section \<open>The HTTP server\<close>

record http_Server =
  hs_Addr :: string
  hs_ReadHeaderTimeout :: int
  hs_ReadTimeout :: int
  hs_WriteTimeout :: int
  hs_IdleTimeout :: int

definition httpServer :: "string \<Rightarrow> http_Server" where
  "httpServer addr =
     \<lparr>hs_Addr = addr, hs_ReadHeaderTimeout = 5 * second, hs_ReadTimeout = 30 * second,
      hs_WriteTimeout = 30 * second, hs_IdleTimeout = 120 * second\<rparr>"

definition shutdownTimeout :: int where
  "shutdownTimeout = 10 * second"

text \<open>What \<open>ListenAndServe\<close> returns, which is never nil, and what \<open>serve\<close> makes of it.\<close>

datatype listen_error = ErrServerClosed | ListenError string

definition serve_result :: "listen_error \<Rightarrow> listen_error option" where
  "serve_result e = (if e \<noteq> ErrServerClosed then Some e else None)"

datatype listener = Idle | Listening | Closed

text \<open>The goroutine: waiting for the context, inside \<open>Shutdown\<close>, or past it, drained or timed out.\<close>

datatype shutdown = Waiting | Draining | Drained | Expired

record 's serving =
  sv_done :: bool
  sv_listener :: listener
  sv_shutdown :: shutdown
  sv_flight :: "request list"
  sv_answered :: "(request \<times> statusRecorder) list"
  sv_metrics :: http_metrics
  sv_world :: "'s world"
  sv_result :: "listen_error option option"

definition serving_init :: "http_metrics \<Rightarrow> 's world \<Rightarrow> 's serving" where
  "serving_init m w =
     \<lparr>sv_done = False, sv_listener = Idle, sv_shutdown = Waiting, sv_flight = [], sv_answered = [],
      sv_metrics = m, sv_world = w, sv_result = None\<rparr>"

datatype serve_event =
    Cancel | Bind | Fail string | Accept request | Answer request
  | BeginShutdown | LoopReturns | DrainReturns | DrainExpires

text \<open>
  \<open>Shutdown\<close> closes the listener, so the accept loop ends with \<open>ErrServerClosed\<close> at once, and then waits
  until nothing is in flight or its own context expires. A request is answered by the viewer.
\<close>

inductive serve_step :: "'s viewer \<Rightarrow> serve_event \<Rightarrow> 's serving \<Rightarrow> 's serving \<Rightarrow> bool" for v where
  cancel: "serve_step v Cancel s (s\<lparr>sv_done := True\<rparr>)"
| bind: "sv_listener s = Idle \<Longrightarrow> sv_shutdown s = Waiting \<Longrightarrow> sv_result s = None \<Longrightarrow>
    serve_step v Bind s (s\<lparr>sv_listener := Listening\<rparr>)"
| fail: "sv_shutdown s = Waiting \<Longrightarrow> sv_result s = None \<Longrightarrow>
    serve_step v (Fail t) s (s\<lparr>sv_listener := Closed, sv_result := Some (serve_result (ListenError t))\<rparr>)"
| accept: "sv_listener s = Listening \<Longrightarrow> serve_step v (Accept q) s (s\<lparr>sv_flight := q # sv_flight s\<rparr>)"
| answer: "q \<in> set (sv_flight s) \<Longrightarrow> Handler v q (sv_metrics s) (sv_world s) = (Inr (rec, m'), w') \<Longrightarrow>
    serve_step v (Answer q) s
      (s\<lparr>sv_flight := remove1 q (sv_flight s), sv_answered := sv_answered s @ [(q, rec)],
         sv_metrics := m', sv_world := w'\<rparr>)"
| begin_shutdown: "sv_done s \<Longrightarrow> sv_shutdown s = Waiting \<Longrightarrow>
    serve_step v BeginShutdown s (s\<lparr>sv_shutdown := Draining, sv_listener := Closed\<rparr>)"
| loop_returns: "sv_shutdown s \<noteq> Waiting \<Longrightarrow> sv_result s = None \<Longrightarrow>
    serve_step v LoopReturns s (s\<lparr>sv_listener := Closed, sv_result := Some (serve_result ErrServerClosed)\<rparr>)"
| drain_returns: "sv_shutdown s = Draining \<Longrightarrow> sv_flight s = [] \<Longrightarrow>
    serve_step v DrainReturns s (s\<lparr>sv_shutdown := Drained\<rparr>)"
| drain_expires: "sv_shutdown s = Draining \<Longrightarrow> serve_step v DrainExpires s (s\<lparr>sv_shutdown := Expired\<rparr>)"

inductive serve_run :: "'s viewer \<Rightarrow> 's serving \<Rightarrow> serve_event list \<Rightarrow> 's serving \<Rightarrow> bool" for v where
  run_Nil: "serve_run v s [] s"
| run_snoc: "serve_run v s evs s' \<Longrightarrow> serve_step v ev s' s'' \<Longrightarrow> serve_run v s (evs @ [ev]) s''"

code_pred (modes: i \<Rightarrow> i \<Rightarrow> i \<Rightarrow> o \<Rightarrow> bool) serve_step .

inductive_simps serve_step_simps [simp]:
  "serve_step v Cancel s s'" "serve_step v Bind s s'" "serve_step v (Fail t) s s'"
  "serve_step v (Accept q) s s'" "serve_step v (Answer q) s s'" "serve_step v BeginShutdown s s'"
  "serve_step v LoopReturns s s'" "serve_step v DrainReturns s s'" "serve_step v DrainExpires s s'"

inductive_cases serve_run_NilE: "serve_run v s [] s'"

lemma serve_run_append:
  "serve_run v s2 evs' s3 \<Longrightarrow> serve_run v s1 evs s2 \<Longrightarrow> serve_run v s1 (evs @ evs') s3"
proof (induction rule: serve_run.induct)
  case (run_snoc s evs' s' ev s'')
  then show ?case using serve_run.run_snoc [of v s1 "evs @ evs'" s' ev s''] by simp
qed simp

lemma serve_run_Cons:
  "serve_step v ev s s' \<Longrightarrow> serve_run v s' evs s'' \<Longrightarrow> serve_run v s (ev # evs) s''"
  using serve_run_append [of v s' evs s'' s "[ev]"] run_snoc [OF run_Nil, of v ev s s'] by simp

section \<open>The phases are ordered\<close>

text \<open>
  The listener goes one way; so does the goroutine, which ends in one of two ways. The order makes the
  progress of a run a matter of monotonicity.
\<close>

instantiation listener :: linorder
begin

fun phase_listener :: "listener \<Rightarrow> nat" where
  "phase_listener Idle = 0"
| "phase_listener Listening = 1"
| "phase_listener Closed = 2"

definition less_eq_listener :: "listener \<Rightarrow> listener \<Rightarrow> bool" where
  "a \<le> b \<longleftrightarrow> phase_listener a \<le> phase_listener b"

definition less_listener :: "listener \<Rightarrow> listener \<Rightarrow> bool" where
  "a < b \<longleftrightarrow> phase_listener a < phase_listener b"

lemma phase_listener_inject: "phase_listener a = phase_listener b \<Longrightarrow> a = b"
  by (cases a; cases b) simp_all

instance
  by standard (auto simp: less_eq_listener_def less_listener_def dest: phase_listener_inject)

end

instantiation shutdown :: order
begin

fun less_eq_shutdown :: "shutdown \<Rightarrow> shutdown \<Rightarrow> bool" where
  "less_eq_shutdown Waiting b = True"
| "less_eq_shutdown Draining b = (b \<noteq> Waiting)"
| "less_eq_shutdown Drained b = (b = Drained)"
| "less_eq_shutdown Expired b = (b = Expired)"

definition less_shutdown :: "shutdown \<Rightarrow> shutdown \<Rightarrow> bool" where
  "a < b \<longleftrightarrow> a \<le> b \<and> \<not> b \<le> (a :: shutdown)"

instance
proof
  fix a b c :: shutdown
  show "a < b \<longleftrightarrow> a \<le> b \<and> \<not> b \<le> a" by (rule less_shutdown_def)
  show "a \<le> a" by (cases a) simp_all
  show "a \<le> c" if "a \<le> b" and "b \<le> c" using that by (cases a; cases b; cases c) simp_all
  show "a = b" if "a \<le> b" and "b \<le> a" using that by (cases a; cases b) simp_all
qed

end

lemma listener_phases [simp]: "Idle \<le> l" "l \<le> Closed" "Closed \<le> l \<longleftrightarrow> l = Closed"
  by (cases l; simp add: less_eq_listener_def)+

definition forward :: "'s serving \<Rightarrow> 's serving \<Rightarrow> bool" where
  "forward s s' \<longleftrightarrow> sv_done s \<le> sv_done s' \<and> sv_listener s \<le> sv_listener s' \<and> sv_shutdown s \<le> sv_shutdown s' \<and>
     (sv_result s \<noteq> None \<longrightarrow> sv_result s' = sv_result s) \<and> (\<exists>more. sv_answered s' = sv_answered s @ more)"

lemma serve_step_forward: "serve_step v ev s s' \<Longrightarrow> forward s s'"
  by (cases rule: serve_step.cases) (auto simp: forward_def)

lemma serve_run_forward: "serve_run v s evs s' \<Longrightarrow> forward s s'"
proof (induction rule: serve_run.induct)
  case (run_Nil s)
  show ?case by (simp add: forward_def)
next
  case (run_snoc s evs s' ev s'')
  with serve_step_forward [OF run_snoc.hyps(2)] show ?case
    by (auto simp: forward_def intro: order_trans)
qed

end
