(* ===== verification/Viewer_Properties.thy ===== *)
theory Viewer_Properties
  imports Viewer Rest_Examples
begin

text \<open>Properties of the HTTP viewer, over any client that meets the contract and any JSON encoder.\<close>

section \<open>Lemmas\<close>

text \<open>The only requests the viewer makes of the cluster.\<close>

fun viewerLists :: "event \<Rightarrow> bool" where
  "viewerLists (Api v kd ns nm ok) =
     (v = VList \<and> (kd = KManagedNamespace \<or> kd = KClusterAccessMapping) \<and> ns = [] \<and> nm = [])"
| "viewerLists ev = False"

definition api_routes :: "string set" where
  "api_routes = {''/metrics'', ''/api/v1/managednamespaces'', ''/api/v1/clusteraccessmappings''}"

lemma path_label_bounded: "path_label p \<in> insert ''static'' api_routes"
  by (simp add: path_label_def api_routes_def)

text \<open>
  A handler is honest if it sets at most one status, a final one, and none after the body has begun;
  then the recorder has the status the client sees.
\<close>

fun honest :: "writer_op list \<Rightarrow> bool" where
  "honest [] = True"
| "honest (SetHeader k v # ops) = honest ops"
| "honest (WriteHeader c # ops) =
     ((100 \<le> c \<and> c \<le> 199 \<longrightarrow> c = 101) \<and> (\<forall>c'. WriteHeader c' \<notin> set ops))"
| "honest (Write b # ops) = (\<forall>c'. WriteHeader c' \<notin> set ops)"

definition agrees :: "statusRecorder \<Rightarrow> bool" where
  "agrees s \<longleftrightarrow> client_status s = sr_code s"

lemma apply_ops_sent:
  assumes "rs_status (sr_ResponseWriter s) = Some c" and "\<forall>c'. WriteHeader c' \<notin> set ops"
  shows "rs_status (sr_ResponseWriter (fold apply_op ops s)) = Some c \<and> sr_code (fold apply_op ops s) = sr_code s"
  using assms
proof (induction ops arbitrary: s)
  case (Cons op ops)
  have "\<forall>c'. WriteHeader c' \<notin> set ops" using Cons.prems(2) by simp
  with Cons show ?case by (cases op) (auto simp: send_header_def Let_def)
qed simp

lemma honest_agrees:
  assumes "honest ops" and "rs_status (sr_ResponseWriter s) = None" and "sr_code s = 200"
  shows "agrees (fold apply_op ops s)"
  using assms
proof (induction ops arbitrary: s rule: honest.induct)
  case (3 c ops)
  then have "rs_status (sr_ResponseWriter (sr_WriteHeader c s)) = Some c" "sr_code (sr_WriteHeader c s) = c"
    by (auto simp: sr_WriteHeader_def send_header_def)
  with 3 show ?case using apply_ops_sent [of "sr_WriteHeader c s" c ops] by (simp add: agrees_def client_status_def)
next
  case (4 b ops)
  let ?s = "apply_op (Write b) s"
  have "rs_status (sr_ResponseWriter ?s) = Some 200" "sr_code ?s = 200"
    using 4 by (simp_all add: send_header_def Let_def)
  then show ?case
    using apply_ops_sent [of ?s 200 ops] 4 by (simp add: agrees_def client_status_def del: apply_op.simps)
qed (simp_all add: agrees_def client_status_def Let_def)

lemma respond_honest: "honest (respond enc text l)"
  by (auto simp: respond_def http_Error_def split: sum.split option.split)

lemma returns_mux: "returns (\<lambda>ops. route_of q = Namespaces \<or> route_of q = ClusterAccess \<longrightarrow> honest ops) (mux v q)"
  unfolding mux_def namespaces_def clusterAccess_def
  by (auto split: route.split intro!: returns_attempt simp: respond_honest)

lemma returns_Handler:
  "returns (\<lambda>(s, m'). (\<exists>l. l \<in> insert ''static'' api_routes \<and> l = path_label (rq_path q) \<and>
     httpRequests m' = add_mset (l, Itoa (sr_code s)) (httpRequests m) \<and>
     httpDuration m' = add_mset l (httpDuration m)) \<and>
     (route_of q = Namespaces \<or> route_of q = ClusterAccess \<longrightarrow> agrees s)) (Handler v q m)"
  unfolding returns_def
proof
  fix w
  obtain ops w' where mux: "mux v q w = (Inr ops, w')"
    and honest: "route_of q = Namespaces \<or> route_of q = ClusterAccess \<longrightarrow> honest ops"
    using returnsD [OF returns_mux [of q v], of w] by (cases "mux v q w") auto
  have "route_of q = Namespaces \<or> route_of q = ClusterAccess \<longrightarrow>
      agrees (fold apply_op ops \<lparr>sr_ResponseWriter = new_response, sr_code = 200\<rparr>)"
    using honest by (auto intro!: honest_agrees simp: new_response_def)
  then show "\<exists>x. fst (Handler v q m w) = Inr x \<and> (case x of (s, m') \<Rightarrow>
      (\<exists>l. l \<in> insert ''static'' api_routes \<and> l = path_label (rq_path q) \<and>
        httpRequests m' = add_mset (l, Itoa (sr_code s)) (httpRequests m) \<and>
        httpDuration m' = add_mset l (httpDuration m)) \<and>
      (route_of q = Namespaces \<or> route_of q = ClusterAccess \<longrightarrow> agrees s))"
    using path_label_bounded [of "rq_path q"]
    by (simp add: Handler_def instrument_def bindE_def mux ret_def Let_def)
qed

section \<open>The cluster is only read\<close>

text \<open>The requests that list: \<open>GET\<close> or \<open>HEAD\<close> of one of the two API paths, written as registered.\<close>

definition api_request :: "request \<Rightarrow> bool" where
  "api_request q \<longleftrightarrow> rq_method q \<in> {''GET'', ''HEAD''} \<and> cleanPath (rq_escapedPath q) = rq_escapedPath q \<and>
     path_segments q \<in> {['''', ''api'', ''v1'', ''managednamespaces''], ['''', ''api'', ''v1'', ''clusteraccessmappings'']}"

lemma api_request_route: "api_request q \<longleftrightarrow> route_of q = Namespaces \<or> route_of q = ClusterAccess"
  by (auto simp: api_request_def route_of_def Let_def)

lemma api_request_path:
  "route_of q = Namespaces \<Longrightarrow> rq_path q = ''/api/v1/managednamespaces''"
  "route_of q = ClusterAccess \<Longrightarrow> rq_path q = ''/api/v1/clusteraccessmappings''"
  by (auto simp: route_of_def rq_path_def Let_def split: if_splits)

definition lists :: "request list \<Rightarrow> event list \<Rightarrow> bool" where
  "lists qs evs \<longleftrightarrow> list_all viewerLists evs \<and> length evs = length (filter api_request qs)"

lemma lists_Cons: "lists [q] evs \<Longrightarrow> lists qs evs' \<Longrightarrow> lists (q # qs) (evs @ evs')"
  by (auto simp: lists_def split: if_splits)

lemma mux_trace:
  assumes "mux v q w = (x, w')"
  shows "\<exists>evs. trace w' = trace w @ evs \<and> lists [q] evs"
  using assms
  by (auto simp: mux_def namespaces_def clusterAccess_def lists_def api_request_route bindE_def attempt_def
      api_def ret_def split: route.splits prod.splits)

lemma Handler_mux:
  obtains x where "mux v q w = (x, snd (Handler v q m w))"
proof -
  have "snd (mux v q w) = snd (Handler v q m w)"
    by (simp add: Handler_def instrument_def bindE_def ret_def Let_def split: prod.split sum.split)
  then show ?thesis using that by (metis prod.collapse)
qed

text \<open>What a server has recorded after some requests: one request each, under a known label.\<close>

definition recorded :: "request list \<Rightarrow> http_metrics \<Rightarrow> http_metrics \<Rightarrow> bool" where
  "recorded qs m m' \<longleftrightarrow> (\<exists>codes.
     httpRequests m' = httpRequests m + mset codes \<and> map fst codes = map (\<lambda>q. path_label (rq_path q)) qs \<and>
     httpDuration m' = httpDuration m + mset (map fst codes))"

lemma recorded_append:
  "recorded qs m m1 \<Longrightarrow> recorded qs' m1 m' \<Longrightarrow> recorded (qs @ qs') m m'"
  unfolding recorded_def
proof (elim exE conjE)
  fix codes codes'
  assume "httpRequests m1 = httpRequests m + mset codes" "map fst codes = map (\<lambda>q. path_label (rq_path q)) qs"
    "httpDuration m1 = httpDuration m + mset (map fst codes)"
    "httpRequests m' = httpRequests m1 + mset codes'" "map fst codes' = map (\<lambda>q. path_label (rq_path q)) qs'"
    "httpDuration m' = httpDuration m1 + mset (map fst codes')"
  then show "\<exists>codes. httpRequests m' = httpRequests m + mset codes \<and>
      map fst codes = map (\<lambda>q. path_label (rq_path q)) (qs @ qs') \<and>
      httpDuration m' = httpDuration m + mset (map fst codes)"
    by (intro exI [of _ "codes @ codes'"]) (auto simp: add.assoc)
qed

lemmas recorded_Cons = recorded_append [of "[q]" for q, simplified]

lemma recorded_Nil [simp]: "recorded [] m m"
  by (simp add: recorded_def)

lemma Handler_recorded:
  obtains s m' where "Handler v q m w = (Inr (s, m'), snd (Handler v q m w))" and "recorded [q] m m'"
proof -
  obtain s m' where "fst (Handler v q m w) = Inr (s, m')"
    and "httpRequests m' = add_mset (path_label (rq_path q), Itoa (sr_code s)) (httpRequests m)"
    and "httpDuration m' = add_mset (path_label (rq_path q)) (httpDuration m)"
    using returnsD [OF returns_Handler [of q m v], of w] by auto
  then have "recorded [q] m m'"
    unfolding recorded_def by (intro exI [of _ "[(path_label (rq_path q), Itoa (sr_code s))]"]) simp
  with \<open>fst (Handler v q m w) = Inr (s, m')\<close> show ?thesis
    using that by (metis prod.collapse)
qed

lemma serve_all_Cons:
  assumes "Handler v q m w = (Inr (s, m1), w1)"
  shows "serve_all v m (q # qs) w = serve_all v m1 qs w1"
  using assms by (simp add: serve_all_def bindE_def ret_def)

lemma serve_all_recorded:
  "\<exists>m' w' evs. serve_all v m qs w = (Inr m', w') \<and> recorded qs m m' \<and> trace w' = trace w @ evs \<and> lists qs evs"
proof (induction qs arbitrary: m w)
  case Nil
  show ?case by (simp add: serve_all_def ret_def recorded_def lists_def)
next
  case (Cons q qs)
  obtain s m1 w1 where step: "Handler v q m w = (Inr (s, m1), w1)" and m1: "recorded [q] m m1"
    by (rule Handler_recorded)
  obtain evs where evs: "trace w1 = trace w @ evs" "lists [q] evs"
    using Handler_mux [of v q w m] mux_trace step by (metis snd_conv)
  obtain m' w' evs' where rest: "serve_all v m1 qs w1 = (Inr m', w')" "recorded qs m1 m'"
    "trace w' = trace w1 @ evs'" "lists qs evs'"
    using Cons.IH [of m1 w1] by blast
  show ?case
    using rest evs recorded_Cons [OF m1] lists_Cons serve_all_Cons [OF step, of qs]
    by (intro exI [of _ m'] exI [of _ w'] exI [of _ "evs @ evs'"]) simp
qed

context kube_env begin

text \<open>Listing through the viewer's client moves nothing on the server.\<close>

lemma mux_reads:
  assumes "v_Client v = r" and "mux v q w = (x, w')"
  shows "live (ext w') = live (ext w)"
proof -
  have "keeps (\<lambda>w'. live (ext w') = live (ext w)) (mux v q)"
    unfolding mux_def namespaces_def clusterAccess_def assms(1)
    using mns.list_frame cam.list_frame
    by (auto split: route.split intro!: keeps_bindE keeps_attempt keeps_api simp: touches_def fun_eq_iff)
  from keepsD [OF this _ assms(2)] show ?thesis by simp
qed

lemma serve_all_reads:
  assumes "v_Client v = r" and "serve_all v m qs w = (x, w')"
  shows "live (ext w') = live (ext w)"
  using assms(2)
proof (induction qs arbitrary: m w)
  case (Cons q qs)
  obtain s m1 w1 where step: "Handler v q m w = (Inr (s, m1), w1)" by (rule Handler_recorded)
  have "live (ext w1) = live (ext w)"
    using Handler_mux [of v q w m] mux_reads [OF assms(1)] step by (metis snd_conv)
  moreover have "live (ext w') = live (ext w1)"
    using Cons.IH [of m1 w1] Cons.prems by (simp add: serve_all_Cons [OF step])
  ultimately show ?case by simp
qed (simp add: serve_all_def ret_def)

end

text \<open>The viewer of the in-memory cluster; the example client and encoders are concrete.\<close>

definition ex_encode :: "'a list \<Rightarrow> string option" where
  "ex_encode xs = Some (Itoa (int (length xs)))"

definition ex_viewer :: "mem viewer" where
  "ex_viewer = \<lparr>v_Client = mem_env, v_encode_mns = ex_encode, v_encode_cam = ex_encode,
     v_metrics = (\<lambda>_. [Write ''metrics'']), v_files = (\<lambda>_. http_Error ''404 page not found'' 404),
     v_redirect = (\<lambda>p _. [SetHeader ''Location'' p, WriteHeader 301])\<rparr>"

definition ex_get :: "string \<Rightarrow> request" where
  "ex_get p = \<lparr>rq_method = ''GET'', rq_escapedPath = p\<rparr>"

lemma ex_viewer_env: "kube_env (v_Client ex_viewer) mem_live mem_cache"
  by (simp add: ex_viewer_def mem_kube_env)

section \<open>The properties\<close>

text \<open>C28. The viewer is read-only. Whatever requests it is sent and whatever the server answers, it serves
  each of them, changes nothing on the server, and asks the server only to list the two custom
  resources, once for each GET or HEAD of an API path and never for anything else.\<close>

theorem viewer_is_read_only:
  assumes "kube_env (v_Client v) live cache" and "serve_all v m qs w = (x, w')"
  shows "(\<exists>m'. x = Inr m') \<and> live (ext w') = live (ext w) \<and>
    (\<exists>evs. trace w' = trace w @ evs \<and> list_all viewerLists evs \<and> length evs = length (filter api_request qs))"
proof -
  have "live (ext w') = live (ext w)"
    by (rule kube_env.serve_all_reads [OF assms(1) refl assms(2)])
  moreover obtain m' evs where "x = Inr m'" "trace w' = trace w @ evs" "lists qs evs"
    using serve_all_recorded [of v m qs w] assms(2) by auto
  ultimately show ?thesis by (auto simp: lists_def)
qed

text \<open>A list, an attempt to delete and a page: one request is made of the server.\<close>

theorem viewer_is_read_only_witness:
  "\<exists>w' ev. snd (serve_all ex_viewer \<lparr>httpRequests = {#}, httpDuration = {#}\<rparr>
       [ex_get ''/api/v1/managednamespaces'',
        \<lparr>rq_method = ''DELETE'', rq_escapedPath = ''/api/v1/managednamespaces''\<rparr>, ex_get ''/app.css'']
       (ex_world (ex_mns_store ex_mns) [])) = w' \<and> trace w' = [ev] \<and> viewerLists ev"
proof -
  let ?qs = "[ex_get ''/api/v1/managednamespaces'',
    \<lparr>rq_method = ''DELETE'', rq_escapedPath = ''/api/v1/managednamespaces''\<rparr>, ex_get ''/app.css'']"
  let ?r = "serve_all ex_viewer \<lparr>httpRequests = {#}, httpDuration = {#}\<rparr> ?qs (ex_world (ex_mns_store ex_mns) [])"
  have one: "length (filter api_request ?qs) = 1" by code_simp
  obtain evs where "trace (snd ?r) = trace (ex_world (ex_mns_store ex_mns) []) @ evs"
    and "list_all viewerLists evs" and "length evs = 1"
    using viewer_is_read_only [OF ex_viewer_env prod.collapse [of ?r, symmetric]] unfolding one by blast
  then show ?thesis by (auto simp: ex_world_def length_Suc_conv numeral_eq_Suc)
qed

text \<open>C32. The labels of the viewer's metrics are bounded: whatever paths are asked for, every request is
  counted and timed exactly once, under the label of its path, and a label is one of the three
  registered paths or \<open>static\<close>.\<close>

theorem viewer_labels_bounded:
  "\<exists>m' w' codes. serve_all v m qs w = (Inr m', w') \<and>
     httpRequests m' = httpRequests m + mset codes \<and> httpDuration m' = httpDuration m + mset (map fst codes) \<and>
     map fst codes = map (\<lambda>q. path_label (rq_path q)) qs \<and> fst ` set codes \<subseteq> insert ''static'' api_routes"
proof -
  obtain m' w' where "serve_all v m qs w = (Inr m', w')" and "recorded qs m m'"
    using serve_all_recorded [of v m qs w] by blast
  then obtain codes where codes: "serve_all v m qs w = (Inr m', w')"
    "httpRequests m' = httpRequests m + mset codes" "httpDuration m' = httpDuration m + mset (map fst codes)"
    "map fst codes = map (\<lambda>q. path_label (rq_path q)) qs"
    unfolding recorded_def by blast
  have "fst ` set codes = (\<lambda>q. path_label (rq_path q)) ` set qs"
    using arg_cong [OF codes(4), of set] by simp
  then have "fst ` set codes \<subseteq> insert ''static'' api_routes" using path_label_bounded by auto
  with codes show ?thesis by blast
qed

text \<open>What an API request should be answered with, and what the answer is to look like.\<close>

definition served :: "'s viewer \<Rightarrow> request \<Rightarrow> 's world \<Rightarrow> error + string option" where
  "served v q w =
     (if rq_path q = ''/api/v1/managednamespaces''
      then map_sum id (v_encode_mns v) (fst (k_list (e_mns (v_Client v)) [] (ext w)))
      else map_sum id (v_encode_cam v) (fst (k_list (e_cam (v_Client v)) [] (ext w))))"

lemma mux_served:
  assumes "api_request q"
  shows "fst (mux v q w) = Inr (respond id (error_text (jsonErrorText (v_Client v))) (served v q w))"
proof (cases "route_of q = Namespaces")
  case True
  with api_request_path show ?thesis
    by (simp add: mux_def namespaces_def served_def bindE_def attempt_def api_def ret_def respond_def
        split: prod.split sum.split)
next
  case False
  with assms have "route_of q = ClusterAccess" by (simp add: api_request_route)
  with api_request_path show ?thesis
    by (simp add: mux_def clusterAccess_def served_def bindE_def attempt_def api_def ret_def respond_def
        split: prod.split sum.split)
qed

definition answer :: "'s viewer \<Rightarrow> error + string option \<Rightarrow> int \<times> string \<times> string" where
  "answer v out =
     (case out of
        Inl e \<Rightarrow> (500, ''text/plain; charset=utf-8'', error_text (jsonErrorText (v_Client v)) e @ [CHR 0x0A])
      | Inr None \<Rightarrow> (200, ''application/json'', [])
      | Inr (Some js) \<Rightarrow> (200, ''application/json'', js @ [CHR 0x0A]))"

lemma respond_answer:
  "let s = fold apply_op (respond id (error_text (jsonErrorText (v_Client v))) out)
       \<lparr>sr_ResponseWriter = new_response, sr_code = 200\<rparr> in
   (client_status s, fmlookup (rs_headers (sr_ResponseWriter s)) ''Content-Type'', rs_body (sr_ResponseWriter s)) =
     (case answer v out of (code, ct, body) \<Rightarrow> (code, Some ct, body)) \<and> sr_code s = fst (answer v out)"
  by (simp add: respond_def answer_def http_Error_def new_response_def client_status_def send_header_def
      sr_WriteHeader_def Let_def split: sum.split option.split)

text \<open>C29. What the viewer answers. A GET or HEAD of an API path gets the list in JSON with status 200; if
  the list fails, status 500 and the text of the error; if only the encoding fails, an empty 200. The
  request is counted under its path with the status the client saw.\<close>

theorem viewer_answers:
  assumes "api_request q"
  shows "\<exists>s m' w' code ct body. Handler v q m w = (Inr (s, m'), w') \<and> answer v (served v q w) = (code, ct, body) \<and>
    client_status s = code \<and> fmlookup (rs_headers (sr_ResponseWriter s)) ''Content-Type'' = Some ct \<and>
    rs_body (sr_ResponseWriter s) = body \<and>
    httpRequests m' = add_mset (rq_path q, Itoa code) (httpRequests m) \<and>
    httpDuration m' = add_mset (rq_path q) (httpDuration m)"
proof -
  have label: "path_label (rq_path q) = rq_path q"
    using assms api_request_path by (auto simp: api_request_route path_label_def)
  obtain w' where mux: "mux v q w = (Inr (respond id (error_text (jsonErrorText (v_Client v))) (served v q w)), w')"
    using mux_served [OF assms, of v w] by (metis prod.collapse)
  show ?thesis
    using respond_answer [of v "served v q w"]
    by (cases "answer v (served v q w)")
      (simp add: Handler_def instrument_def bindE_def mux ret_def Let_def label)
qed

text \<open>With a working client the page shows one ManagedNamespace; with a failing one, the error.\<close>

theorem viewer_answers_witness:
  "(\<exists>s m' w'. Handler ex_viewer (ex_get ''/api/v1/managednamespaces'') \<lparr>httpRequests = {#}, httpDuration = {#}\<rparr>
       (ex_world (ex_mns_store ex_mns) []) = (Inr (s, m'), w') \<and>
     client_status s = 200 \<and> rs_body (sr_ResponseWriter s) = ''1'' @ [CHR 0x0A] \<and>
     httpRequests m' = {#(''/api/v1/managednamespaces'', ''200'')#}) \<and>
   (\<exists>s m' w'. Handler ex_viewer (ex_get ''/api/v1/managednamespaces'') \<lparr>httpRequests = {#}, httpDuration = {#}\<rparr>
       (ex_world (ex_mns_store ex_mns) [True]) = (Inr (s, m'), w') \<and>
     client_status s = 500 \<and> httpRequests m' = {#(''/api/v1/managednamespaces'', ''500'')#})"
proof -
  let ?q = "ex_get ''/api/v1/managednamespaces''"
  have q: "api_request ?q" by code_simp
  have path: "rq_path ?q = ''/api/v1/managednamespaces''" by code_simp
  have itoa: "Itoa 200 = ''200''" "Itoa 500 = ''500''" "Itoa 1 = ''1''" by code_simp+
  have ok: "served ex_viewer ?q (ex_world (ex_mns_store ex_mns) []) = Inr (Some ''1'')"
    by (simp add: served_def path ex_viewer_def ex_encode_def itoa eval_all)
  obtain e where failed: "served ex_viewer ?q (ex_world (ex_mns_store ex_mns) [True]) = Inl e"
    by (simp add: served_def path ex_viewer_def eval_all)
  show ?thesis
    using viewer_answers [OF q, of ex_viewer "\<lparr>httpRequests = {#}, httpDuration = {#}\<rparr>" "ex_world (ex_mns_store ex_mns) []"]
      viewer_answers [OF q, of ex_viewer "\<lparr>httpRequests = {#}, httpDuration = {#}\<rparr>" "ex_world (ex_mns_store ex_mns) [True]"]
    by (auto simp: ok failed answer_def path itoa)
qed

end
