(* ===== verification/Process_Properties.thy ===== *)
theory Process_Properties
  imports Process Viewer_Properties
begin

text \<open>Properties of the process: what it opens when it boots, and the life of its HTTP server.\<close>

section \<open>Boot\<close>

text \<open>The addresses a call opens a listener on; to the manager, \<open>0\<close> means none.\<close>

fun opens :: "boot_step \<Rightarrow> string list" where
  "opens (NewManager mo) = (if mo_BindAddress mo = ''0'' then [] else [mo_BindAddress mo])"
| "opens (AddRunnable r) = [sr_addr r]"
| "opens st = []"

lemma boot_prefix:
  "boot call sts s = (made, out, s') \<Longrightarrow> \<exists>rest. sts = made @ rest \<and> (out = Returned \<longrightarrow> rest = [])"
proof (induction sts arbitrary: made s)
  case (Cons st sts)
  then show ?case by (cases st) (auto split: prod.splits option.splits)
qed simp

text \<open>Which errors are fatal, and how.\<close>

lemma on_error_iff:
  "on_error st e = (if st \<in> {AddClientGoScheme, AddApiScheme} then None
     else Some (if st = GetConfigOrDie then Exited else Panicked e))"
  by (cases st) simp_all

text \<open>What each call of a sequence returns, made one after the other.\<close>

fun calls :: "(boot_step \<Rightarrow> 's \<Rightarrow> error option \<times> 's) \<Rightarrow> boot_step list \<Rightarrow> 's \<Rightarrow> (boot_step \<times> error option) list" where
  "calls call [] s = []"
| "calls call (st # sts) s = (case call st s of (r, s') \<Rightarrow> (st, r) # calls call sts s')"

lemma map_fst_calls [simp]: "map fst (calls call sts s) = sts"
  by (induction sts arbitrary: s) (auto split: prod.split)

text \<open>
  A boot goes on past a call only if there was no error or it is discarded, and it ends early with what
  the last call's error demands.
\<close>

lemma boot_calls:
  assumes "boot call sts s = (made, out, s')"
  shows "\<exists>before. (\<forall>(st, r) \<in> set before. \<forall>e. r = Some e \<longrightarrow> on_error st e = None) \<and>
    (if out = Returned then calls call made s = before
     else \<exists>st e. calls call made s = before @ [(st, Some e)] \<and> on_error st e = Some out)"
  using assms
proof (induction sts arbitrary: made s)
  case (Cons a sts)
  obtain r s1 where call: "call a s = (r, s1)" by fastforce
  show ?case
  proof (cases "case r of None \<Rightarrow> None | Some e \<Rightarrow> on_error a e")
    case None
    then obtain made' where rest: "boot call sts s1 = (made', out, s')" and made: "made = a # made'"
      using Cons.prems call by (auto split: prod.splits)
    from Cons.IH [OF rest] obtain before where
      "(\<forall>(st, r) \<in> set before. \<forall>e. r = Some e \<longrightarrow> on_error st e = None) \<and>
       (if out = Returned then calls call made' s1 = before
        else \<exists>st e. calls call made' s1 = before @ [(st, Some e)] \<and> on_error st e = Some out)" by blast
    with None show ?thesis
      by (intro exI [of _ "(a, r) # before"]) (auto simp: made call split: if_splits)
  next
    case (Some out')
    then have "made = [a]" "out = out'" "calls call made s = [(a, r)]" using Cons.prems call by auto
    with Some show ?thesis by (intro exI [of _ "[]"]) (auto simp: on_error_iff split: option.splits if_splits)
  qed
qed simp_all

lemma boot_log:
  assumes "boot call sts s = (made, out, s')"
  shows "(\<forall>(st, r) \<in> set (if out = Returned then calls call made s else butlast (calls call made s)).
      r = None \<or> st \<in> {AddClientGoScheme, AddApiScheme}) \<and>
    (out \<noteq> Returned \<longrightarrow> (\<exists>st e. made \<noteq> [] \<and> last (calls call made s) = (st, Some e) \<and>
      st \<notin> {AddClientGoScheme, AddApiScheme} \<and> out = (if st = GetConfigOrDie then Exited else Panicked e)))"
proof -
  obtain before where before: "\<forall>(st, r) \<in> set before. \<forall>e. r = Some e \<longrightarrow> on_error st e = None"
    "if out = Returned then calls call made s = before
     else \<exists>st e. calls call made s = before @ [(st, Some e)] \<and> on_error st e = Some out"
    using boot_calls [OF assms] by blast
  from before(1) have fine: "\<forall>(st, r) \<in> set before. r = None \<or> st \<in> {AddClientGoScheme, AddApiScheme}"
    by (fastforce simp: on_error_iff split: if_splits)
  show ?thesis
  proof (cases "out = Returned")
    case False
    with before(2) obtain st e where log: "calls call made s = before @ [(st, Some e)]"
      and "on_error st e = Some out" by auto
    moreover have "made \<noteq> []" using log by auto
    ultimately show ?thesis
      using fine False by (auto simp: on_error_iff split: if_splits)
  qed (use before(2) fine in simp)
qed

text \<open>A call that others followed was made without an error, the registrations apart.\<close>

lemma boot_ok:
  assumes "boot call sts s = (made, out, s')" and "st \<in> set (butlast made)"
    and "st \<notin> {AddClientGoScheme, AddApiScheme}"
  shows "(st, None) \<in> set (calls call made s)"
proof -
  have "butlast made = map fst (butlast (calls call made s))" by (metis map_butlast map_fst_calls)
  with assms(2) obtain r where r: "(st, r) \<in> set (butlast (calls call made s))" by auto
  then have "(st, r) \<in> set (calls call made s)" by (rule in_set_butlastD)
  moreover have "r = None" using conjunct1 [OF boot_log [OF assms(1)]] r calculation assms(3) by (auto split: if_splits)
  ultimately show ?thesis by simp
qed

section \<open>The server\<close>

text \<open>What every state of a server satisfies that began with metrics \<open>m\<close> in a cluster \<open>srv\<close>.\<close>

definition accepted :: "serve_event list \<Rightarrow> request multiset" where
  "accepted evs = mset (concat (map (\<lambda>ev. case ev of Accept q \<Rightarrow> [q] | _ \<Rightarrow> []) evs))"

lemma accepted_simps [simp]:
  "accepted [] = {#}" "accepted (evs @ [Accept q]) = add_mset q (accepted evs)"
  "accepted (evs @ [ev]) = accepted evs + (case ev of Accept q \<Rightarrow> {#q#} | _ \<Rightarrow> {#})"
  by (simp_all add: accepted_def split: serve_event.split)

definition serving_ok :: "http_metrics \<Rightarrow> serve_event list \<Rightarrow> 's serving \<Rightarrow> bool" where
  "serving_ok m evs s \<longleftrightarrow>
     (sv_done s \<longleftrightarrow> Cancel \<in> set evs) \<and> (sv_shutdown s \<noteq> Waiting \<longrightarrow> sv_done s \<and> sv_listener s = Closed) \<and>
     (sv_result s = Some None \<longrightarrow> sv_shutdown s \<noteq> Waiting) \<and>
     (\<forall>e. sv_result s = Some (Some e) \<longrightarrow> (\<exists>t. e = ListenError t \<and> Fail t \<in> set evs)) \<and>
     (sv_result s \<noteq> None \<longrightarrow> sv_listener s = Closed) \<and>
     accepted evs = mset (sv_flight s) + mset (map fst (sv_answered s)) \<and>
     recorded (map fst (sv_answered s)) m (sv_metrics s)"

lemma serve_step_ok:
  assumes "serve_step v ev s s'" and "serving_ok m evs s"
  shows "serving_ok m (evs @ [ev]) s'"
  using assms
proof (cases rule: serve_step.cases)
  case (answer q rec m' w')
  have "recorded [q] (sv_metrics s) m'"
    using Handler_recorded [of v q "sv_metrics s" "sv_world s"] answer by (metis Inr_inject fst_conv prod.inject)
  then have "recorded (map fst (sv_answered s) @ [q]) m m'"
    using recorded_append assms(2) by (auto simp: serving_ok_def)
  with answer assms(2) show ?thesis by (auto simp: serving_ok_def)
qed (auto simp: serving_ok_def serve_result_def)

lemma serve_run_ok:
  "serve_run v s0 evs s \<Longrightarrow> s0 = serving_init m w \<Longrightarrow> serving_ok m evs s"
proof (induction rule: serve_run.induct)
  case (run_Nil s)
  then show ?case by (simp add: serving_ok_def serving_init_def)
next
  case (run_snoc s evs s' ev s'')
  then show ?case using serve_step_ok by blast
qed

context kube_env begin

lemma serve_run_reads:
  "serve_run v s evs s' \<Longrightarrow> v_Client v = r \<Longrightarrow> live (ext (sv_world s')) = live (ext (sv_world s))"
proof (induction rule: serve_run.induct)
  case (run_snoc s evs s' ev s'')
  from run_snoc.hyps(2) have "live (ext (sv_world s'')) = live (ext (sv_world s'))"
  proof (cases rule: serve_step.cases)
    case (answer q rec m' w')
    obtain x where "mux v q (sv_world s') = (x, w')"
      using Handler_mux [of v q "sv_world s'" "sv_metrics s'"] answer by (metis snd_conv)
    with answer mux_reads [OF run_snoc.prems] show ?thesis by simp
  qed simp_all
  with run_snoc show ?case by simp
qed simp

end

lemma serving_ok_reads:
  assumes "serve_run v (serving_init m w) evs s"
  shows "serving_ok m evs s"
  by (rule serve_run_ok [OF assms refl])

section \<open>The properties\<close>

text \<open>C40. The process starts only fully set up, and serves one address. \<open>main\<close> makes its calls in order.
  Only the errors of the two scheme registrations are discarded: every other call but the last made
  returned without one, and if the process does not return, the last call's error ended it, by an exit if
  that call was the loading of the configuration and by a panic with that error otherwise. So the manager
  is started only after the configuration, the manager itself, both reconcilers and, if asked for, the
  viewer were set up without an error; and a boot that completes has opened exactly one listener, on
  the address of \<open>-listen\<close>, with or without the viewer.\<close>

theorem main_boots_in_order:
  assumes "main call fl s = (made, out, s')"
  shows "(\<exists>rest. main_steps fl = made @ rest \<and> (out = Returned \<longrightarrow> rest = [])) \<and>
    (\<forall>(st, r) \<in> set (if out = Returned then calls call made s else butlast (calls call made s)).
       r = None \<or> st \<in> {AddClientGoScheme, AddApiScheme}) \<and>
    (out \<noteq> Returned \<longrightarrow> (\<exists>st e. made \<noteq> [] \<and> last (calls call made s) = (st, Some e) \<and>
       st \<notin> {AddClientGoScheme, AddApiScheme} \<and> out = (if st = GetConfigOrDie then Exited else Panicked e))) \<and>
    (StartManager \<in> set made \<longrightarrow>
       (\<forall>st \<in> {GetConfigOrDie, NewManager (manager_options fl), SetupManagedNamespace, SetupClusterAccess} \<union>
          (if fl_server fl then {AddRunnable \<lparr>sr_addr = fl_listen fl\<rparr>} else {}). (st, None) \<in> set (calls call made s))) \<and>
    ((\<exists>r. AddRunnable r \<in> set made) \<longrightarrow> fl_server fl) \<and>
    (out = Returned \<and> fl_listen fl \<notin> {''0'', ''''} \<longrightarrow> concat (map opens made) = [fl_listen fl])"
proof -
  let ?log = "calls call made s"
  have boot: "boot call (main_steps fl) s = (made, out, s')" using assms by (simp add: main_def)
  obtain rest where rest: "main_steps fl = made @ rest" "out = Returned \<longrightarrow> rest = []"
    using boot_prefix [OF boot] by blast
  note log = boot_log [OF boot]
  have "StartManager \<notin> set (butlast (main_steps fl))" by (auto simp: main_steps_def)
  with rest have "StartManager \<in> set made \<longrightarrow> rest = []"
    by (cases rest rule: rev_cases) (auto simp: butlast_append)
  then have all: "StartManager \<in> set made \<longrightarrow> made = main_steps fl" using rest(1) by simp
  have started: "StartManager \<in> set made \<longrightarrow>
      (\<forall>st \<in> {GetConfigOrDie, NewManager (manager_options fl), SetupManagedNamespace, SetupClusterAccess} \<union>
         (if fl_server fl then {AddRunnable \<lparr>sr_addr = fl_listen fl\<rparr>} else {}). (st, None) \<in> set ?log)"
  proof (intro impI ballI boot_ok [OF boot])
    fix st
    assume "StartManager \<in> set made"
      and st: "st \<in> {GetConfigOrDie, NewManager (manager_options fl), SetupManagedNamespace, SetupClusterAccess} \<union>
        (if fl_server fl then {AddRunnable \<lparr>sr_addr = fl_listen fl\<rparr>} else {})"
    then have "made = main_steps fl" using all by simp
    with st show "st \<in> set (butlast made)" and "st \<notin> {AddClientGoScheme, AddApiScheme}"
      by (auto simp: main_steps_def split: if_splits)
  qed
  have "set made \<subseteq> set (main_steps fl)" using rest(1) by auto
  then have viewer: "(\<exists>r. AddRunnable r \<in> set made) \<longrightarrow> fl_server fl" by (auto simp: main_steps_def split: if_splits)
  have one: "out = Returned \<and> fl_listen fl \<notin> {''0'', ''''} \<longrightarrow> concat (map opens made) = [fl_listen fl]"
    using rest by (auto simp: main_steps_def manager_options_def)
  show ?thesis using rest log started viewer one by blast
qed

text \<open>
  The default flags with the viewer, and a manager that starts; one that cannot set up the second
  reconciler; one whose scheme registration fails, which is discarded.
\<close>

theorem main_boots_in_order_witness:
  "concat (map opens (fst (main (\<lambda>_ s. (None, s)) (default_flags\<lparr>fl_server := True\<rparr>) ()))) = ['':8080''] \<and>
   StartManager \<notin> set (fst (main (\<lambda>st s. (if st = SetupClusterAccess then Some (Panic ''no'') else None, s)) default_flags ())) \<and>
   (SetupClusterAccess, None) \<in> set (calls (\<lambda>st s. (if st = AddApiScheme then Some (Panic ''no'') else None, s))
     (fst (main (\<lambda>st s. (if st = AddApiScheme then Some (Panic ''no'') else None, s)) default_flags ())) ())"
proof -
  let ?ok = "main (\<lambda>_ s. (None, s)) (default_flags\<lparr>fl_server := True\<rparr>) ()"
  let ?no = "\<lambda>x st s. (if st = x then Some (Panic ''no'') else None, s)"
  obtain made s' where ok: "?ok = (made, Returned, s')" by (simp add: main_def main_steps_def)
  have "concat (map opens made) = [fl_listen (default_flags\<lparr>fl_server := True\<rparr>)]"
    using main_boots_in_order [OF ok] by (simp add: default_flags_def)
  then have one: "concat (map opens (fst ?ok)) = ['':8080'']" unfolding ok by (simp add: default_flags_def)
  obtain m1 o1 s1 where bad: "main (?no SetupClusterAccess) default_flags () = (m1, o1, s1)"
    by (cases "main (?no SetupClusterAccess) default_flags ()")
  have "(SetupClusterAccess, None) \<notin> set (calls (?no SetupClusterAccess) m1 ())"
    by (induction m1) auto
  then have two: "StartManager \<notin> set m1" using main_boots_in_order [OF bad] by blast
  obtain m2 o2 s2 where lost: "main (?no AddApiScheme) default_flags () = (m2, o2, s2)"
    by (cases "main (?no AddApiScheme) default_flags ()")
  then have "StartManager \<in> set m2" by (auto simp: main_def main_steps_def default_flags_def)
  then have "(SetupClusterAccess, None) \<in> set (calls (?no AddApiScheme) m2 ())"
    using main_boots_in_order [OF lost] by blast
  with one two show ?thesis by (simp add: bad lost)
qed

text \<open>C31. While the server runs, every request it accepted is in flight or answered, and every answer is
  counted once under a label of the fixed set; nothing changes on the cluster's server; \<open>serve\<close>
  returns nil only after the process was told to stop, and an error only if listening failed with
  it; and once it has returned, its result stands and it never listens again.\<close>

theorem serve_accounts:
  assumes "kube_env (v_Client v) live cache" and "serve_run v (serving_init m w) evs s"
  shows "accepted evs = mset (sv_flight s) + mset (map fst (sv_answered s)) \<and>
    recorded (map fst (sv_answered s)) m (sv_metrics s) \<and> live (ext (sv_world s)) = live (ext w) \<and>
    (sv_result s = Some None \<longrightarrow> Cancel \<in> set evs) \<and>
    (\<forall>e. sv_result s = Some (Some e) \<longrightarrow> (\<exists>t. e = ListenError t \<and> Fail t \<in> set evs)) \<and>
    (\<forall>evs' s'. sv_result s \<noteq> None \<and> serve_run v s evs' s' \<longrightarrow>
       sv_result s' = sv_result s \<and> sv_listener s' = Closed)"
proof -
  note ok = serving_ok_reads [OF assms(2)]
  have "sv_result s' = sv_result s \<and> sv_listener s' = Closed" if "sv_result s \<noteq> None" and "serve_run v s evs' s'" for evs' s'
    using serve_run_forward [OF that(2)] ok that(1) by (auto simp: forward_def serving_ok_def)
  with ok kube_env.serve_run_reads [OF assms(1) assms(2) refl] show ?thesis
    by (auto simp: serving_ok_def serving_init_def)
qed

text \<open>C30. Stopping does not wait. Once the process is told to stop, \<open>serve\<close> can return nil within two
  steps of its own, and what was in flight then still is: the draining that \<open>Shutdown\<close> does goes on in
  a goroutine nobody waits for.\<close>

theorem serve_returns_while_draining:
  assumes "serve_run v (serving_init m w) evs s" and "sv_done s" and "sv_result s = None"
  shows "\<exists>evs' s'. serve_run v s evs' s' \<and> set evs' \<subseteq> {BeginShutdown, LoopReturns} \<and> length evs' \<le> 2 \<and>
    sv_result s' = Some None \<and> sv_flight s' = sv_flight s \<and>
    (sv_shutdown s \<in> {Waiting, Draining} \<longrightarrow> sv_shutdown s' = Draining)"
proof (cases "sv_shutdown s = Waiting")
  case True
  let ?s1 = "s\<lparr>sv_shutdown := Draining, sv_listener := Closed\<rparr>"
  let ?s2 = "?s1\<lparr>sv_listener := Closed, sv_result := Some (serve_result ErrServerClosed)\<rparr>"
  have "serve_step v BeginShutdown s ?s1" and "serve_step v LoopReturns ?s1 ?s2" using True assms by simp_all
  then have "serve_run v s [BeginShutdown, LoopReturns] ?s2" by (rule serve_run_Cons [OF _ serve_run_Cons [OF _ run_Nil]])
  then show ?thesis
    by (intro exI [of _ "[BeginShutdown, LoopReturns]"] exI [of _ ?s2]) (simp add: serve_result_def)
next
  case False
  let ?s1 = "s\<lparr>sv_listener := Closed, sv_result := Some (serve_result ErrServerClosed)\<rparr>"
  have "serve_step v LoopReturns s ?s1" using False assms by simp
  then have "serve_run v s [LoopReturns] ?s1" by (rule serve_run_Cons [OF _ run_Nil])
  with False show ?thesis
    by (intro exI [of _ "[LoopReturns]"] exI [of _ ?s1]) (auto simp: serve_result_def)
qed

text \<open>A run that accepts a list and is then cancelled.\<close>

definition ex_serving :: "mem serving" where
  "ex_serving = (serving_init \<lparr>httpRequests = {#}, httpDuration = {#}\<rparr> (ex_world (ex_mns_store ex_mns) []))
     \<lparr>sv_listener := Listening, sv_flight := [ex_get ''/api/v1/managednamespaces''], sv_done := True\<rparr>"

lemma ex_serving_run:
  "serve_run ex_viewer (serving_init \<lparr>httpRequests = {#}, httpDuration = {#}\<rparr> (ex_world (ex_mns_store ex_mns) []))
     [Bind, Accept (ex_get ''/api/v1/managednamespaces''), Cancel] ex_serving"
  by (intro serve_run_Cons) (auto intro: run_Nil serve_step.intros simp: ex_serving_def serving_init_def)

theorem serve_accounts_witness:
  "mem_live (ext (sv_world ex_serving)) = mem_live (ext (ex_world (ex_mns_store ex_mns) [])) \<and>
   recorded (map fst (sv_answered ex_serving)) \<lparr>httpRequests = {#}, httpDuration = {#}\<rparr> (sv_metrics ex_serving)"
  using serve_accounts [OF ex_viewer_env ex_serving_run] by blast

text \<open>The request accepted before is cut off: \<open>serve\<close> has returned while it is in flight.\<close>

theorem serve_returns_while_draining_witness:
  "\<exists>evs' s'. serve_run ex_viewer ex_serving evs' s' \<and> sv_result s' = Some None \<and>
     sv_flight s' = [ex_get ''/api/v1/managednamespaces''] \<and> sv_shutdown s' = Draining"
proof -
  have "sv_done ex_serving" "sv_result ex_serving = None" "sv_shutdown ex_serving = Waiting"
    "sv_flight ex_serving = [ex_get ''/api/v1/managednamespaces'']"
    by (simp_all add: ex_serving_def serving_init_def)
  with serve_returns_while_draining [OF ex_serving_run] show ?thesis by (metis insertI1)
qed

end
