(* ===== verification/Go_Heap.thy ===== *)
theory Go_Heap
  imports Api_Types
begin

text \<open>
  An explicit heap for the aliasing that Go's pointers, slices and maps allow, the shapes a deep copy is
  made of, and the promise of a deep copier, which every shape keeps if its parts do.
\<close>

section \<open>The heap\<close>

type_synonym addr = nat
type_synonym slice = "(addr \<times> nat \<times> nat) option"
type_synonym mapref = "addr option"
type_synonym ptr = "(addr \<times> nat) option"

record type_meta =
  tm_Kind :: string
  tm_APIVersion :: string

record go_mapping =
  gm_Group :: string
  gm_Users :: slice
  gm_ClusterRoles :: slice

record 'e go_quota =
  gq_Name :: string
  gq_ResourceQuotaSpec :: 'e

record go_spec =
  gs_Labels :: mapref
  gs_Annotations :: mapref
  gs_ResourceQuotas :: slice
  gs_AccessMappings :: slice

text \<open>The two status types have the same fields, and so have the two list types.\<close>

record go_status =
  gt_ObservedGeneration :: int
  gt_Conditions :: slice
  gt_InvalidReferences :: slice

record 'e go_mns =
  gn_TypeMeta :: type_meta
  gn_ObjectMeta :: 'e
  gn_Spec :: go_spec
  gn_Status :: go_status

record 'e go_cam =
  gc_TypeMeta :: type_meta
  gc_ObjectMeta :: 'e
  gc_Spec :: go_mapping
  gc_Status :: go_status

record 'e go_list =
  gl_TypeMeta :: type_meta
  gl_ListMeta :: 'e
  gl_Items :: slice

text \<open>
  What an address may hold: a map, or an array of one type; \<open>new\<close> makes an array of one. \<open>Foreign\<close> is
  for cells of library types.
\<close>

datatype 'e cell =
    Table "(string, string) fmap"
  | Strings "string list"
  | Mappings "go_mapping list"
  | Quotas "'e go_quota list"
  | Conditions "'e list"
  | References "invalid_reference list"
  | Specs "go_spec list"
  | Statuses "go_status list"
  | MnsObjects "'e go_mns list"
  | CamObjects "'e go_cam list"
  | Lists "'e go_list list"
  | Foreign 'e

record 'e heap =
  next_addr :: addr
  cells :: "addr \<rightharpoonup> 'e cell"

definition heap_ok :: "'e heap \<Rightarrow> bool" where
  "heap_ok h \<longleftrightarrow> (\<forall>a \<in> dom (cells h). a < next_addr h)"

definition alloc :: "'e cell \<Rightarrow> 'e heap \<Rightarrow> addr \<times> 'e heap" where
  "alloc c h = (next_addr h, \<lparr>next_addr = Suc (next_addr h), cells = (cells h)(next_addr h \<mapsto> c)\<rparr>)"

text \<open>\<open>extends h h'\<close>: nothing allocated in \<open>h\<close> was written.\<close>

definition extends :: "'e heap \<Rightarrow> 'e heap \<Rightarrow> bool" where
  "extends h h' \<longleftrightarrow> cells h \<subseteq>\<^sub>m cells h'"

lemma extends_refl [simp]: "extends h h"
  by (simp add: extends_def)

lemma extends_trans: "extends h1 h2 \<Longrightarrow> extends h2 h3 \<Longrightarrow> extends h1 h3"
  unfolding extends_def by (rule map_le_trans)

lemma extends_dom: "extends h h' \<Longrightarrow> dom (cells h) \<subseteq> dom (cells h')"
  unfolding extends_def by (rule map_le_implies_dom_le)

lemma extends_cell: "extends h h' \<Longrightarrow> a \<in> dom (cells h) \<Longrightarrow> cells h' a = cells h a"
  by (auto simp: extends_def map_le_def)

lemma alloc_ok:
  assumes "heap_ok h" and "alloc c h = (a, h')"
  shows "heap_ok h' \<and> extends h h' \<and> cells h' a = Some c \<and> a \<notin> dom (cells h) \<and>
    dom (cells h') = insert a (dom (cells h))"
  using assms by (force simp: heap_ok_def alloc_def extends_def map_le_def less_Suc_eq)

section \<open>Copying, by shape\<close>

text \<open>A field that holds no reference is copied by the assignment; elements one after the other.\<close>

definition copy_flat :: "'a \<Rightarrow> 'e heap \<Rightarrow> 'a \<times> 'e heap" where
  "copy_flat x h = (x, h)"

fun copy_each :: "('a \<Rightarrow> 'e heap \<Rightarrow> 'a \<times> 'e heap) \<Rightarrow> 'a list \<Rightarrow> 'e heap \<Rightarrow> 'a list \<times> 'e heap" where
  "copy_each copy [] h = ([], h)"
| "copy_each copy (x # xs) h =
     (case copy x h of (y, h1) \<Rightarrow> case copy_each copy xs h1 of (ys, h2) \<Rightarrow> (y # ys, h2))"

text \<open>
  What a reference holds, with \<open>pos\<close> its address and \<open>view\<close> the part of the cell it shows; in a well-typed
  program it holds something. The new cell is entered when it is complete; until then nothing else
  knows its address.
\<close>

definition fetch :: "('e cell \<Rightarrow> 'l \<Rightarrow> 'b option) \<Rightarrow> ('l \<Rightarrow> addr) \<Rightarrow> 'e heap \<Rightarrow> 'l \<Rightarrow> 'b option" where
  "fetch view pos h l = (case cells h (pos l) of None \<Rightarrow> None | Some c \<Rightarrow> view c l)"

definition copy_ref ::
  "('e cell \<Rightarrow> 'l \<Rightarrow> 'b option) \<Rightarrow> ('l \<Rightarrow> addr) \<Rightarrow> ('b \<Rightarrow> 'e cell) \<Rightarrow> (addr \<Rightarrow> 'b \<Rightarrow> 'l) \<Rightarrow>
    ('b \<Rightarrow> 'e heap \<Rightarrow> 'b \<times> 'e heap) \<Rightarrow> 'l option \<Rightarrow> 'e heap \<Rightarrow> 'l option \<times> 'e heap" where
  "copy_ref view pos wrap mk copy r h =
     (case r of
        None \<Rightarrow> (None, h)
      | Some l \<Rightarrow>
          (case fetch view pos h l of
             None \<Rightarrow> (None, h)
           | Some b \<Rightarrow>
               (case copy b h of (b', h1) \<Rightarrow> case alloc (wrap b') h1 of (a, h2) \<Rightarrow> (Some (mk a b'), h2))))"

text \<open>Slices: \<open>make([]T, len(*in))\<close> and a loop, or \<open>copy\<close>.\<close>

definition slice_view :: "('e cell \<Rightarrow> 'a list option) \<Rightarrow> 'e cell \<Rightarrow> addr \<times> nat \<times> nat \<Rightarrow> 'a list option" where
  "slice_view un c l =
     (case un c of None \<Rightarrow> None
      | Some xs \<Rightarrow> (case l of (a, off, len) \<Rightarrow> if off + len \<le> length xs then Some (take len (drop off xs)) else None))"

definition copy_slice where
  "copy_slice un wrap copy = copy_ref (slice_view un) fst wrap (\<lambda>a xs. (a, 0, length xs)) (copy_each copy)"

text \<open>Pointers: \<open>new(T)\<close>, and nil for nil.\<close>

definition ptr_view :: "('e cell \<Rightarrow> 'a list option) \<Rightarrow> 'e cell \<Rightarrow> addr \<times> nat \<Rightarrow> 'a option" where
  "ptr_view un c l =
     (case un c of None \<Rightarrow> None | Some xs \<Rightarrow> if snd l < length xs then Some (xs ! snd l) else None)"

definition copy_ptr where
  "copy_ptr un wrap copy = copy_ref (ptr_view un) fst (\<lambda>x. wrap [x]) (\<lambda>a x. (a, 0)) copy"

text \<open>Maps of strings: \<open>make(map[string]string)\<close> and every entry assigned.\<close>

fun table_view :: "'e cell \<Rightarrow> addr \<Rightarrow> (string, string) fmap option" where
  "table_view (Table m) a = Some m"
| "table_view c a = None"

definition copy_map :: "mapref \<Rightarrow> 'e heap \<Rightarrow> mapref \<times> 'e heap" where
  "copy_map = copy_ref table_view id Table (\<lambda>a m. a) copy_flat"

fun un_Strings where "un_Strings (Strings xs) = Some xs" | "un_Strings c = None"
fun un_Mappings where "un_Mappings (Mappings xs) = Some xs" | "un_Mappings c = None"
fun un_Quotas where "un_Quotas (Quotas xs) = Some xs" | "un_Quotas c = None"
fun un_Conditions where "un_Conditions (Conditions xs) = Some xs" | "un_Conditions c = None"
fun un_References where "un_References (References xs) = Some xs" | "un_References c = None"
fun un_Specs where "un_Specs (Specs xs) = Some xs" | "un_Specs c = None"
fun un_Statuses where "un_Statuses (Statuses xs) = Some xs" | "un_Statuses c = None"
fun un_MnsObjects where "un_MnsObjects (MnsObjects xs) = Some xs" | "un_MnsObjects c = None"
fun un_CamObjects where "un_CamObjects (CamObjects xs) = Some xs" | "un_CamObjects c = None"
fun un_Lists where "un_Lists (Lists xs) = Some xs" | "un_Lists c = None"

section \<open>What a deep copier promises\<close>

text \<open>
  \<open>value\<close> is what a program can read through \<open>x\<close>, all references followed; \<open>refs\<close> the addresses it goes
  through. A value depends on nothing else in the heap. A copy has the value of the original, writes
  nothing that was there, and goes only through addresses that are new.
\<close>

locale deep_copier =
  fixes copy :: "'a \<Rightarrow> 'e heap \<Rightarrow> 'a \<times> 'e heap"
    and val :: "'e heap \<Rightarrow> 'a \<Rightarrow> 'v option"
    and refs :: "'e heap \<Rightarrow> 'a \<Rightarrow> addr set"
  assumes refs_alloc: "val h x = Some v \<Longrightarrow> refs h x \<subseteq> dom (cells h)"
    and local: "val h x = Some v \<Longrightarrow> (\<And>a. a \<in> refs h x \<Longrightarrow> cells h' a = cells h a) \<Longrightarrow>
      val h' x = Some v \<and> refs h' x = refs h x"
    and copied: "heap_ok h \<Longrightarrow> val h x = Some v \<Longrightarrow> copy x h = (y, h') \<Longrightarrow>
      heap_ok h' \<and> extends h h' \<and> val h' y = Some v \<and> refs h' y \<inter> dom (cells h) = {}"
begin

lemma extended: "val h x = Some v \<Longrightarrow> extends h h' \<Longrightarrow> val h' x = Some v \<and> refs h' x = refs h x"
  using local [of h x v h'] refs_alloc [of h x v] extends_cell [of h h'] by blast

text \<open>A copy and its original have no address in common, and neither sees what is done to the other.\<close>

lemma copy_disjoint:
  assumes "heap_ok h" and "val h x = Some v" and "copy x h = (y, h')"
  shows "refs h' x \<inter> refs h' y = {}"
  using copied [OF assms] extended [OF assms(2)] refs_alloc [OF assms(2)] by blast

lemma copy_independent:
  assumes "heap_ok h" and "val h x = Some v" and "copy x h = (y, h')"
  shows "(\<forall>a \<in> dom (cells h') - refs h' y. cells h'' a = cells h' a) \<Longrightarrow> val h'' x = Some v"
    and "(\<forall>a \<in> dom (cells h') - refs h' x. cells h'' a = cells h' a) \<Longrightarrow> val h'' y = Some v"
proof -
  have orig: "val h' x = Some v" and copy: "val h' y = Some v"
    using copied [OF assms] extended [OF assms(2)] by blast+
  have apart: "refs h' x \<inter> refs h' y = {}" by (rule copy_disjoint [OF assms])
  show "val h'' x = Some v" if "\<forall>a \<in> dom (cells h') - refs h' y. cells h'' a = cells h' a"
    using local [OF orig, of h''] refs_alloc [OF orig] that apart by blast
  show "val h'' y = Some v" if "\<forall>a \<in> dom (cells h') - refs h' x. cells h'' a = cells h' a"
    using local [OF copy, of h''] refs_alloc [OF copy] that apart by blast
qed

end

section \<open>Every shape keeps the promise\<close>

definition val_flat :: "'e heap \<Rightarrow> 'a \<Rightarrow> 'a option" where
  "val_flat h x = Some x"

definition refs_flat :: "'e heap \<Rightarrow> 'a \<Rightarrow> addr set" where
  "refs_flat h x = {}"

interpretation flat: deep_copier copy_flat val_flat refs_flat
  by unfold_locales (auto simp: copy_flat_def val_flat_def refs_flat_def)

text \<open>Two fields, one after the other.\<close>

definition copy_pair ::
  "('a \<Rightarrow> 'e heap \<Rightarrow> 'a \<times> 'e heap) \<Rightarrow> ('b \<Rightarrow> 'e heap \<Rightarrow> 'b \<times> 'e heap) \<Rightarrow> 'a \<times> 'b \<Rightarrow> 'e heap \<Rightarrow> ('a \<times> 'b) \<times> 'e heap" where
  "copy_pair c1 c2 p h = (case c1 (fst p) h of (x, h1) \<Rightarrow> case c2 (snd p) h1 of (y, h2) \<Rightarrow> ((x, y), h2))"

definition val_pair ::
  "('e heap \<Rightarrow> 'a \<Rightarrow> 'v option) \<Rightarrow> ('e heap \<Rightarrow> 'b \<Rightarrow> 'w option) \<Rightarrow> 'e heap \<Rightarrow> 'a \<times> 'b \<Rightarrow> ('v \<times> 'w) option" where
  "val_pair v1 v2 h p = (case (v1 h (fst p), v2 h (snd p)) of (Some a, Some b) \<Rightarrow> Some (a, b) | _ \<Rightarrow> None)"

definition refs_pair ::
  "('e heap \<Rightarrow> 'a \<Rightarrow> addr set) \<Rightarrow> ('e heap \<Rightarrow> 'b \<Rightarrow> addr set) \<Rightarrow> 'e heap \<Rightarrow> 'a \<times> 'b \<Rightarrow> addr set" where
  "refs_pair r1 r2 h p = r1 h (fst p) \<union> r2 h (snd p)"

lemma val_pair_Some [simp]:
  "val_pair v1 v2 h (x, y) = Some v \<longleftrightarrow> (\<exists>a b. v = (a, b) \<and> v1 h x = Some a \<and> v2 h y = Some b)"
  by (auto simp: val_pair_def split: option.splits)

lemma deep_pair:
  assumes "deep_copier c1 v1 r1" and "deep_copier c2 v2 r2"
  shows "deep_copier (copy_pair c1 c2) (val_pair v1 v2) (refs_pair r1 r2)"
proof
  fix h p v
  assume v: "val_pair v1 v2 h p = Some v"
  obtain x y where p: "p = (x, y)" by (rule prod.exhaust)
  from v obtain a b where ab: "v = (a, b)" "v1 h x = Some a" "v2 h y = Some b" by (auto simp: p)
  show "refs_pair r1 r2 h p \<subseteq> dom (cells h)"
    using deep_copier.refs_alloc [OF assms(1) ab(2)] deep_copier.refs_alloc [OF assms(2) ab(3)]
    by (simp add: refs_pair_def p)
  show "val_pair v1 v2 h' p = Some v \<and> refs_pair r1 r2 h' p = refs_pair r1 r2 h p"
    if "\<And>a. a \<in> refs_pair r1 r2 h p \<Longrightarrow> cells h' a = cells h a" for h'
    using deep_copier.local [OF assms(1) ab(2), of h'] deep_copier.local [OF assms(2) ab(3), of h'] that
    by (simp add: refs_pair_def p ab(1))
  show "heap_ok h' \<and> extends h h' \<and> val_pair v1 v2 h' q = Some v \<and> refs_pair r1 r2 h' q \<inter> dom (cells h) = {}"
    if ok: "heap_ok h" and copy: "copy_pair c1 c2 p h = (q, h')" for q h'
  proof -
    obtain x' h1 y' where c: "c1 x h = (x', h1)" "c2 y h1 = (y', h')" and q: "q = (x', y')"
      using copy by (auto simp: copy_pair_def p split: prod.splits)
    note one = deep_copier.copied [OF assms(1) ok ab(2) c(1)]
    note two = deep_copier.copied [OF assms(2) _ _ c(2), of b]
    have "v2 h1 y = Some b" using deep_copier.extended [OF assms(2) ab(3)] one by blast
    with one two have both: "heap_ok h' \<and> extends h1 h' \<and> v2 h' y' = Some b \<and> refs2 = {}"
      if "refs2 = r2 h' y' \<inter> dom (cells h1)" for refs2 using that by blast
    have "v1 h' x' = Some a \<and> r1 h' x' = r1 h1 x'"
      using deep_copier.extended [OF assms(1), of h1 x' a h'] one both by blast
    with one both extends_dom [of h h1] show ?thesis
      by (simp add: q ab(1) refs_pair_def) (blast intro: extends_trans)
  qed
qed

text \<open>A struct is its fields: \<open>f\<close> takes it apart and \<open>g\<close> puts it together.\<close>

lemma deep_via:
  assumes "deep_copier c v r" and "\<And>x. g (f x) = x" and "\<And>x. f (g x) = x"
    and "\<And>x h. copy x h = (case c (f x) h of (y, h') \<Rightarrow> (g y, h'))"
    and "\<And>h x. val h x = v h (f x)" and "\<And>h x. refs h x = r h (f x)"
  shows "deep_copier copy val refs"
proof
  fix h x a
  assume a: "val h x = Some a"
  note v = a [unfolded assms(5)]
  show "refs h x \<subseteq> dom (cells h)" using deep_copier.refs_alloc [OF assms(1) v] by (simp add: assms(6))
  show "val h' x = Some a \<and> refs h' x = refs h x" if "\<And>b. b \<in> refs h x \<Longrightarrow> cells h' b = cells h b" for h'
    using deep_copier.local [OF assms(1) v, of h'] that by (simp add: assms(5,6))
  show "heap_ok h' \<and> extends h h' \<and> val h' y = Some a \<and> refs h' y \<inter> dom (cells h) = {}"
    if ok: "heap_ok h" and copy: "copy x h = (y, h')" for y h'
  proof -
    obtain z where z: "c (f x) h = (z, h')" "y = g z" using copy by (auto simp: assms(4) split: prod.splits)
    from deep_copier.copied [OF assms(1) ok v z(1)] show ?thesis by (simp add: assms(3,5,6) z(2))
  qed
qed

text \<open>A list is a pair or nothing.\<close>

definition val_each :: "('e heap \<Rightarrow> 'a \<Rightarrow> 'v option) \<Rightarrow> 'e heap \<Rightarrow> 'a list \<Rightarrow> 'v list option" where
  "val_each v h xs = those (map (v h) xs)"

definition refs_each :: "('e heap \<Rightarrow> 'a \<Rightarrow> addr set) \<Rightarrow> 'e heap \<Rightarrow> 'a list \<Rightarrow> addr set" where
  "refs_each r h xs = (\<Union>x \<in> set xs. r h x)"

lemma val_each_simps [simp]:
  "val_each v h [] = Some vs \<longleftrightarrow> vs = []"
  "val_each v h (x # xs) = Some vs \<longleftrightarrow> (\<exists>a as. vs = a # as \<and> v h x = Some a \<and> val_each v h xs = Some as)"
  by (auto simp: val_each_def split: option.splits)

lemma refs_each_simps [simp]: "refs_each r h [] = {}" "refs_each r h (x # xs) = r h x \<union> refs_each r h xs"
  by (simp_all add: refs_each_def)

lemma deep_each:
  fixes c :: "'a \<Rightarrow> 'e heap \<Rightarrow> 'a \<times> 'e heap"
  assumes "deep_copier c v r"
  shows "deep_copier (copy_each c) (val_each v) (refs_each r)"
proof
  fix h xs vs
  assume "val_each v h xs = Some vs"
  then show "refs_each r h xs \<subseteq> dom (cells h)"
    using deep_copier.refs_alloc [OF assms] by (induction xs arbitrary: vs) (simp, simp, blast)
next
  fix h h' :: "'e heap" and xs vs
  assume "val_each v h xs = Some vs" and "\<And>a. a \<in> refs_each r h xs \<Longrightarrow> cells h' a = cells h a"
  then show "val_each v h' xs = Some vs \<and> refs_each r h' xs = refs_each r h xs"
  proof (induction xs arbitrary: vs)
    case (Cons x xs)
    from Cons.prems(1) obtain a as where vs: "vs = a # as" "v h x = Some a" "val_each v h xs = Some as" by auto
    have "v h' x = Some a \<and> r h' x = r h x" using deep_copier.local [OF assms vs(2), of h'] Cons.prems(2) by simp
    moreover have "val_each v h' xs = Some as \<and> refs_each r h' xs = refs_each r h xs"
      using Cons.IH [OF vs(3)] Cons.prems(2) by simp
    ultimately show ?case by (simp add: vs(1))
  qed simp
next
  fix h xs vs ys h'
  assume "heap_ok h" and "val_each v h xs = Some vs" and "copy_each c xs h = (ys, h')"
  then show "heap_ok h' \<and> extends h h' \<and> val_each v h' ys = Some vs \<and> refs_each r h' ys \<inter> dom (cells h) = {}"
  proof (induction xs arbitrary: h vs ys)
    case (Cons x xs)
    then obtain a as where vs: "vs = a # as" "v h x = Some a" "val_each v h xs = Some as" by auto
    obtain y h1 ys' where c: "c x h = (y, h1)" "copy_each c xs h1 = (ys', h')" and ys: "ys = y # ys'"
      using Cons.prems(3) by (auto split: prod.splits)
    note one = deep_copier.copied [OF assms Cons.prems(1) vs(2) c(1)]
    have "val_each v h1 xs = Some as" using vs(3) one deep_copier.extended [OF assms, of h _ _ h1]
      by (induction xs arbitrary: as) auto
    with Cons.IH [OF _ _ c(2), of as] one
    have rest: "heap_ok h' \<and> extends h1 h' \<and> val_each v h' ys' = Some as \<and> refs_each r h' ys' \<inter> dom (cells h1) = {}"
      by blast
    have "v h' y = Some a \<and> r h' y = r h1 y" using deep_copier.extended [OF assms, of h1 y a h'] one rest by blast
    with one rest extends_dom [of h h1] show ?case
      by (simp add: ys vs(1)) (blast intro: extends_trans)
  qed simp
qed

text \<open>A reference, given what it shows of a cell.\<close>

definition val_ref where
  "val_ref view pos v h r =
     (case r of None \<Rightarrow> Some None
      | Some l \<Rightarrow> (case fetch view pos h l of None \<Rightarrow> None | Some b \<Rightarrow> map_option Some (v h b)))"

definition refs_ref where
  "refs_ref view pos rf h r =
     (case r of None \<Rightarrow> {}
      | Some l \<Rightarrow> insert (pos l) (case fetch view pos h l of None \<Rightarrow> {} | Some b \<Rightarrow> rf h b))"

lemma fetch_same: "cells h' (pos l) = cells h (pos l) \<Longrightarrow> fetch view pos h' l = fetch view pos h l"
  by (simp add: fetch_def)

lemma deep_ref:
  assumes "deep_copier c v rf" and "\<And>b a. view (wrap b) (mk a b) = Some b" and "\<And>b a. pos (mk a b) = a"
  shows "deep_copier (copy_ref view pos wrap mk c) (val_ref view pos v) (refs_ref view pos rf)"
proof
  fix h r vs
  assume vs: "val_ref view pos v h r = Some vs"
  show "refs_ref view pos rf h r \<subseteq> dom (cells h)"
  proof (cases r)
    case (Some l)
    then obtain b x where b: "fetch view pos h l = Some b" "v h b = Some x"
      using vs by (auto simp: val_ref_def split: option.splits)
    then have "pos l \<in> dom (cells h)" by (auto simp: fetch_def split: option.splits)
    with deep_copier.refs_alloc [OF assms(1) b(2)] show ?thesis by (simp add: refs_ref_def Some b(1))
  qed (simp add: refs_ref_def)
  show "val_ref view pos v h' r = Some vs \<and> refs_ref view pos rf h' r = refs_ref view pos rf h r"
    if same: "\<And>a. a \<in> refs_ref view pos rf h r \<Longrightarrow> cells h' a = cells h a" for h'
  proof (cases r)
    case (Some l)
    then obtain b x where b: "fetch view pos h l = Some b" "v h b = Some x" "vs = Some x"
      using vs by (auto simp: val_ref_def split: option.splits)
    have "fetch view pos h' l = Some b" using same b(1) by (subst fetch_same [of h' pos l h]) (auto simp: refs_ref_def Some)
    moreover have "v h' b = Some x \<and> rf h' b = rf h b"
      using deep_copier.local [OF assms(1) b(2), of h'] same by (simp add: refs_ref_def Some b(1))
    ultimately show ?thesis by (simp add: val_ref_def refs_ref_def Some b)
  qed (use vs in \<open>simp_all add: val_ref_def refs_ref_def\<close>)
  show "heap_ok h' \<and> extends h h' \<and> val_ref view pos v h' r' = Some vs \<and> refs_ref view pos rf h' r' \<inter> dom (cells h) = {}"
    if ok: "heap_ok h" and copy: "copy_ref view pos wrap mk c r h = (r', h')" for r' h'
  proof (cases r)
    case (Some l)
    then obtain b x where b: "fetch view pos h l = Some b" "v h b = Some x" "vs = Some x"
      using vs by (auto simp: val_ref_def split: option.splits)
    obtain b' h1 a where c: "c b h = (b', h1)" "alloc (wrap b') h1 = (a, h')" "r' = Some (mk a b')"
      using copy by (auto simp: copy_ref_def Some b(1) split: prod.splits)
    note one = deep_copier.copied [OF assms(1) ok b(2) c(1)]
    have new: "heap_ok h' \<and> extends h1 h' \<and> cells h' a = Some (wrap b') \<and> a \<notin> dom (cells h1)"
      using alloc_ok [OF _ c(2)] one by blast
    then have "fetch view pos h' (mk a b') = Some b'" by (simp add: fetch_def assms(2,3))
    moreover have "v h' b' = Some x \<and> rf h' b' = rf h1 b'"
      using deep_copier.extended [OF assms(1), of h1 b' x h'] one new by blast
    ultimately show ?thesis using one new extends_dom [of h h1]
      by (simp add: c(3) val_ref_def refs_ref_def b(3) assms(3)) (blast intro: extends_trans)
  qed (use vs copy ok in \<open>auto simp: val_ref_def refs_ref_def copy_ref_def\<close>)
qed

end
