(* ===== verification/Deep_Copy.thy ===== *)
theory Deep_Copy
  imports Go_Heap
begin

text \<open>
  \<open>api/v1alpha1/zz_generated.deepcopy.go\<close>, function by function, over the heap of \<open>Go_Heap\<close>. Everywhere
  else in this development objects are values; that a copy is independent of its original is shown here.
  The copiers of library types are an argument.
\<close>

record 'e library =
  lib_ObjectMeta :: "'e \<Rightarrow> 'e heap \<Rightarrow> 'e \<times> 'e heap"
  lib_ListMeta :: "'e \<Rightarrow> 'e heap \<Rightarrow> 'e \<times> 'e heap"
  lib_ResourceQuotaSpec :: "'e \<Rightarrow> 'e heap \<Rightarrow> 'e \<times> 'e heap"
  lib_Condition :: "'e \<Rightarrow> 'e heap \<Rightarrow> 'e \<times> 'e heap"

section \<open>DeepCopyInto\<close>

text \<open>Each starts from \<open>*out = *in\<close> and then replaces the fields that hold references.\<close>

definition AccessMapping_DeepCopyInto :: "go_mapping \<Rightarrow> 'e heap \<Rightarrow> go_mapping \<times> 'e heap" where
  "AccessMapping_DeepCopyInto i h =
     (case copy_slice un_Strings Strings copy_flat (gm_Users i) h of (us, h1) \<Rightarrow>
      case copy_slice un_Strings Strings copy_flat (gm_ClusterRoles i) h1 of (rs, h2) \<Rightarrow>
        (i\<lparr>gm_Users := us, gm_ClusterRoles := rs\<rparr>, h2))"

definition InvalidReference_DeepCopyInto :: "invalid_reference \<Rightarrow> 'e heap \<Rightarrow> invalid_reference \<times> 'e heap" where
  "InvalidReference_DeepCopyInto i h = (i, h)"

definition ResourceQuota_DeepCopyInto :: "'e library \<Rightarrow> 'e go_quota \<Rightarrow> 'e heap \<Rightarrow> 'e go_quota \<times> 'e heap" where
  "ResourceQuota_DeepCopyInto L i h =
     (case lib_ResourceQuotaSpec L (gq_ResourceQuotaSpec i) h of (sp, h1) \<Rightarrow> (i\<lparr>gq_ResourceQuotaSpec := sp\<rparr>, h1))"

definition ManagedNamespaceSpec_DeepCopyInto :: "'e library \<Rightarrow> go_spec \<Rightarrow> 'e heap \<Rightarrow> go_spec \<times> 'e heap" where
  "ManagedNamespaceSpec_DeepCopyInto L i h =
     (case copy_map (gs_Labels i) h of (ls, h1) \<Rightarrow>
      case copy_map (gs_Annotations i) h1 of (as, h2) \<Rightarrow>
      case copy_slice un_Quotas Quotas (ResourceQuota_DeepCopyInto L) (gs_ResourceQuotas i) h2 of (qs, h3) \<Rightarrow>
      case copy_slice un_Mappings Mappings AccessMapping_DeepCopyInto (gs_AccessMappings i) h3 of (ms, h4) \<Rightarrow>
        (i\<lparr>gs_Labels := ls, gs_Annotations := as, gs_ResourceQuotas := qs, gs_AccessMappings := ms\<rparr>, h4))"

definition ManagedNamespaceStatus_DeepCopyInto :: "'e library \<Rightarrow> go_status \<Rightarrow> 'e heap \<Rightarrow> go_status \<times> 'e heap" where
  "ManagedNamespaceStatus_DeepCopyInto L i h =
     (case copy_slice un_Conditions Conditions (lib_Condition L) (gt_Conditions i) h of (cs, h1) \<Rightarrow>
      case copy_slice un_References References copy_flat (gt_InvalidReferences i) h1 of (rs, h2) \<Rightarrow>
        (i\<lparr>gt_Conditions := cs, gt_InvalidReferences := rs\<rparr>, h2))"

definition ClusterAccessMappingStatus_DeepCopyInto :: "'e library \<Rightarrow> go_status \<Rightarrow> 'e heap \<Rightarrow> go_status \<times> 'e heap" where
  "ClusterAccessMappingStatus_DeepCopyInto L i h =
     (case copy_slice un_Conditions Conditions (lib_Condition L) (gt_Conditions i) h of (cs, h1) \<Rightarrow>
      case copy_slice un_References References copy_flat (gt_InvalidReferences i) h1 of (rs, h2) \<Rightarrow>
        (i\<lparr>gt_Conditions := cs, gt_InvalidReferences := rs\<rparr>, h2))"

definition ManagedNamespace_DeepCopyInto :: "'e library \<Rightarrow> 'e go_mns \<Rightarrow> 'e heap \<Rightarrow> 'e go_mns \<times> 'e heap" where
  "ManagedNamespace_DeepCopyInto L i h =
     (case lib_ObjectMeta L (gn_ObjectMeta i) h of (m, h1) \<Rightarrow>
      case ManagedNamespaceSpec_DeepCopyInto L (gn_Spec i) h1 of (sp, h2) \<Rightarrow>
      case ManagedNamespaceStatus_DeepCopyInto L (gn_Status i) h2 of (st, h3) \<Rightarrow>
        (i\<lparr>gn_TypeMeta := gn_TypeMeta i, gn_ObjectMeta := m, gn_Spec := sp, gn_Status := st\<rparr>, h3))"

definition ClusterAccessMapping_DeepCopyInto :: "'e library \<Rightarrow> 'e go_cam \<Rightarrow> 'e heap \<Rightarrow> 'e go_cam \<times> 'e heap" where
  "ClusterAccessMapping_DeepCopyInto L i h =
     (case lib_ObjectMeta L (gc_ObjectMeta i) h of (m, h1) \<Rightarrow>
      case AccessMapping_DeepCopyInto (gc_Spec i) h1 of (sp, h2) \<Rightarrow>
      case ClusterAccessMappingStatus_DeepCopyInto L (gc_Status i) h2 of (st, h3) \<Rightarrow>
        (i\<lparr>gc_TypeMeta := gc_TypeMeta i, gc_ObjectMeta := m, gc_Spec := sp, gc_Status := st\<rparr>, h3))"

definition ManagedNamespaceList_DeepCopyInto :: "'e library \<Rightarrow> 'e go_list \<Rightarrow> 'e heap \<Rightarrow> 'e go_list \<times> 'e heap" where
  "ManagedNamespaceList_DeepCopyInto L i h =
     (case lib_ListMeta L (gl_ListMeta i) h of (m, h1) \<Rightarrow>
      case copy_slice un_MnsObjects MnsObjects (ManagedNamespace_DeepCopyInto L) (gl_Items i) h1 of (xs, h2) \<Rightarrow>
        (i\<lparr>gl_TypeMeta := gl_TypeMeta i, gl_ListMeta := m, gl_Items := xs\<rparr>, h2))"

definition ClusterAccessMappingList_DeepCopyInto :: "'e library \<Rightarrow> 'e go_list \<Rightarrow> 'e heap \<Rightarrow> 'e go_list \<times> 'e heap" where
  "ClusterAccessMappingList_DeepCopyInto L i h =
     (case lib_ListMeta L (gl_ListMeta i) h of (m, h1) \<Rightarrow>
      case copy_slice un_CamObjects CamObjects (ClusterAccessMapping_DeepCopyInto L) (gl_Items i) h1 of (xs, h2) \<Rightarrow>
        (i\<lparr>gl_TypeMeta := gl_TypeMeta i, gl_ListMeta := m, gl_Items := xs\<rparr>, h2))"

section \<open>DeepCopy\<close>

definition AccessMapping_DeepCopy :: "ptr \<Rightarrow> 'e heap \<Rightarrow> ptr \<times> 'e heap" where
  "AccessMapping_DeepCopy = copy_ptr un_Mappings Mappings AccessMapping_DeepCopyInto"

definition InvalidReference_DeepCopy :: "ptr \<Rightarrow> 'e heap \<Rightarrow> ptr \<times> 'e heap" where
  "InvalidReference_DeepCopy = copy_ptr un_References References InvalidReference_DeepCopyInto"

definition ResourceQuota_DeepCopy :: "'e library \<Rightarrow> ptr \<Rightarrow> 'e heap \<Rightarrow> ptr \<times> 'e heap" where
  "ResourceQuota_DeepCopy L = copy_ptr un_Quotas Quotas (ResourceQuota_DeepCopyInto L)"

definition ManagedNamespaceSpec_DeepCopy :: "'e library \<Rightarrow> ptr \<Rightarrow> 'e heap \<Rightarrow> ptr \<times> 'e heap" where
  "ManagedNamespaceSpec_DeepCopy L = copy_ptr un_Specs Specs (ManagedNamespaceSpec_DeepCopyInto L)"

definition ManagedNamespaceStatus_DeepCopy :: "'e library \<Rightarrow> ptr \<Rightarrow> 'e heap \<Rightarrow> ptr \<times> 'e heap" where
  "ManagedNamespaceStatus_DeepCopy L = copy_ptr un_Statuses Statuses (ManagedNamespaceStatus_DeepCopyInto L)"

definition ClusterAccessMappingStatus_DeepCopy :: "'e library \<Rightarrow> ptr \<Rightarrow> 'e heap \<Rightarrow> ptr \<times> 'e heap" where
  "ClusterAccessMappingStatus_DeepCopy L = copy_ptr un_Statuses Statuses (ClusterAccessMappingStatus_DeepCopyInto L)"

definition ManagedNamespace_DeepCopy :: "'e library \<Rightarrow> ptr \<Rightarrow> 'e heap \<Rightarrow> ptr \<times> 'e heap" where
  "ManagedNamespace_DeepCopy L = copy_ptr un_MnsObjects MnsObjects (ManagedNamespace_DeepCopyInto L)"

definition ClusterAccessMapping_DeepCopy :: "'e library \<Rightarrow> ptr \<Rightarrow> 'e heap \<Rightarrow> ptr \<times> 'e heap" where
  "ClusterAccessMapping_DeepCopy L = copy_ptr un_CamObjects CamObjects (ClusterAccessMapping_DeepCopyInto L)"

definition ManagedNamespaceList_DeepCopy :: "'e library \<Rightarrow> ptr \<Rightarrow> 'e heap \<Rightarrow> ptr \<times> 'e heap" where
  "ManagedNamespaceList_DeepCopy L = copy_ptr un_Lists Lists (ManagedNamespaceList_DeepCopyInto L)"

definition ClusterAccessMappingList_DeepCopy :: "'e library \<Rightarrow> ptr \<Rightarrow> 'e heap \<Rightarrow> ptr \<times> 'e heap" where
  "ClusterAccessMappingList_DeepCopy L = copy_ptr un_Lists Lists (ClusterAccessMappingList_DeepCopyInto L)"

section \<open>DeepCopyObject\<close>

text \<open>A \<open>runtime.Object\<close> is a pointer with its type, or the nil interface.\<close>

datatype object_type = TManagedNamespace | TManagedNamespaceList | TClusterAccessMapping | TClusterAccessMappingList

definition ManagedNamespace_DeepCopyObject ::
  "'e library \<Rightarrow> ptr \<Rightarrow> 'e heap \<Rightarrow> (object_type \<times> ptr) option \<times> 'e heap" where
  "ManagedNamespace_DeepCopyObject L p h =
     (case ManagedNamespace_DeepCopy L p h of (c, h') \<Rightarrow> (if c \<noteq> None then Some (TManagedNamespace, c) else None, h'))"

definition ManagedNamespaceList_DeepCopyObject ::
  "'e library \<Rightarrow> ptr \<Rightarrow> 'e heap \<Rightarrow> (object_type \<times> ptr) option \<times> 'e heap" where
  "ManagedNamespaceList_DeepCopyObject L p h =
     (case ManagedNamespaceList_DeepCopy L p h of (c, h') \<Rightarrow> (if c \<noteq> None then Some (TManagedNamespaceList, c) else None, h'))"

definition ClusterAccessMapping_DeepCopyObject ::
  "'e library \<Rightarrow> ptr \<Rightarrow> 'e heap \<Rightarrow> (object_type \<times> ptr) option \<times> 'e heap" where
  "ClusterAccessMapping_DeepCopyObject L p h =
     (case ClusterAccessMapping_DeepCopy L p h of (c, h') \<Rightarrow> (if c \<noteq> None then Some (TClusterAccessMapping, c) else None, h'))"

definition ClusterAccessMappingList_DeepCopyObject ::
  "'e library \<Rightarrow> ptr \<Rightarrow> 'e heap \<Rightarrow> (object_type \<times> ptr) option \<times> 'e heap" where
  "ClusterAccessMappingList_DeepCopyObject L p h =
     (case ClusterAccessMappingList_DeepCopy L p h of (c, h') \<Rightarrow> (if c \<noteq> None then Some (TClusterAccessMappingList, c) else None, h'))"

text \<open>The dynamic dispatch on \<open>runtime.Object\<close>.\<close>

fun DeepCopyObject :: "'e library \<Rightarrow> object_type \<Rightarrow> ptr \<Rightarrow> 'e heap \<Rightarrow> (object_type \<times> ptr) option \<times> 'e heap" where
  "DeepCopyObject L TManagedNamespace = ManagedNamespace_DeepCopyObject L"
| "DeepCopyObject L TManagedNamespaceList = ManagedNamespaceList_DeepCopyObject L"
| "DeepCopyObject L TClusterAccessMapping = ClusterAccessMapping_DeepCopyObject L"
| "DeepCopyObject L TClusterAccessMappingList = ClusterAccessMappingList_DeepCopyObject L"

section \<open>The scheme\<close>

text \<open>
  \<open>AddToScheme\<close> of \<open>types.go\<close>: every kind is registered in the group's version, and the builder returns no
  error, so that \<open>main\<close> loses nothing by discarding it. The two calls on the scheme are the library's.
\<close>

record group_version =
  gv_Group :: string
  gv_Version :: string

definition GroupVersion :: group_version where
  "GroupVersion = \<lparr>gv_Group = ''k8s.pliu.dev'', gv_Version = ''v1alpha1''\<rparr>"

definition SchemeBuilder ::
  "(group_version \<Rightarrow> object_type list \<Rightarrow> 'c \<Rightarrow> 'c) \<Rightarrow> (group_version \<Rightarrow> 'c \<Rightarrow> 'c) \<Rightarrow> 'c \<Rightarrow> string option \<times> 'c" where
  "SchemeBuilder AddKnownTypes AddToGroupVersion s =
     (None, AddToGroupVersion GroupVersion
        (AddKnownTypes GroupVersion
           [TManagedNamespace, TManagedNamespaceList, TClusterAccessMapping, TClusterAccessMappingList] s))"

end
