(* ===== verification/Deep_Copy_Properties.thy ===== *)
theory Deep_Copy_Properties
  imports Deep_Copy
begin

text \<open>Every generated copier is a deep copier, if those of the library are.\<close>

section \<open>The shapes\<close>

abbreviation "val_slice un v \<equiv> val_ref (slice_view un) fst (val_each v)"
abbreviation "refs_slice un r \<equiv> refs_ref (slice_view un) fst (refs_each r)"
abbreviation "val_ptr un v \<equiv> val_ref (ptr_view un) fst v"
abbreviation "refs_ptr un r \<equiv> refs_ref (ptr_view un) fst r"
abbreviation "val_map \<equiv> val_ref table_view id val_flat"
abbreviation "refs_map \<equiv> refs_ref table_view id refs_flat"

lemma deep_slice:
  assumes "deep_copier c v r" and "\<And>xs. un (wrap xs) = Some xs"
  shows "deep_copier (copy_slice un wrap c) (val_slice un v) (refs_slice un r)"
  unfolding copy_slice_def by (rule deep_ref [OF deep_each [OF assms(1)]]) (simp_all add: slice_view_def assms(2))

lemma deep_ptr:
  assumes "deep_copier c v r" and "\<And>xs. un (wrap xs) = Some xs"
  shows "deep_copier (copy_ptr un wrap c) (val_ptr un v) (refs_ptr un r)"
  unfolding copy_ptr_def by (rule deep_ref [OF assms(1)]) (simp_all add: ptr_view_def assms(2))

lemma deep_map: "deep_copier copy_map val_map refs_map"
  unfolding copy_map_def by (rule deep_ref [OF flat.deep_copier_axioms]) simp_all

lemmas deep_flat = flat.deep_copier_axioms
lemmas deep_strings = deep_slice [OF deep_flat, of un_Strings Strings, simplified]
lemmas deep_references = deep_slice [OF deep_flat, of un_References References, simplified]

section \<open>What a program reads through each type\<close>

type_synonym mapping_value = "string \<times> string list option \<times> string list option"
type_synonym 'v quota_value = "string \<times> 'v"
type_synonym 'v spec_value =
  "(string, string) fmap option \<times> (string, string) fmap option \<times> 'v quota_value list option \<times> mapping_value list option"
type_synonym 'v status_value = "int \<times> 'v list option \<times> invalid_reference list option"
type_synonym 'v mns_value = "type_meta \<times> 'v \<times> 'v spec_value \<times> 'v status_value"
type_synonym 'v cam_value = "type_meta \<times> 'v \<times> mapping_value \<times> 'v status_value"

definition mapping_fields :: "go_mapping \<Rightarrow> string \<times> slice \<times> slice" where
  "mapping_fields x = (gm_Group x, gm_Users x, gm_ClusterRoles x)"

abbreviation "val_mapping_fields \<equiv> val_pair val_flat (val_pair (val_slice un_Strings val_flat) (val_slice un_Strings val_flat))"
abbreviation "refs_mapping_fields \<equiv>
  refs_pair refs_flat (refs_pair (refs_slice un_Strings refs_flat) (refs_slice un_Strings refs_flat))"

definition mapping_val :: "'e heap \<Rightarrow> go_mapping \<Rightarrow> mapping_value option" where
  "mapping_val h x = val_mapping_fields h (mapping_fields x)"

definition mapping_refs :: "'e heap \<Rightarrow> go_mapping \<Rightarrow> addr set" where
  "mapping_refs h x = refs_mapping_fields h (mapping_fields x)"

lemma deep_mapping: "deep_copier AccessMapping_DeepCopyInto mapping_val mapping_refs"
proof (rule deep_via [OF deep_pair [OF deep_flat deep_pair [OF deep_strings deep_strings]]])
  show "(\<lambda>(g, u, r). \<lparr>gm_Group = g, gm_Users = u, gm_ClusterRoles = r\<rparr>) (mapping_fields x) = x" for x
    by (cases x) (simp add: mapping_fields_def)
qed (auto simp: mapping_fields_def mapping_val_def mapping_refs_def AccessMapping_DeepCopyInto_def copy_pair_def
    copy_flat_def split: prod.splits)

text \<open>The copiers of the library, and what is read through its types.\<close>

locale go_library =
  fixes L :: "'e library"
    and lval :: "'e heap \<Rightarrow> 'e \<Rightarrow> 'v option"
    and lrefs :: "'e heap \<Rightarrow> 'e \<Rightarrow> addr set"
  assumes deep_ObjectMeta: "deep_copier (lib_ObjectMeta L) lval lrefs"
    and deep_ListMeta: "deep_copier (lib_ListMeta L) lval lrefs"
    and deep_ResourceQuotaSpec: "deep_copier (lib_ResourceQuotaSpec L) lval lrefs"
    and deep_Condition: "deep_copier (lib_Condition L) lval lrefs"

definition quota_fields :: "'e go_quota \<Rightarrow> string \<times> 'e" where
  "quota_fields x = (gq_Name x, gq_ResourceQuotaSpec x)"

definition quota_val :: "('e heap \<Rightarrow> 'e \<Rightarrow> 'v option) \<Rightarrow> 'e heap \<Rightarrow> 'e go_quota \<Rightarrow> 'v quota_value option" where
  "quota_val lv h x = val_pair val_flat lv h (quota_fields x)"

definition quota_refs :: "('e heap \<Rightarrow> 'e \<Rightarrow> addr set) \<Rightarrow> 'e heap \<Rightarrow> 'e go_quota \<Rightarrow> addr set" where
  "quota_refs lr h x = refs_pair refs_flat lr h (quota_fields x)"

definition spec_fields :: "go_spec \<Rightarrow> mapref \<times> mapref \<times> slice \<times> slice" where
  "spec_fields x = (gs_Labels x, gs_Annotations x, gs_ResourceQuotas x, gs_AccessMappings x)"

definition spec_val :: "('e heap \<Rightarrow> 'e \<Rightarrow> 'v option) \<Rightarrow> 'e heap \<Rightarrow> go_spec \<Rightarrow> 'v spec_value option" where
  "spec_val lv h x = val_pair val_map (val_pair val_map
     (val_pair (val_slice un_Quotas (quota_val lv)) (val_slice un_Mappings mapping_val))) h (spec_fields x)"

definition spec_refs :: "('e heap \<Rightarrow> 'e \<Rightarrow> addr set) \<Rightarrow> 'e heap \<Rightarrow> go_spec \<Rightarrow> addr set" where
  "spec_refs lr h x = refs_pair refs_map (refs_pair refs_map
     (refs_pair (refs_slice un_Quotas (quota_refs lr)) (refs_slice un_Mappings mapping_refs))) h (spec_fields x)"

definition status_fields :: "go_status \<Rightarrow> int \<times> slice \<times> slice" where
  "status_fields x = (gt_ObservedGeneration x, gt_Conditions x, gt_InvalidReferences x)"

definition status_val :: "('e heap \<Rightarrow> 'e \<Rightarrow> 'v option) \<Rightarrow> 'e heap \<Rightarrow> go_status \<Rightarrow> 'v status_value option" where
  "status_val lv h x = val_pair val_flat
     (val_pair (val_slice un_Conditions lv) (val_slice un_References val_flat)) h (status_fields x)"

definition status_refs :: "('e heap \<Rightarrow> 'e \<Rightarrow> addr set) \<Rightarrow> 'e heap \<Rightarrow> go_status \<Rightarrow> addr set" where
  "status_refs lr h x = refs_pair refs_flat
     (refs_pair (refs_slice un_Conditions lr) (refs_slice un_References refs_flat)) h (status_fields x)"

definition mns_fields :: "'e go_mns \<Rightarrow> type_meta \<times> 'e \<times> go_spec \<times> go_status" where
  "mns_fields x = (gn_TypeMeta x, gn_ObjectMeta x, gn_Spec x, gn_Status x)"

definition mns_val :: "('e heap \<Rightarrow> 'e \<Rightarrow> 'v option) \<Rightarrow> 'e heap \<Rightarrow> 'e go_mns \<Rightarrow> 'v mns_value option" where
  "mns_val lv h x = val_pair val_flat (val_pair lv (val_pair (spec_val lv) (status_val lv))) h (mns_fields x)"

definition mns_refs :: "('e heap \<Rightarrow> 'e \<Rightarrow> addr set) \<Rightarrow> 'e heap \<Rightarrow> 'e go_mns \<Rightarrow> addr set" where
  "mns_refs lr h x = refs_pair refs_flat (refs_pair lr (refs_pair (spec_refs lr) (status_refs lr))) h (mns_fields x)"

definition cam_fields :: "'e go_cam \<Rightarrow> type_meta \<times> 'e \<times> go_mapping \<times> go_status" where
  "cam_fields x = (gc_TypeMeta x, gc_ObjectMeta x, gc_Spec x, gc_Status x)"

definition cam_val :: "('e heap \<Rightarrow> 'e \<Rightarrow> 'v option) \<Rightarrow> 'e heap \<Rightarrow> 'e go_cam \<Rightarrow> 'v cam_value option" where
  "cam_val lv h x = val_pair val_flat (val_pair lv (val_pair mapping_val (status_val lv))) h (cam_fields x)"

definition cam_refs :: "('e heap \<Rightarrow> 'e \<Rightarrow> addr set) \<Rightarrow> 'e heap \<Rightarrow> 'e go_cam \<Rightarrow> addr set" where
  "cam_refs lr h x = refs_pair refs_flat (refs_pair lr (refs_pair mapping_refs (status_refs lr))) h (cam_fields x)"

definition list_fields :: "'e go_list \<Rightarrow> type_meta \<times> 'e \<times> slice" where
  "list_fields x = (gl_TypeMeta x, gl_ListMeta x, gl_Items x)"

definition list_val where
  "list_val un v lv h x = val_pair val_flat (val_pair lv (val_slice un v)) h (list_fields x)"

definition list_refs where
  "list_refs un r lr h x = refs_pair refs_flat (refs_pair lr (refs_slice un r)) h (list_fields x)"

lemmas copy_fields_def = quota_fields_def spec_fields_def status_fields_def mns_fields_def cam_fields_def list_fields_def

lemmas copy_val_def = quota_val_def spec_val_def status_val_def mns_val_def cam_val_def list_val_def
  quota_refs_def spec_refs_def status_refs_def mns_refs_def cam_refs_def list_refs_def

lemma deep_reference: "deep_copier InvalidReference_DeepCopyInto val_flat refs_flat"
  by (rule deep_via [OF deep_flat, where f = "\<lambda>x. x" and g = "\<lambda>x. x"])
    (simp_all add: InvalidReference_DeepCopyInto_def copy_flat_def)

context go_library begin

lemma deep_quota: "deep_copier (ResourceQuota_DeepCopyInto L) (quota_val lval) (quota_refs lrefs)"
proof (rule deep_via [OF deep_pair [OF deep_flat deep_ResourceQuotaSpec]])
  show "(\<lambda>(n, s). \<lparr>gq_Name = n, gq_ResourceQuotaSpec = s\<rparr>) (quota_fields x) = x" for x :: "'a go_quota"
    by (cases x) (simp add: copy_fields_def)
qed (auto simp: copy_fields_def copy_val_def ResourceQuota_DeepCopyInto_def copy_pair_def copy_flat_def
    split: prod.splits)

lemma deep_status_fields:
  "deep_copier (copy_pair copy_flat (copy_pair (copy_slice un_Conditions Conditions (lib_Condition L))
     (copy_slice un_References References copy_flat)))
   (val_pair val_flat (val_pair (val_slice un_Conditions lval) (val_slice un_References val_flat)))
   (refs_pair refs_flat (refs_pair (refs_slice un_Conditions lrefs) (refs_slice un_References refs_flat)))"
  by (intro deep_pair deep_flat deep_references deep_slice [OF deep_Condition]) simp

lemma deep_mns_status: "deep_copier (ManagedNamespaceStatus_DeepCopyInto L) (status_val lval) (status_refs lrefs)"
proof (rule deep_via [OF deep_status_fields])
  show "(\<lambda>(g, c, r). \<lparr>gt_ObservedGeneration = g, gt_Conditions = c, gt_InvalidReferences = r\<rparr>) (status_fields x) = x" for x
    by (cases x) (simp add: copy_fields_def)
qed (auto simp: copy_fields_def copy_val_def ManagedNamespaceStatus_DeepCopyInto_def copy_pair_def copy_flat_def
    split: prod.splits)

lemma deep_cam_status: "deep_copier (ClusterAccessMappingStatus_DeepCopyInto L) (status_val lval) (status_refs lrefs)"
proof (rule deep_via [OF deep_status_fields])
  show "(\<lambda>(g, c, r). \<lparr>gt_ObservedGeneration = g, gt_Conditions = c, gt_InvalidReferences = r\<rparr>) (status_fields x) = x" for x
    by (cases x) (simp add: copy_fields_def)
qed (auto simp: copy_fields_def copy_val_def ClusterAccessMappingStatus_DeepCopyInto_def copy_pair_def copy_flat_def
    split: prod.splits)

lemma deep_spec: "deep_copier (ManagedNamespaceSpec_DeepCopyInto L) (spec_val lval) (spec_refs lrefs)"
proof (rule deep_via)
  show "deep_copier
      (copy_pair copy_map (copy_pair copy_map (copy_pair (copy_slice un_Quotas Quotas (ResourceQuota_DeepCopyInto L))
        (copy_slice un_Mappings Mappings AccessMapping_DeepCopyInto))))
      (val_pair val_map (val_pair val_map (val_pair (val_slice un_Quotas (quota_val lval)) (val_slice un_Mappings mapping_val))))
      (refs_pair refs_map (refs_pair refs_map
        (refs_pair (refs_slice un_Quotas (quota_refs lrefs)) (refs_slice un_Mappings mapping_refs))))"
    by (intro deep_pair deep_map deep_slice deep_quota deep_mapping) simp_all
  show "(\<lambda>(l, a, q, m). \<lparr>gs_Labels = l, gs_Annotations = a, gs_ResourceQuotas = q, gs_AccessMappings = m\<rparr>) (spec_fields x) = x" for x
    by (cases x) (simp add: copy_fields_def)
qed (auto simp: copy_fields_def copy_val_def ManagedNamespaceSpec_DeepCopyInto_def copy_pair_def split: prod.splits)

lemma deep_mns: "deep_copier (ManagedNamespace_DeepCopyInto L) (mns_val lval) (mns_refs lrefs)"
proof (rule deep_via [OF deep_pair [OF deep_flat deep_pair [OF deep_ObjectMeta deep_pair [OF deep_spec deep_mns_status]]]])
  show "(\<lambda>(t, m, s, u). \<lparr>gn_TypeMeta = t, gn_ObjectMeta = m, gn_Spec = s, gn_Status = u\<rparr>) (mns_fields x) = x" for x :: "'a go_mns"
    by (cases x) (simp add: copy_fields_def)
qed (auto simp: copy_fields_def copy_val_def ManagedNamespace_DeepCopyInto_def copy_pair_def copy_flat_def
    split: prod.splits)

lemma deep_cam: "deep_copier (ClusterAccessMapping_DeepCopyInto L) (cam_val lval) (cam_refs lrefs)"
proof (rule deep_via [OF deep_pair [OF deep_flat deep_pair [OF deep_ObjectMeta deep_pair [OF deep_mapping deep_cam_status]]]])
  show "(\<lambda>(t, m, s, u). \<lparr>gc_TypeMeta = t, gc_ObjectMeta = m, gc_Spec = s, gc_Status = u\<rparr>) (cam_fields x) = x" for x :: "'a go_cam"
    by (cases x) (simp add: copy_fields_def)
qed (auto simp: copy_fields_def copy_val_def ClusterAccessMapping_DeepCopyInto_def copy_pair_def copy_flat_def
    split: prod.splits)

lemma deep_mns_list:
  "deep_copier (ManagedNamespaceList_DeepCopyInto L) (list_val un_MnsObjects (mns_val lval) lval)
     (list_refs un_MnsObjects (mns_refs lrefs) lrefs)"
proof (rule deep_via)
  show "deep_copier
      (copy_pair copy_flat (copy_pair (lib_ListMeta L) (copy_slice un_MnsObjects MnsObjects (ManagedNamespace_DeepCopyInto L))))
      (val_pair val_flat (val_pair lval (val_slice un_MnsObjects (mns_val lval))))
      (refs_pair refs_flat (refs_pair lrefs (refs_slice un_MnsObjects (mns_refs lrefs))))"
    by (intro deep_pair deep_flat deep_ListMeta deep_slice deep_mns) simp
  show "(\<lambda>(t, m, i). \<lparr>gl_TypeMeta = t, gl_ListMeta = m, gl_Items = i\<rparr>) (list_fields x) = x" for x :: "'a go_list"
    by (cases x) (simp add: copy_fields_def)
qed (auto simp: copy_fields_def copy_val_def ManagedNamespaceList_DeepCopyInto_def copy_pair_def copy_flat_def
    split: prod.splits)

lemma deep_cam_list:
  "deep_copier (ClusterAccessMappingList_DeepCopyInto L) (list_val un_CamObjects (cam_val lval) lval)
     (list_refs un_CamObjects (cam_refs lrefs) lrefs)"
proof (rule deep_via)
  show "deep_copier
      (copy_pair copy_flat (copy_pair (lib_ListMeta L) (copy_slice un_CamObjects CamObjects (ClusterAccessMapping_DeepCopyInto L))))
      (val_pair val_flat (val_pair lval (val_slice un_CamObjects (cam_val lval))))
      (refs_pair refs_flat (refs_pair lrefs (refs_slice un_CamObjects (cam_refs lrefs))))"
    by (intro deep_pair deep_flat deep_ListMeta deep_slice deep_cam) simp
  show "(\<lambda>(t, m, i). \<lparr>gl_TypeMeta = t, gl_ListMeta = m, gl_Items = i\<rparr>) (list_fields x) = x" for x :: "'a go_list"
    by (cases x) (simp add: copy_fields_def)
qed (auto simp: copy_fields_def copy_val_def ClusterAccessMappingList_DeepCopyInto_def copy_pair_def copy_flat_def
    split: prod.splits)

end

section \<open>Pointers and objects\<close>

context go_library begin

lemma deep_pointers:
  "deep_copier (AccessMapping_DeepCopy) (val_ptr un_Mappings mapping_val) (refs_ptr un_Mappings mapping_refs)"
  "deep_copier (InvalidReference_DeepCopy) (val_ptr un_References val_flat) (refs_ptr un_References refs_flat)"
  "deep_copier (ResourceQuota_DeepCopy L) (val_ptr un_Quotas (quota_val lval)) (refs_ptr un_Quotas (quota_refs lrefs))"
  "deep_copier (ManagedNamespaceSpec_DeepCopy L) (val_ptr un_Specs (spec_val lval)) (refs_ptr un_Specs (spec_refs lrefs))"
  "deep_copier (ManagedNamespaceStatus_DeepCopy L) (val_ptr un_Statuses (status_val lval)) (refs_ptr un_Statuses (status_refs lrefs))"
  "deep_copier (ClusterAccessMappingStatus_DeepCopy L) (val_ptr un_Statuses (status_val lval)) (refs_ptr un_Statuses (status_refs lrefs))"
  "deep_copier (ManagedNamespace_DeepCopy L) (val_ptr un_MnsObjects (mns_val lval)) (refs_ptr un_MnsObjects (mns_refs lrefs))"
  "deep_copier (ClusterAccessMapping_DeepCopy L) (val_ptr un_CamObjects (cam_val lval)) (refs_ptr un_CamObjects (cam_refs lrefs))"
  "deep_copier (ManagedNamespaceList_DeepCopy L) (val_ptr un_Lists (list_val un_MnsObjects (mns_val lval) lval))
     (refs_ptr un_Lists (list_refs un_MnsObjects (mns_refs lrefs) lrefs))"
  "deep_copier (ClusterAccessMappingList_DeepCopy L) (val_ptr un_Lists (list_val un_CamObjects (cam_val lval) lval))
     (refs_ptr un_Lists (list_refs un_CamObjects (cam_refs lrefs) lrefs))"
  unfolding AccessMapping_DeepCopy_def InvalidReference_DeepCopy_def ResourceQuota_DeepCopy_def
    ManagedNamespaceSpec_DeepCopy_def ManagedNamespaceStatus_DeepCopy_def ClusterAccessMappingStatus_DeepCopy_def
    ManagedNamespace_DeepCopy_def ClusterAccessMapping_DeepCopy_def ManagedNamespaceList_DeepCopy_def
    ClusterAccessMappingList_DeepCopy_def
  by (rule deep_ptr, rule deep_mapping deep_reference deep_quota deep_spec deep_mns_status deep_cam_status deep_mns
      deep_cam deep_mns_list deep_cam_list, simp)+

end

text \<open>What a program reads through a \<open>runtime.Object\<close>; \<open>None\<close> inside is the nil pointer.\<close>

datatype 'v object_value =
    MnsValue "'v mns_value option"
  | MnsListValue "(type_meta \<times> 'v \<times> 'v mns_value list option) option"
  | CamValue "'v cam_value option"
  | CamListValue "(type_meta \<times> 'v \<times> 'v cam_value list option) option"

fun object_val :: "('e heap \<Rightarrow> 'e \<Rightarrow> 'v option) \<Rightarrow> object_type \<Rightarrow> 'e heap \<Rightarrow> ptr \<Rightarrow> 'v object_value option" where
  "object_val lv TManagedNamespace h p = map_option MnsValue (val_ptr un_MnsObjects (mns_val lv) h p)"
| "object_val lv TManagedNamespaceList h p =
     map_option MnsListValue (val_ptr un_Lists (list_val un_MnsObjects (mns_val lv) lv) h p)"
| "object_val lv TClusterAccessMapping h p = map_option CamValue (val_ptr un_CamObjects (cam_val lv) h p)"
| "object_val lv TClusterAccessMappingList h p =
     map_option CamListValue (val_ptr un_Lists (list_val un_CamObjects (cam_val lv) lv) h p)"

fun object_refs :: "('e heap \<Rightarrow> 'e \<Rightarrow> addr set) \<Rightarrow> object_type \<Rightarrow> 'e heap \<Rightarrow> ptr \<Rightarrow> addr set" where
  "object_refs lr TManagedNamespace h p = refs_ptr un_MnsObjects (mns_refs lr) h p"
| "object_refs lr TManagedNamespaceList h p = refs_ptr un_Lists (list_refs un_MnsObjects (mns_refs lr) lr) h p"
| "object_refs lr TClusterAccessMapping h p = refs_ptr un_CamObjects (cam_refs lr) h p"
| "object_refs lr TClusterAccessMappingList h p = refs_ptr un_Lists (list_refs un_CamObjects (cam_refs lr) lr) h p"

fun copy_object :: "'e library \<Rightarrow> object_type \<Rightarrow> ptr \<Rightarrow> 'e heap \<Rightarrow> ptr \<times> 'e heap" where
  "copy_object L TManagedNamespace = ManagedNamespace_DeepCopy L"
| "copy_object L TManagedNamespaceList = ManagedNamespaceList_DeepCopy L"
| "copy_object L TClusterAccessMapping = ClusterAccessMapping_DeepCopy L"
| "copy_object L TClusterAccessMappingList = ClusterAccessMappingList_DeepCopy L"

lemma DeepCopyObject_copy_object:
  "DeepCopyObject L ty p h = (case copy_object L ty p h of (c, h') \<Rightarrow> (if c \<noteq> None then Some (ty, c) else None, h'))"
  by (induction ty) (simp_all add: ManagedNamespace_DeepCopyObject_def ManagedNamespaceList_DeepCopyObject_def
      ClusterAccessMapping_DeepCopyObject_def ClusterAccessMappingList_DeepCopyObject_def)

lemma copy_object_None: "copy_object L ty None h = (None, h)"
  by (cases ty) (simp_all add: ManagedNamespace_DeepCopy_def ManagedNamespaceList_DeepCopy_def
      ClusterAccessMapping_DeepCopy_def ClusterAccessMappingList_DeepCopy_def copy_ptr_def copy_ref_def)

lemma object_val_None: "object_val lv ty h None = Some v \<Longrightarrow> object_val lv ty h' (Some l) \<noteq> Some v"
  by (cases ty) (auto simp: val_ref_def split: option.splits)

lemma deep_wrapped:
  assumes "deep_copier c v r"
  shows "deep_copier c (\<lambda>h x. map_option C (v h x)) r"
proof
  fix h x w
  assume "map_option C (v h x) = Some w"
  then obtain u where u: "v h x = Some u" "w = C u" by auto
  show "r h x \<subseteq> dom (cells h)" by (rule deep_copier.refs_alloc [OF assms u(1)])
  show "map_option C (v h' x) = Some w \<and> r h' x = r h x" if "\<And>a. a \<in> r h x \<Longrightarrow> cells h' a = cells h a" for h'
    using deep_copier.local [OF assms u(1), of h'] that u(2) by simp
  show "heap_ok h' \<and> extends h h' \<and> map_option C (v h' y) = Some w \<and> r h' y \<inter> dom (cells h) = {}"
    if "heap_ok h" and "c x h = (y, h')" for y h'
    using deep_copier.copied [OF assms that(1) u(1) that(2)] u(2) by simp
qed

context go_library begin

lemma deep_object: "deep_copier (copy_object L ty) (object_val lval ty) (object_refs lrefs ty)"
proof (induction ty)
  case TManagedNamespace
  have "object_val lval TManagedNamespace = (\<lambda>h p. map_option MnsValue (val_ptr un_MnsObjects (mns_val lval) h p))"
    and "object_refs lrefs TManagedNamespace = refs_ptr un_MnsObjects (mns_refs lrefs)"
    by (intro ext object_val.simps object_refs.simps)+
  then show ?case using deep_wrapped [OF deep_pointers(7), of MnsValue] by (simp only: copy_object.simps)
next
  case TManagedNamespaceList
  have "object_val lval TManagedNamespaceList =
      (\<lambda>h p. map_option MnsListValue (val_ptr un_Lists (list_val un_MnsObjects (mns_val lval) lval) h p))"
    and "object_refs lrefs TManagedNamespaceList = refs_ptr un_Lists (list_refs un_MnsObjects (mns_refs lrefs) lrefs)"
    by (intro ext object_val.simps object_refs.simps)+
  then show ?case using deep_wrapped [OF deep_pointers(9), of MnsListValue] by (simp only: copy_object.simps)
next
  case TClusterAccessMapping
  have "object_val lval TClusterAccessMapping = (\<lambda>h p. map_option CamValue (val_ptr un_CamObjects (cam_val lval) h p))"
    and "object_refs lrefs TClusterAccessMapping = refs_ptr un_CamObjects (cam_refs lrefs)"
    by (intro ext object_val.simps object_refs.simps)+
  then show ?case using deep_wrapped [OF deep_pointers(8), of CamValue] by (simp only: copy_object.simps)
next
  case TClusterAccessMappingList
  have "object_val lval TClusterAccessMappingList =
      (\<lambda>h p. map_option CamListValue (val_ptr un_Lists (list_val un_CamObjects (cam_val lval) lval) h p))"
    and "object_refs lrefs TClusterAccessMappingList = refs_ptr un_Lists (list_refs un_CamObjects (cam_refs lrefs) lrefs)"
    by (intro ext object_val.simps object_refs.simps)+
  then show ?case using deep_wrapped [OF deep_pointers(10), of CamListValue] by (simp only: copy_object.simps)
qed

end

section \<open>A library\<close>

text \<open>
  One library that meets the contract: its types have a name, a map of labels and a slice of
  finalizers, as \<open>ObjectMeta\<close> has.
\<close>

record go_meta =
  ge_Name :: string
  ge_Labels :: mapref
  ge_Finalizers :: slice

definition meta_fields :: "go_meta \<Rightarrow> string \<times> mapref \<times> slice" where
  "meta_fields x = (ge_Name x, ge_Labels x, ge_Finalizers x)"

definition copy_meta :: "go_meta \<Rightarrow> 'e heap \<Rightarrow> go_meta \<times> 'e heap" where
  "copy_meta i h =
     (case copy_map (ge_Labels i) h of (ls, h1) \<Rightarrow>
      case copy_slice un_Strings Strings copy_flat (ge_Finalizers i) h1 of (fs, h2) \<Rightarrow>
        (i\<lparr>ge_Labels := ls, ge_Finalizers := fs\<rparr>, h2))"

definition meta_val :: "'e heap \<Rightarrow> go_meta \<Rightarrow> (string \<times> (string, string) fmap option \<times> string list option) option" where
  "meta_val h x = val_pair val_flat (val_pair val_map (val_slice un_Strings val_flat)) h (meta_fields x)"

definition meta_refs :: "'e heap \<Rightarrow> go_meta \<Rightarrow> addr set" where
  "meta_refs h x = refs_pair refs_flat (refs_pair refs_map (refs_slice un_Strings refs_flat)) h (meta_fields x)"

lemma deep_meta: "deep_copier copy_meta meta_val meta_refs"
proof (rule deep_via [OF deep_pair [OF deep_flat deep_pair [OF deep_map deep_strings]]])
  show "(\<lambda>(n, l, f). \<lparr>ge_Name = n, ge_Labels = l, ge_Finalizers = f\<rparr>) (meta_fields x) = x" for x
    by (cases x) (simp add: meta_fields_def)
qed (auto simp: meta_fields_def meta_val_def meta_refs_def copy_meta_def copy_pair_def copy_flat_def split: prod.splits)

definition meta_library :: "go_meta library" where
  "meta_library = \<lparr>lib_ObjectMeta = copy_meta, lib_ListMeta = copy_meta, lib_ResourceQuotaSpec = copy_meta,
     lib_Condition = copy_meta\<rparr>"

interpretation meta_library: go_library meta_library meta_val meta_refs
  by (rule go_library.intro) (simp_all add: meta_library_def deep_meta)

section \<open>The property\<close>

text \<open>C27. A deep copy is a copy, and deep. Of a nil pointer \<open>DeepCopyObject\<close> returns the nil interface.
  Otherwise it returns a new object of the same type, with the same value, all references followed; it
  writes nothing that was there; the copy and the original share no array, map or object; and whatever
  is later written through one of them, or anywhere else but to what the other refers to, the value of
  the other stays the same.\<close>

theorem deepcopy_object_independent:
  assumes "go_library L lval lrefs" and "heap_ok h" and "object_val lval ty h p = Some v"
    and "DeepCopyObject L ty p h = (c, h')"
  shows "(p = None \<longrightarrow> c = None \<and> h' = h) \<and>
    (p \<noteq> None \<longrightarrow> (\<exists>q. c = Some (ty, q) \<and> q \<noteq> None \<and> heap_ok h' \<and> extends h h' \<and>
       object_val lval ty h' q = Some v \<and> object_refs lrefs ty h' p \<inter> object_refs lrefs ty h' q = {} \<and>
       (\<forall>h''. (\<forall>a \<in> dom (cells h') - object_refs lrefs ty h' q. cells h'' a = cells h' a) \<longrightarrow>
          object_val lval ty h'' p = Some v) \<and>
       (\<forall>h''. (\<forall>a \<in> dom (cells h') - object_refs lrefs ty h' p. cells h'' a = cells h' a) \<longrightarrow>
          object_val lval ty h'' q = Some v)))"
proof -
  note deep = go_library.deep_object [OF assms(1), of ty]
  obtain q where q: "copy_object L ty p h = (q, h')" "c = (if q \<noteq> None then Some (ty, q) else None)"
    using assms(4) by (auto simp: DeepCopyObject_copy_object split: prod.splits)
  note copied = deep_copier.copied [OF deep assms(2,3) q(1)]
    and independent = deep_copier.copy_independent [OF deep assms(2,3) q(1)]
    and disjoint = deep_copier.copy_disjoint [OF deep assms(2,3) q(1)]
  have "q \<noteq> None" if "p \<noteq> None"
    using object_val_None [of lval ty h' v] copied assms(3) that by (cases q; cases p) auto
  moreover have "q = None \<and> h' = h" if "p = None"
    using q(1) that by (simp add: copy_object_None)
  ultimately show ?thesis using q(2) copied independent disjoint by (cases "p = None") simp_all
qed

text \<open>A ManagedNamespace with labels, a finalizer and one mapping.\<close>

definition ex_object :: "go_meta go_mns" where
  "ex_object =
     \<lparr>gn_TypeMeta = \<lparr>tm_Kind = ''ManagedNamespace'', tm_APIVersion = ''k8s.pliu.dev/v1alpha1''\<rparr>,
      gn_ObjectMeta = \<lparr>ge_Name = ''team-a'', ge_Labels = None, ge_Finalizers = Some (2, 0, 1)\<rparr>,
      gn_Spec = \<lparr>gs_Labels = Some 1, gs_Annotations = None, gs_ResourceQuotas = None, gs_AccessMappings = Some (3, 0, 1)\<rparr>,
      gn_Status = \<lparr>gt_ObservedGeneration = 2, gt_Conditions = None, gt_InvalidReferences = None\<rparr>\<rparr>"

definition ex_heap :: "go_meta heap" where
  "ex_heap = \<lparr>next_addr = 5, cells = [0 \<mapsto> MnsObjects [ex_object], 1 \<mapsto> Table (fmupd ''tier'' ''dev'' fmempty),
     2 \<mapsto> Strings [Finalizer], 3 \<mapsto> Mappings [\<lparr>gm_Group = ''devs'', gm_Users = None, gm_ClusterRoles = Some (4, 0, 1)\<rparr>],
     4 \<mapsto> Strings [''view'']]\<rparr>"

lemma ex_heap_ok: "heap_ok ex_heap"
  by (simp add: heap_ok_def ex_heap_def)

lemma ex_object_val:
  "object_val meta_val TManagedNamespace ex_heap (Some (0, 0)) =
     Some (MnsValue (Some (\<lparr>tm_Kind = ''ManagedNamespace'', tm_APIVersion = ''k8s.pliu.dev/v1alpha1''\<rparr>,
       (''team-a'', None, Some [Finalizer]),
       (Some (fmupd ''tier'' ''dev'' fmempty), None, None, Some [(''devs'', None, Some [''view''])]),
       (2, None, None))))"
  by (simp add: ex_heap_def ex_object_def val_ref_def fetch_def ptr_view_def slice_view_def val_each_def val_flat_def
      val_pair_def mns_val_def spec_val_def status_val_def mapping_val_def meta_val_def meta_fields_def
      mapping_fields_def copy_fields_def)

lemma ex_object_refs: "1 \<in> object_refs meta_refs TManagedNamespace ex_heap (Some (0, 0))"
  by (simp add: ex_heap_def ex_object_def refs_ref_def fetch_def ptr_view_def refs_pair_def mns_refs_def
      spec_refs_def copy_fields_def)

text \<open>The copy has the label too, in a map of its own.\<close>

theorem deepcopy_object_independent_witness:
  "\<exists>q h'. DeepCopyObject meta_library TManagedNamespace (Some (0, 0)) ex_heap = (Some (TManagedNamespace, q), h') \<and>
     object_val meta_val TManagedNamespace h' q = object_val meta_val TManagedNamespace ex_heap (Some (0, 0)) \<and>
     1 \<notin> object_refs meta_refs TManagedNamespace h' q"
proof -
  obtain c h' where copy: "DeepCopyObject meta_library TManagedNamespace (Some (0, 0)) ex_heap = (c, h')" by fastforce
  from deepcopy_object_independent [OF meta_library.go_library_axioms ex_heap_ok ex_object_val copy]
  obtain q where q: "c = Some (TManagedNamespace, q)" "extends ex_heap h'"
    and val: "object_val meta_val TManagedNamespace h' q = object_val meta_val TManagedNamespace ex_heap (Some (0, 0))"
    and disjoint: "object_refs meta_refs TManagedNamespace h' (Some (0, 0)) \<inter> object_refs meta_refs TManagedNamespace h' q = {}"
    unfolding ex_object_val by blast
  have "1 \<in> object_refs meta_refs TManagedNamespace h' (Some (0, 0))"
    using ex_object_refs deep_copier.extended [OF meta_library.deep_object ex_object_val q(2)] by simp
  with copy q(1) val disjoint show ?thesis by blast
qed

end
