(* ===== verification/Spec2Isabelle.thy ===== *)
theory Spec2Isabelle
  imports Mns_Properties Cam_Properties Support_Properties Process_Properties Deep_Copy_Properties
begin

text \<open>
  A verification library for k8s-controller, a Kubernetes controller with two custom resources. A
  ManagedNamespace (cluster-scoped, its name is the name of a namespace) asks for a Namespace with
  labels and annotations, for ResourceQuotas in it, and for RoleBindings of groups or users to
  ClusterRoles. A ClusterAccessMapping asks for ClusterRoleBindings of one group or user list.

  \<^bold>\<open>The program and its model.\<close> Paths are under \<open>src/\<close>.

  \<^item> \<open>internal/core/core.go\<close> is \<open>Core\<close>: the label, annotation and finalizer names, \<open>Hash\<close> and
    \<open>BindingName\<close>. SHA-256 and hexadecimal encoding are written out in \<open>Sha256\<close>, so names are
    computed; the slice of the digest is a partial operation that is shown never to panic.
  \<^item> \<open>api/v1alpha1/types.go\<close> is \<open>Api_Types\<close>: a record per struct, the fields of the Kubernetes types
    that the program uses, and the validation markers as predicates. A Go map that may be nil is a
    \<open>gomap\<close> (an optional finite map, \<open>Prelude\<close>); reading a nil map finds nothing, writing to one is
    \<open>None\<close>, a panic.
  \<^item> \<open>internal/controller/shared.go\<close> is \<open>Shared\<close>: users, subjects and keys, owner labels, condition
    messages (with the UTF-8 repair of \<open>strings.ToValidUTF8\<close> in \<open>Utf8\<close>), retries, and the requests an
    event on an owned object enqueues. What the two reconcilers write twice is in \<open>Binding_Ops\<close>.
  \<^item> \<open>internal/controller/managednamespace.go\<close> is \<open>Managed_Namespace\<close>, one definition per method and
    per loop body, and \<open>Inventory\<close>: the mutation of the Namespace and the JSON annotation that
    records which keys the controller set. The part of \<open>encoding/json\<close> this uses, string escapes and
    all, is in \<open>Json\<close>.
  \<^item> \<open>internal/controller/clusteraccess.go\<close> is \<open>Cluster_Access\<close>, in the same way.
  \<^item> The gauge of \<open>internal/controller/metrics.go\<close> appears as the events \<open>GaugeSet\<close> and \<open>GaugeDelete\<close>;
    \<open>Gauge\<close> has the series they leave.
  \<^item> \<open>internal/server\<close> is \<open>Viewer\<close>: the matching of requests to routes, the two handlers, \<open>respond\<close>, and
    the instrumentation with its status recorder. A handler is a sequence of operations on the
    response.
  \<^item> \<open>cmd/k8s-controller/main.go\<close> is \<open>Process\<close>: the options made of the flags, the boot as the sequence of
    calls that can fail, and \<open>serve\<close> as a step relation between the accept loop, the goroutine that
    shuts the server down, and the requests in flight, each answered by the viewer.
  \<^item> \<open>api/v1alpha1/zz_generated.deepcopy.go\<close> is \<open>Deep_Copy\<close>, function by function, over the heap of
    \<open>Go_Heap\<close>, in which slices, maps and pointers are references. Everywhere else objects are values;
    \<open>Deep_Copy_Properties\<close> is why they may be.

  \<^bold>\<open>State, effects, errors.\<close> \<open>Effects\<close> has the monad the reconcilers run in: a world is an outside
  state of arbitrary type and the trace of the requests, log lines and gauge changes so far; an
  operation returns an error or a value and the next world. Every \<open>if e != nil\<close> of the source is a
  branch. The libraries are parameters (\<open>Kube_Client\<close>): the client at each kind with its
  \<open>CreateOrUpdate\<close>, the live reader, the error classifiers, the finalizer helpers and
  \<open>meta.SetStatusCondition\<close>. What the code relies on of them is a contract, the locale \<open>kube_env\<close> of
  \<open>Kube_Api\<close>, over two tables, what the server has and what the informer cache shows. It says how
  each call may move the tables and what a success means: a read through the cache may be stale; a
  write that succeeds was not based on a stale read; a deletion leaves the object terminating if it
  has finalizers; a failed write may or may not have happened. \<open>Mem_Cluster\<close> is a concrete API server
  with caches that may lag and faults on a schedule; it is shown to meet the whole contract, and the
  witnesses of the properties are runs of it (\<open>Mem_Examples\<close>, \<open>Rest_Examples\<close>).

  \<^bold>\<open>How the properties are proved.\<close> \<open>Pass_Invariants\<close> has the frame: an invariant of a pass need only
  survive a read, a write to an object of the pass's own, and the deletion of one it may drop; the
  locales of \<open>Mns_Frame\<close> and \<open>Cam_Frame\<close> carry it through every operation, once. Confinement,
  bystanders, retention and revocation are instances (\<open>Mns_Safety\<close>, \<open>Cam_Sync\<close>). \<open>Binding_Sync\<close> states
  what a right binding is and the invariant of the loops over roles, at either kind of binding;
  \<open>Mns_Convergence\<close> and \<open>Cam_Sync\<close> prove that a completed sync has converged, \<open>Mns_Provision\<close> the same
  for the Namespace and the quotas, \<open>Mns_Status\<close> and \<open>Cam_Status\<close> what whole passes report, \<open>Quiet\<close> and
  \<open>Cam_Quiet\<close> that a pass over a settled cluster has no effect, and \<open>Names\<close> that names identify
  bindings unless hashes collide. \<open>Binding_Trace\<close> reads off a trace which bindings were written and deleted, and \<open>Outcomes\<close> ties
  what a reconcile returns to its cause. \<open>Adoption\<close> composes the pass that puts the finalizer on a new resource
  with the one that provisions it. A deep copier's promise is the locale \<open>deep_copier\<close> of \<open>Go_Heap\<close>; every
  shape a copy is made of keeps it if its parts do, so each generated function has it by composition.
  The invariant of a running HTTP server is proved by induction over its runs, and its progress from
  an order on its phases. The properties themselves are in \<open>Mns_Properties\<close>, \<open>Cam_Properties\<close>,
  \<open>Support_Properties\<close>, \<open>Viewer_Properties\<close>, \<open>Process_Properties\<close> and \<open>Deep_Copy_Properties\<close>.

  \<^bold>\<open>Bounds and fuel.\<close> The JSON parser takes twice the length of the text plus two as fuel, which
  \<open>parse_fuel\<close> shows to be enough; Go's own depth limit of 10000 is kept. Bytes are characters,
  strings lists of them; Go's \<open>len\<close> is the length. Generations are integers.

  \<^bold>\<open>Hypotheses.\<close> Convergence asks that informers be fresh at the kinds involved when the pass starts,
  that entries of one binding name agree (\<open>binding_names_consistent\<close> gives this from the absence of
  collisions) and that no name the spec asks for twice is taken by a binding of another role. Revocation
  in the face of failing requests (\<open>mns_sync_revokes_first\<close>) asks for freshness at RoleBindings, because the
  prune lists through the cache. The other safety properties (confinement, bystanders, retention, the
  finalizer) need no such thing: they hold with stale caches and failing requests. During one pass nobody
  else writes to the server: a call moves only the object it names. Between passes anything may happen.

  \<^bold>\<open>Libraries of the viewer and the process.\<close> The Prometheus handler, the file server, the redirect handler,
  the JSON encoder of the lists and the manager are arguments, of which nothing is assumed. The
  copiers of \<open>ObjectMeta\<close>, \<open>ListMeta\<close>, \<open>ResourceQuotaSpec\<close> and \<open>Condition\<close> are arguments under the contract
  \<open>go_library\<close>, which is met by the copier of a type with a map and a slice (\<open>meta_library\<close>). A request
  runs to its end in one step of the server; timeouts may fire at any time. Connections are accepted only
  while the listener is open, and a listen error ends the loop only before \<open>Shutdown\<close> has begun.

  \<^bold>\<open>Not modelled.\<close> The parsing of the command line, the signal handler, what the scheme
  and the metrics registry do with a registration (calls into libraries), latencies, the user interface, the manifests, the tests. Contexts,
  tracing fields of log lines and the clock are left out; the transition time of a condition is the
  library's.
\<close>

end
